(* ===== verification/Hush_Prelude.thy ===== *)
theory Hush_Prelude
  imports "HOL-Library.Word"
begin

text \<open>
  Vocabulary shared by every component: the machine integers at their width, byte strings,
  Rust's \<open>Result\<close> as a sum (\<open>Inl\<close> the error, \<open>Inr\<close> the value) with the combinators the
  source uses (\<open>?\<close>, \<open>map_err\<close>, \<open>ok_or\<close>, \<open>ok\<close>, \<open>expect\<close>), time as nanoseconds, and the
  interface of a keyed store as a locale hierarchy (lookup/update, delete, retain) which the
  session store, the token store, the key store, the handler table and the TLV map interpret.
\<close>

unbundle bit_operations_syntax

named_theorems hush_wf "well-formedness facts of the model's values"
named_theorems hush_len "lengths of encodings"

section \<open>Machine integers, bytes, time\<close>

type_synonym u8 = "8 word"
type_synonym u16 = "16 word"
type_synonym u32 = "32 word"
type_synonym u64 = "64 word"
type_synonym bytes = "8 word list"

text \<open>
  A \<open>std::time::Duration\<close> is its number of nanoseconds and an \<open>Instant\<close> the nanoseconds on
  the monotonic clock; \<open>Instant::elapsed\<close> saturates at zero, as subtraction on \<open>nat\<close> does.
\<close>

type_synonym duration = nat
type_synonym instant = nat

definition from_secs :: "nat \<Rightarrow> duration" where
  "from_secs s = s * 1000000000"

definition from_millis :: "u64 \<Rightarrow> duration" where
  "from_millis ms = unat ms * 1000000"

definition as_millis :: "duration \<Rightarrow> nat" where
  "as_millis d = d div 1000000"

definition duration_bound :: "duration \<Rightarrow> bool" where
  "duration_bound d \<longleftrightarrow> d < 2 ^ 64 * 1000000000"

definition elapsed :: "instant \<Rightarrow> instant \<Rightarrow> duration" where
  "elapsed now t = now - t"

section \<open>Results\<close>

text \<open>Rust's \<open>Ok\<close> and \<open>Err\<close>, usable in patterns.\<close>

abbreviation Ok :: "'a \<Rightarrow> 'e + 'a" where
  "Ok \<equiv> Inr"

abbreviation Err :: "'e \<Rightarrow> 'e + 'a" where
  "Err \<equiv> Inl"

definition and_then :: "'e + 'a \<Rightarrow> ('a \<Rightarrow> 'e + 'b) \<Rightarrow> 'e + 'b" where
  "and_then r f = (case r of Inl e \<Rightarrow> Inl e | Inr x \<Rightarrow> f x)"

definition map_err :: "('e \<Rightarrow> 'f) \<Rightarrow> 'e + 'a \<Rightarrow> 'f + 'a" where
  "map_err g r = (case r of Inl e \<Rightarrow> Inl (g e) | Inr x \<Rightarrow> Inr x)"

definition ok_or :: "'e \<Rightarrow> 'a option \<Rightarrow> 'e + 'a" where
  "ok_or e x = (case x of None \<Rightarrow> Inl e | Some y \<Rightarrow> Inr y)"

definition res_ok :: "'e + 'a \<Rightarrow> 'a option" where
  "res_ok r = (case r of Inl e \<Rightarrow> None | Inr x \<Rightarrow> Some x)"

definition is_ok :: "'e + 'a \<Rightarrow> bool" where
  "is_ok r = (case r of Inl e \<Rightarrow> False | Inr x \<Rightarrow> True)"

text \<open>\<open>Result::expect\<close> panics on an error: it has no value there.\<close>

fun expect :: "'e + 'a \<Rightarrow> 'a" where
  "expect (Inr x) = x"

lemma and_then_simps [simp]:
  "and_then (Inl e) f = Inl e"
  "and_then (Inr x) f = f x"
  by (simp_all add: and_then_def)

lemma and_then_cong [fundef_cong]:
  "r = s \<Longrightarrow> (\<And>x. s = Inr x \<Longrightarrow> f x = g x) \<Longrightarrow> and_then r f = and_then s g"
  by (simp add: and_then_def split: sum.split)

lemma and_then_eq_Inr: "and_then r f = Inr y \<longleftrightarrow> (\<exists>x. r = Inr x \<and> f x = Inr y)"
  by (simp add: and_then_def split: sum.split)

lemma and_then_eq_Inl: "and_then r f = Inl e \<longleftrightarrow> r = Inl e \<or> (\<exists>x. r = Inr x \<and> f x = Inl e)"
  by (auto simp: and_then_def split: sum.split)

lemma map_err_simps [simp]:
  "map_err g (Inl e) = Inl (g e)"
  "map_err g (Inr x) = Inr x"
  by (simp_all add: map_err_def)

lemma map_err_eq_Inr [simp]: "map_err g r = Inr x \<longleftrightarrow> r = Inr x"
  by (simp add: map_err_def split: sum.split)

lemma map_err_eq_Inl: "map_err g r = Inl f \<longleftrightarrow> (\<exists>e. r = Inl e \<and> f = g e)"
  by (auto simp: map_err_def split: sum.split)

lemma ok_or_simps [simp]:
  "ok_or e None = Inl e"
  "ok_or e (Some x) = Inr x"
  by (simp_all add: ok_or_def)

lemma ok_or_eq_Inr [simp]: "ok_or e x = Inr y \<longleftrightarrow> x = Some y"
  by (simp add: ok_or_def split: option.split)

lemma res_ok_simps [simp]:
  "res_ok (Inl e) = None"
  "res_ok (Inr x) = Some x"
  by (simp_all add: res_ok_def)

lemma is_ok_simps [simp]:
  "\<not> is_ok (Inl e)"
  "is_ok (Inr x)"
  by (simp_all add: is_ok_def)

lemma is_ok_iff: "is_ok r \<longleftrightarrow> (\<exists>x. r = Inr x)"
  by (simp add: is_ok_def split: sum.split)

lemma not_is_ok_iff: "\<not> is_ok r \<longleftrightarrow> (\<exists>e. r = Inl e)"
  by (simp add: is_ok_def split: sum.split)

lemmas res_simps = and_then_eq_Inr and_then_eq_Inl map_err_eq_Inl is_ok_iff

section \<open>Strings\<close>

text \<open>
  A Rust \<open>String\<close> is a sequence of bytes that is valid UTF-8. It is modelled by the list of
  those bytes as characters of Isabelle's 8-bit \<open>char\<close>, so that literals can be written
  \<open>''error''\<close> and \<open>length\<close> counts bytes, as \<open>str::len\<close> does.
\<close>

definition as_bytes :: "string \<Rightarrow> bytes" where
  "as_bytes s = map (\<lambda>c. word_of_nat (of_char c)) s"

definition of_bytes :: "bytes \<Rightarrow> string" where
  "of_bytes b = map (\<lambda>w. char_of (unat w)) b"

lemma unat_u8_less: "unat (b :: u8) < 256"
  using unsigned_less [of b, where ?'a = nat] by simp

lemma of_char_nat_less: "(of_char c :: nat) < 256"
  by (rule nat_of_char_less_256)

lemma of_bytes_as_bytes [simp]: "of_bytes (as_bytes s) = s"
proof -
  have "char_of (unat (word_of_nat (of_char c) :: u8)) = c" for c
    using of_char_nat_less [of c] by (simp add: unat_of_nat)
  then show ?thesis by (simp add: of_bytes_def as_bytes_def comp_def)
qed

lemma as_bytes_of_bytes [simp]: "as_bytes (of_bytes b) = b"
proof -
  have "(word_of_nat (of_char (char_of (unat w) :: char)) :: u8) = w" for w :: u8
    using unat_u8_less [of w] by simp
  then show ?thesis by (simp add: of_bytes_def as_bytes_def comp_def)
qed

lemma as_bytes_inject [simp]: "as_bytes s = as_bytes t \<longleftrightarrow> s = t"
  by (metis of_bytes_as_bytes)

lemma length_as_bytes [simp]: "length (as_bytes s) = length s"
  by (simp add: as_bytes_def)

lemma length_of_bytes [simp]: "length (of_bytes b) = length b"
  by (simp add: of_bytes_def)

lemma as_bytes_append [simp]: "as_bytes (s @ t) = as_bytes s @ as_bytes t"
  by (simp add: as_bytes_def)

lemma as_bytes_Nil [simp]: "as_bytes [] = []"
  by (simp add: as_bytes_def)

lemma of_bytes_Nil [simp]: "of_bytes [] = []"
  by (simp add: of_bytes_def)

lemma as_bytes_eq_Nil [simp]: "as_bytes s = [] \<longleftrightarrow> s = []"
  by (simp add: as_bytes_def)

section \<open>The interface of a keyed store\<close>

text \<open>
  What the program relies on of a \<open>HashMap\<close>-like object. \<open>store_view\<close> is its lookup;
  \<open>kv_store\<close> adds updates under a given key, \<open>keyed_store\<close> insertion of values that carry
  their own key (sessions, tokens), \<open>del_store\<close> removal, \<open>gc_store\<close> also \<open>retain\<close>, and
  \<open>keyed_gc_store\<close> is the whole interface of the session and token stores.
\<close>

locale store_view =
  fixes lookup :: "'m \<Rightarrow> 'k \<Rightarrow> 'v option"
    and empty_m :: "'m"
    and inv_m :: "'m \<Rightarrow> bool"
  assumes lookup_empty: "lookup empty_m k = None"
    and inv_empty: "inv_m empty_m"

locale kv_store = store_view lookup empty_m inv_m
  for lookup :: "'m \<Rightarrow> 'k \<Rightarrow> 'v option" and empty_m inv_m +
  fixes upd :: "'k \<Rightarrow> 'v \<Rightarrow> 'm \<Rightarrow> 'm"
  assumes lookup_upd: "inv_m m \<Longrightarrow> lookup (upd k v m) = (lookup m)(k \<mapsto> v)"
    and inv_upd: "inv_m m \<Longrightarrow> inv_m (upd k v m)"
begin

lemma upd_same: "inv_m m \<Longrightarrow> lookup (upd k v m) k = Some v"
  by (simp add: lookup_upd)

lemma upd_other: "inv_m m \<Longrightarrow> k' \<noteq> k \<Longrightarrow> lookup (upd k v m) k' = lookup m k'"
  by (simp add: lookup_upd)

lemma upd_overwrite: "inv_m m \<Longrightarrow> lookup (upd k w (upd k v m)) = lookup (upd k w m)"
  by (simp add: lookup_upd inv_upd)

lemma inv_fold_upd: "inv_m m \<Longrightarrow> inv_m (fold (\<lambda>(k, v). upd k v) kvs m)"
  by (induction kvs arbitrary: m) (auto simp: inv_upd)

lemma lookup_fold_upd:
  "inv_m m \<Longrightarrow> lookup (fold (\<lambda>(k, v). upd k v) kvs m) k =
     (case map_of (rev kvs) k of Some v \<Rightarrow> Some v | None \<Rightarrow> lookup m k)"
  by (induction kvs arbitrary: m)
    (auto simp: lookup_upd inv_upd map_add_def split: option.splits)

end

locale keyed_store = store_view lookup empty_m inv_m
  for lookup :: "'m \<Rightarrow> 'k \<Rightarrow> 'v option" and empty_m inv_m +
  fixes key_of :: "'v \<Rightarrow> 'k"
    and put :: "'v \<Rightarrow> 'm \<Rightarrow> 'm"
  assumes lookup_put: "inv_m m \<Longrightarrow> lookup (put v m) = (lookup m)(key_of v \<mapsto> v)"
    and inv_put: "inv_m m \<Longrightarrow> inv_m (put v m)"
    and inv_key: "inv_m m \<Longrightarrow> lookup m k = Some v \<Longrightarrow> key_of v = k"
begin

lemma put_same: "inv_m m \<Longrightarrow> lookup (put v m) (key_of v) = Some v"
  by (simp add: lookup_put)

lemma put_other: "inv_m m \<Longrightarrow> k \<noteq> key_of v \<Longrightarrow> lookup (put v m) k = lookup m k"
  by (simp add: lookup_put)

lemma inv_fold_put: "inv_m m \<Longrightarrow> inv_m (fold put vs m)"
  by (induction vs arbitrary: m) (auto simp: inv_put)

text \<open>Values put under other keys, in any number, do not disturb an entry.\<close>

lemma put_undisturbed:
  "inv_m m \<Longrightarrow> k \<notin> key_of ` set vs \<Longrightarrow> lookup (fold put vs m) k = lookup m k"
  by (induction vs arbitrary: m) (auto simp: inv_put lookup_put)

end

locale del_store = store_view lookup empty_m inv_m
  for lookup :: "'m \<Rightarrow> 'k \<Rightarrow> 'v option" and empty_m inv_m +
  fixes del :: "'k \<Rightarrow> 'm \<Rightarrow> 'm"
  assumes lookup_del: "inv_m m \<Longrightarrow> lookup (del k m) = (lookup m)(k := None)"
    and inv_del: "inv_m m \<Longrightarrow> inv_m (del k m)"
begin

lemma del_same: "inv_m m \<Longrightarrow> lookup (del k m) k = None"
  by (simp add: lookup_del)

lemma del_other: "inv_m m \<Longrightarrow> k' \<noteq> k \<Longrightarrow> lookup (del k m) k' = lookup m k'"
  by (simp add: lookup_del)

end

locale gc_store = del_store lookup empty_m inv_m del
  for lookup :: "'m \<Rightarrow> 'k \<Rightarrow> 'v option" and empty_m inv_m del +
  fixes retain :: "('v \<Rightarrow> bool) \<Rightarrow> 'm \<Rightarrow> 'm"
  assumes lookup_retain:
      "inv_m m \<Longrightarrow> lookup (retain P m) k = (case lookup m k of None \<Rightarrow> None
         | Some v \<Rightarrow> if P v then Some v else None)"
    and inv_retain: "inv_m m \<Longrightarrow> inv_m (retain P m)"
begin

lemma retain_Some: "inv_m m \<Longrightarrow> lookup (retain P m) k = Some v \<longleftrightarrow> lookup m k = Some v \<and> P v"
  by (auto simp: lookup_retain split: option.splits)

lemma retain_mono:
  "inv_m m \<Longrightarrow> (\<And>v. Q v \<Longrightarrow> P v) \<Longrightarrow> lookup (retain Q (retain P m)) = lookup (retain Q m)"
  by (rule ext) (auto simp: lookup_retain inv_retain split: option.splits)

lemma retain_del: "inv_m m \<Longrightarrow> lookup (retain P (del k m)) = lookup (del k (retain P m))"
  by (rule ext) (auto simp: lookup_retain lookup_del inv_del inv_retain split: option.splits)

end

locale keyed_gc_store =
  keyed_store lookup empty_m inv_m key_of put + gc_store lookup empty_m inv_m del retain
  for lookup :: "'m \<Rightarrow> 'k \<Rightarrow> 'v option" and empty_m inv_m key_of put del retain
begin

lemma del_put: "inv_m m \<Longrightarrow> lookup (del (key_of v) (put v m)) = lookup (del (key_of v) m)"
  by (simp add: lookup_del lookup_put inv_put)

lemma retain_put:
  "inv_m m \<Longrightarrow> P v \<Longrightarrow> lookup (retain P (put v m)) = lookup (put v (retain P m))"
  by (rule ext) (auto simp: lookup_retain lookup_put inv_put inv_retain split: option.splits)

end

text \<open>A \<open>HashMap\<close> itself is a partial function; \<open>map_retain\<close> is its \<open>retain\<close> on values.\<close>

definition map_retain :: "('v \<Rightarrow> bool) \<Rightarrow> ('k \<rightharpoonup> 'v) \<Rightarrow> ('k \<rightharpoonup> 'v)" where
  "map_retain P m = (\<lambda>k. case m k of None \<Rightarrow> None | Some v \<Rightarrow> if P v then Some v else None)"

lemma map_retain_Some: "map_retain P m k = Some v \<longleftrightarrow> m k = Some v \<and> P v"
  by (auto simp: map_retain_def split: option.splits)

end
