(* ===== verification/Hush_Bytes.thy ===== *)
theory Hush_Bytes
  imports Hush_Prelude
begin

text \<open>
  The byte-level parts of Rust's standard library the program is built on: the big-endian
  conversions \<open>to_be_bytes\<close> / \<open>from_be_bytes\<close> of \<open>u16\<close>, \<open>u32\<close>, \<open>u64\<close> (one locale, three
  interpretations) and UTF-8 validation as \<open>String::from_utf8\<close> and
  \<open>String::from_utf8_lossy\<close> perform it.
\<close>

section \<open>Big-endian integers\<close>

definition to_be :: "nat \<Rightarrow> 'a::len word \<Rightarrow> bytes" where
  "to_be n w = map (\<lambda>i. ucast (drop_bit (8 * i) w)) (rev [0..<n])"

definition from_be :: "bytes \<Rightarrow> 'a::len word" where
  "from_be b = foldl (\<lambda>acc x. push_bit 8 acc OR ucast x) 0 b"

definition u16_to_be :: "u16 \<Rightarrow> bytes" where "u16_to_be = to_be 2"
definition u32_to_be :: "u32 \<Rightarrow> bytes" where "u32_to_be = to_be 4"
definition u64_to_be :: "u64 \<Rightarrow> bytes" where "u64_to_be = to_be 8"
definition u16_from_be :: "bytes \<Rightarrow> u16" where "u16_from_be = from_be"
definition u32_from_be :: "bytes \<Rightarrow> u32" where "u32_from_be = from_be"
definition u64_from_be :: "bytes \<Rightarrow> u64" where "u64_from_be = from_be"

lemma length_to_be [simp]: "length (to_be n w) = n"
  by (simp add: to_be_def)

lemma nth_rev_to_be: "j < n \<Longrightarrow> rev (to_be n w) ! j = ucast (drop_bit (8 * j) w)"
  by (simp add: to_be_def rev_map)

lemma bit_from_be:
  "bit (from_be b :: 'a::len word) i \<longleftrightarrow>
     i < LENGTH('a) \<and> i < 8 * length b \<and> bit (rev b ! (i div 8)) (i mod 8)"
proof (induction b arbitrary: i rule: rev_induct)
  case Nil
  then show ?case by (simp add: from_be_def)
next
  case (snoc x b)
  have step: "from_be (b @ [x]) = (push_bit 8 (from_be b) OR ucast x :: 'a word)"
    by (simp add: from_be_def)
  show ?case
  proof (cases "i < 8")
    case True
    then show ?thesis
      by (auto simp: step bit_or_iff bit_push_bit_iff bit_ucast_iff nth_append)
  next
    case False
    then have "i div 8 = Suc ((i - 8) div 8)" and "i mod 8 = (i - 8) mod 8"
      by (simp_all add: le_div_geq le_mod_geq not_less)
    moreover have "\<not> bit x i"
      using False bit_imp_le_length [of x i] by auto
    ultimately show ?thesis
      using False by (auto simp: step bit_or_iff bit_push_bit_iff bit_ucast_iff snoc)
  qed
qed

lemma from_be_to_be:
  fixes w :: "'a::len word"
  assumes "LENGTH('a) = 8 * n"
  shows "from_be (to_be n w) = w"
proof (rule bit_word_eqI)
  fix i
  assume i: "i < LENGTH('a)"
  then have j: "i div 8 < n" using assms by auto
  have "8 * (i div 8) + i mod 8 = i" by simp
  then have "bit (rev (to_be n w) ! (i div 8)) (i mod 8) \<longleftrightarrow> bit w i"
    using j by (simp add: nth_rev_to_be bit_ucast_iff bit_drop_bit_eq)
  then show "bit (from_be (to_be n w) :: 'a word) i \<longleftrightarrow> bit w i"
    using i assms by (simp add: bit_from_be)
qed

lemma to_be_from_be:
  assumes "LENGTH('a) = 8 * n" and "length b = n"
  shows "to_be n (from_be b :: 'a::len word) = b"
proof (rule nth_equalityI)
  show "length (to_be n (from_be b :: 'a word)) = length b" using assms by simp
next
  fix k
  assume "k < length (to_be n (from_be b :: 'a word))"
  then have k: "k < n" by simp
  have "to_be n (from_be b :: 'a word) ! k = ucast (drop_bit (8 * (n - Suc k)) (from_be b :: 'a word))"
    using k by (simp add: to_be_def rev_nth)
  also have "\<dots> = b ! k"
  proof (rule bit_word_eqI)
    fix i
    assume "i < LENGTH(8)"
    then have i: "i < 8" by simp
    have "8 * (n - Suc k) + i < 8 * n" using i k by simp
    then show "bit (ucast (drop_bit (8 * (n - Suc k)) (from_be b :: 'a word)) :: u8) i \<longleftrightarrow> bit (b ! k) i"
      using i k assms by (simp add: bit_ucast_iff bit_drop_bit_eq bit_from_be rev_nth)
  qed
  finally show "to_be n (from_be b :: 'a word) ! k = b ! k" .
qed

text \<open>
  What every user of a fixed-width integer on the wire relies on: the width, that decoding
  inverts encoding, and that encoding inverts decoding on exactly \<open>width\<close> bytes.
\<close>

locale be_int =
  fixes width :: nat
    and enc :: "'w \<Rightarrow> bytes"
    and dec :: "bytes \<Rightarrow> 'w"
  assumes len_enc: "length (enc w) = width"
    and dec_enc: "dec (enc w) = w"
    and enc_dec: "length b = width \<Longrightarrow> enc (dec b) = b"
begin

lemma enc_inject: "enc v = enc w \<longleftrightarrow> v = w"
  by (metis dec_enc)

lemma dec_take: "dec (take width (enc w @ r)) = w"
  by (simp add: len_enc dec_enc)

lemma drop_enc: "drop width (enc w @ r) = r"
  by (simp add: len_enc)

lemma split_eq: "width \<le> length b \<Longrightarrow> enc (dec (take width b)) @ drop width b = b"
  by (simp add: enc_dec)

end

interpretation be16: be_int 2 u16_to_be u16_from_be
  by unfold_locales
    (simp_all add: u16_to_be_def u16_from_be_def from_be_to_be to_be_from_be)

interpretation be32: be_int 4 u32_to_be u32_from_be
  by unfold_locales
    (simp_all add: u32_to_be_def u32_from_be_def from_be_to_be to_be_from_be)

interpretation be64: be_int 8 u64_to_be u64_from_be
  by unfold_locales
    (simp_all add: u64_to_be_def u64_from_be_def from_be_to_be to_be_from_be)

lemmas be_simps [simp] = be16.len_enc be16.dec_enc be32.len_enc be32.dec_enc be64.len_enc be64.dec_enc
lemmas be_defs = u16_to_be_def u32_to_be_def u64_to_be_def u16_from_be_def u32_from_be_def
  u64_from_be_def to_be_def from_be_def

end
