(* ===== verification/Hush_Utf8.thy ===== *)
theory Hush_Utf8
  imports Hush_Bytes
begin

text \<open>
  UTF-8 as Rust's standard library checks it. \<open>utf8_step\<close> looks at one sequence: whether it is
  well-formed, and how many bytes after the first belong to it (for an ill-formed one, to its
  maximal subpart). \<open>utf8_valid\<close> is \<open>str::from_utf8\<close>'s check, \<open>from_utf8\<close> is
  \<open>String::from_utf8\<close>, and \<open>from_utf8_lossy\<close> replaces every maximal ill-formed subpart by
  U+FFFD.
\<close>

definition is_cont :: "u8 \<Rightarrow> bool" where
  "is_cont b \<longleftrightarrow> b AND 192 = 128"

text \<open>Reading past the end gives 0, which is no continuation byte.\<close>

definition safe_get :: "bytes \<Rightarrow> nat \<Rightarrow> u8" where
  "safe_get b i = (if i < length b then b ! i else 0)"

definition second_of_3 :: "u8 \<Rightarrow> u8 \<Rightarrow> bool" where
  "second_of_3 b c \<longleftrightarrow>
     (if b = 0xE0 then 0xA0 \<le> c \<and> c \<le> 0xBF
      else if b = 0xED then 0x80 \<le> c \<and> c \<le> 0x9F
      else 0x80 \<le> c \<and> c \<le> 0xBF)"

definition second_of_4 :: "u8 \<Rightarrow> u8 \<Rightarrow> bool" where
  "second_of_4 b c \<longleftrightarrow>
     (if b = 0xF0 then 0x90 \<le> c \<and> c \<le> 0xBF
      else if b = 0xF4 then 0x80 \<le> c \<and> c \<le> 0x8F
      else 0x80 \<le> c \<and> c \<le> 0xBF)"

definition utf8_step :: "u8 \<Rightarrow> bytes \<Rightarrow> bool \<times> nat" where
  "utf8_step b r =
     (if b < 0x80 then (True, 0)
      else if 0xC2 \<le> b \<and> b \<le> 0xDF then
        (if is_cont (safe_get r 0) then (True, 1) else (False, 0))
      else if 0xE0 \<le> b \<and> b \<le> 0xEF then
        (if \<not> second_of_3 b (safe_get r 0) then (False, 0)
         else if is_cont (safe_get r 1) then (True, 2) else (False, 1))
      else if 0xF0 \<le> b \<and> b \<le> 0xF4 then
        (if \<not> second_of_4 b (safe_get r 0) then (False, 0)
         else if \<not> is_cont (safe_get r 1) then (False, 1)
         else if is_cont (safe_get r 2) then (True, 3) else (False, 2))
      else (False, 0))"

fun utf8_valid :: "bytes \<Rightarrow> bool" where
  "utf8_valid [] = True"
| "utf8_valid (b # r) = (case utf8_step b r of (good, n) \<Rightarrow> good \<and> utf8_valid (drop n r))"

definition replacement_char :: bytes where
  "replacement_char = [0xEF, 0xBF, 0xBD]"

fun lossy_bytes :: "bytes \<Rightarrow> bytes" where
  "lossy_bytes [] = []"
| "lossy_bytes (b # r) = (case utf8_step b r of (good, n) \<Rightarrow>
     (if good then b # take n r else replacement_char) @ lossy_bytes (drop n r))"

definition from_utf8 :: "bytes \<Rightarrow> string option" where
  "from_utf8 b = (if utf8_valid b then Some (of_bytes b) else None)"

definition from_utf8_lossy :: "bytes \<Rightarrow> string" where
  "from_utf8_lossy b = of_bytes (lossy_bytes b)"

text \<open>The type invariant of a Rust \<open>String\<close>.\<close>

definition rust_string :: "string \<Rightarrow> bool" where
  "rust_string s \<longleftrightarrow> utf8_valid (as_bytes s)"

section \<open>Lemmas\<close>

lemma safe_get_nonzero: "safe_get r i \<noteq> 0 \<Longrightarrow> i < length r"
  by (simp add: safe_get_def split: if_splits)

lemma is_cont_nonzero: "is_cont c \<Longrightarrow> c \<noteq> 0"
  by (auto simp: is_cont_def)

lemma second_nonzero: "second_of_3 b c \<Longrightarrow> c \<noteq> 0" "second_of_4 b c \<Longrightarrow> c \<noteq> 0"
  by (auto simp: second_of_3_def second_of_4_def split: if_splits)

lemma utf8_step_length: "utf8_step b r = (g, n) \<Longrightarrow> n \<le> length r"
  by (auto simp: utf8_step_def Suc_le_eq numeral_2_eq_2 numeral_3_eq_3 split: if_splits
      dest!: is_cont_nonzero second_nonzero safe_get_nonzero)

lemma safe_get_append: "i < length r \<Longrightarrow> safe_get (r @ s) i = safe_get r i"
  by (simp add: safe_get_def nth_append)

text \<open>A well-formed sequence is recognised from its own bytes only.\<close>

lemma utf8_step_cong:
  assumes "utf8_step b r = (True, n)" and "\<And>i. i < n \<Longrightarrow> safe_get r' i = safe_get r i"
  shows "utf8_step b r' = (True, n)"
  using assms by (auto simp: utf8_step_def split: if_split_asm)

lemma utf8_step_append:
  assumes "utf8_step b r = (True, n)"
  shows "utf8_step b (r @ s) = (True, n)"
  using assms utf8_step_length [OF assms]
  by (auto intro!: utf8_step_cong [OF assms] safe_get_append)

lemma utf8_valid_append: "utf8_valid a \<Longrightarrow> utf8_valid (a @ b) = utf8_valid b"
proof (induction a rule: utf8_valid.induct)
  case 1
  then show ?case by simp
next
  case (2 x r)
  obtain n where s: "utf8_step x r = (True, n)" and v: "utf8_valid (drop n r)"
    using "2.prems" by (cases "utf8_step x r") auto
  have "utf8_valid (drop n r @ b) = utf8_valid b"
    using "2.IH" s v by simp
  moreover have "n \<le> length r" using s by (rule utf8_step_length)
  ultimately show ?case using utf8_step_append [OF s, of b] by simp
qed

lemma utf8_valid_ascii: "\<forall>x \<in> set b. x < 0x80 \<Longrightarrow> utf8_valid b"
  by (induction b) (auto simp: utf8_step_def)

lemma utf8_valid_replacement: "utf8_valid replacement_char"
  by (simp add: replacement_char_def utf8_step_def second_of_3_def is_cont_def safe_get_def)

lemma utf8_step_take:
  assumes "utf8_step b r = (True, n)"
  shows "utf8_step b (take n r) = (True, n)"
  using utf8_step_length [OF assms]
  by (auto intro!: utf8_step_cong [OF assms] simp: safe_get_def)

lemma utf8_valid_lossy_bytes: "utf8_valid (lossy_bytes b)"
proof (induction b rule: lossy_bytes.induct)
  case 1
  then show ?case by simp
next
  case (2 b r)
  obtain g n where s: "utf8_step b r = (g, n)" by (cases "utf8_step b r")
  have IH: "utf8_valid (lossy_bytes (drop n r))" using "2.IH" [OF s [symmetric]] .
  have n: "n \<le> length r" using s by (rule utf8_step_length)
  show ?case
  proof (cases g)
    case True
    have "utf8_valid (b # take n r)"
      using utf8_step_take [of b r n] s True by simp
    then have "utf8_valid ((b # take n r) @ lossy_bytes (drop n r))"
      using IH by (simp only: utf8_valid_append)
    then show ?thesis using s True by simp
  next
    case False
    then show ?thesis using s IH utf8_valid_replacement by (simp add: utf8_valid_append)
  qed
qed

lemma lossy_bytes_valid: "utf8_valid b \<Longrightarrow> lossy_bytes b = b"
  by (induction b rule: lossy_bytes.induct) (auto split: prod.splits)

lemma rust_string_from_utf8_lossy [hush_wf]: "rust_string (from_utf8_lossy b)"
  by (simp add: rust_string_def from_utf8_lossy_def utf8_valid_lossy_bytes)

lemma from_utf8_lossy_as_bytes [simp]: "rust_string s \<Longrightarrow> from_utf8_lossy (as_bytes s) = s"
  by (simp add: rust_string_def from_utf8_lossy_def lossy_bytes_valid)

lemma from_utf8_as_bytes [simp]: "rust_string s \<Longrightarrow> from_utf8 (as_bytes s) = Some s"
  by (simp add: rust_string_def from_utf8_def)

lemma from_utf8_Some: "from_utf8 b = Some s \<longleftrightarrow> utf8_valid b \<and> b = as_bytes s"
  by (auto simp: from_utf8_def)

lemma from_utf8_rust_string [hush_wf]: "from_utf8 b = Some s \<Longrightarrow> rust_string s"
  by (auto simp: from_utf8_Some rust_string_def)

lemma rust_string_ascii:
  assumes "\<forall>c \<in> set s. of_char c < (128 :: nat)"
  shows "rust_string s"
proof -
  have "(word_of_nat (of_char c) :: u8) < 0x80" if "c \<in> set s" for c
    using assms that of_char_nat_less [of c]
    by (simp add: word_less_nat_alt unat_of_nat)
  then show ?thesis
    by (auto simp: rust_string_def as_bytes_def intro!: utf8_valid_ascii)
qed

lemma rust_string_append: "rust_string s \<Longrightarrow> rust_string t \<Longrightarrow> rust_string (s @ t)"
  by (simp add: rust_string_def utf8_valid_append)

lemma rust_string_Nil [simp]: "rust_string []"
  by (simp add: rust_string_def)

text \<open>A decoded text is empty just when its bytes are.\<close>

lemma from_utf8_lossy_eq_Nil: "from_utf8_lossy b = [] \<longleftrightarrow> b = []"
  by (cases b) (auto simp: from_utf8_lossy_def replacement_char_def of_bytes_def split: prod.split)

end
