(* ===== verification/Hush_Tlv.thy ===== *)
theory Hush_Tlv
  imports Hush_Utf8
begin

text \<open>
  \<open>src/tlv.rs\<close>: the value type, the ordered map with its accessors, the LEB128 varint, and the
  encoder and decoder, as the code has them. Proofs about them are in \<open>Hush_Varint\<close>,
  \<open>Hush_Tlv_Encode\<close> and \<open>Hush_Tlv_Decode\<close>. The two signed types hold the bit pattern of the
  \<open>i32\<close> / \<open>i64\<close> (read with \<open>sint\<close>), which the code's casts to and from \<open>u32\<close> / \<open>u64\<close> keep; the
  two float types hold the IEEE bit pattern that \<open>to_bits\<close> / \<open>from_bits\<close> expose.
\<close>

section \<open>Types\<close>

datatype tlv_type =
    TyString | TyBytes | TyUint8 | TyUint16 | TyUint32 | TyUint64 | TyInt32 | TyInt64
  | TyFloat32 | TyFloat64 | TyBool | TyArray | TyMap | TyNull | TyTimestamp

text \<open>\<open>Type::from_u8\<close>.\<close>

definition type_from_u8 :: "u8 \<Rightarrow> tlv_type option" where
  "type_from_u8 b =
     (if b = 0x01 then Some TyString
      else if b = 0x02 then Some TyBytes
      else if b = 0x03 then Some TyUint8
      else if b = 0x04 then Some TyUint16
      else if b = 0x05 then Some TyUint32
      else if b = 0x06 then Some TyUint64
      else if b = 0x07 then Some TyInt32
      else if b = 0x08 then Some TyInt64
      else if b = 0x09 then Some TyFloat32
      else if b = 0x0A then Some TyFloat64
      else if b = 0x0B then Some TyBool
      else if b = 0x0C then Some TyArray
      else if b = 0x0D then Some TyMap
      else if b = 0x0E then Some TyNull
      else if b = 0x0F then Some TyTimestamp
      else None)"

datatype tlv_value =
    String string
  | Bytes bytes
  | Uint8 u8
  | Uint16 u16
  | Uint32 u32
  | Uint64 u64
  | Int32 u32
  | Int64 u64
  | Float32 u32
  | Float64 u64
  | Bool bool
  | Array "tlv_value list"
  | Map "(string \<times> tlv_value) list"
  | Null
  | Timestamp duration

text \<open>\<open>struct Map\<close>: its entries in insertion order.\<close>

type_synonym tlv_map = "(string \<times> tlv_value) list"

datatype varint_error = VarintTooLong | VarintUnterminated

datatype tlv_error =
    DepthExceeded nat
  | UnexpectedEnd
  | UnknownType u8
  | VarintError varint_error
  | PayloadTooLarge u64
  | PayloadExceedsBuffer
  | InvalidUtf8
  | NeedsBytes tlv_type nat
  | MapKeyNotString
  | MapEntryMissingValue string
  | ExpectedMap

section \<open>Map\<close>

definition map_new :: tlv_map where
  "map_new = []"

text \<open>
  \<open>Map::set\<close>: \<open>iter_mut().find\<close> stops at the first entry with the key and overwrites its
  value in place; without one the entry is pushed at the end.
\<close>

fun map_set :: "string \<Rightarrow> tlv_value \<Rightarrow> tlv_map \<Rightarrow> tlv_map" where
  "map_set key v [] = [(key, v)]"
| "map_set key v ((k, w) # m) = (if k = key then (k, v) # m else (k, w) # map_set key v m)"

definition map_get :: "tlv_map \<Rightarrow> string \<Rightarrow> tlv_value option" where
  "map_get m key = map_option snd (find (\<lambda>(k, _). k = key) m)"

definition get_string :: "tlv_map \<Rightarrow> string \<Rightarrow> string option" where
  "get_string m key = (case map_get m key of Some (String s) \<Rightarrow> Some s | _ \<Rightarrow> None)"

definition get_uint64 :: "tlv_map \<Rightarrow> string \<Rightarrow> u64 option" where
  "get_uint64 m key = (case map_get m key of Some (Uint64 n) \<Rightarrow> Some n | _ \<Rightarrow> None)"

definition get_bytes :: "tlv_map \<Rightarrow> string \<Rightarrow> bytes option" where
  "get_bytes m key = (case map_get m key of Some (Bytes b) \<Rightarrow> Some b | _ \<Rightarrow> None)"

definition get_map :: "tlv_map \<Rightarrow> string \<Rightarrow> tlv_map option" where
  "get_map m key = (case map_get m key of Some (Map x) \<Rightarrow> Some x | _ \<Rightarrow> None)"

definition map_len :: "tlv_map \<Rightarrow> nat" where
  "map_len m = length m"

definition map_is_empty :: "tlv_map \<Rightarrow> bool" where
  "map_is_empty m \<longleftrightarrow> m = []"

text \<open>\<open>Map::iter\<close> and \<open>IntoIterator\<close>: the entries that are still to come, in order.\<close>

definition map_iter :: "tlv_map \<Rightarrow> (string \<times> tlv_value) list" where
  "map_iter m = m"

definition map_into_iter :: "tlv_map \<Rightarrow> (string \<times> tlv_value) list" where
  "map_into_iter m = m"

definition map_default :: tlv_map where
  "map_default = map_new"

definition map_value :: "tlv_map \<Rightarrow> tlv_value" where
  "map_value m = Map m"

section \<open>Varint\<close>

function encode_varint :: "u64 \<Rightarrow> bytes \<Rightarrow> bytes" where
  "encode_varint n buf =
     (let byte = ucast (n AND 0x7F) :: u8;
          n' = drop_bit 7 n;
          byte' = (if n' \<noteq> 0 then byte OR 0x80 else byte);
          buf' = buf @ [byte']
      in if n' = 0 then buf' else encode_varint n' buf')"
  by pat_completeness auto

termination encode_varint
proof (relation "measure (\<lambda>(n, _). unat n)", goal_cases)
  case 1
  show ?case by simp
next
  case (2 n buf x xa xb xc)
  then have "drop_bit 7 n \<noteq> 0" by simp
  then have "unat (drop_bit 7 n) \<noteq> 0" by (simp only: unat_eq_zero not_False_eq_True)
  then have "unat n div 128 \<noteq> 0" by (simp add: unat_drop_bit_eq drop_bit_eq_div unat_div)
  then show ?case
    by (simp add: 2 unat_drop_bit_eq drop_bit_eq_div unat_div)
qed

declare encode_varint.simps [simp del]

text \<open>The loop of \<open>decode_varint\<close>: \<open>i\<close> counts the bytes read, \<open>shift\<close> is \<open>7 * i\<close>.\<close>

fun decode_varint_loop :: "bytes \<Rightarrow> nat \<Rightarrow> nat \<Rightarrow> u64 \<Rightarrow> varint_error + (u64 \<times> nat)" where
  "decode_varint_loop [] i shift result = Err VarintUnterminated"
| "decode_varint_loop (byte # rest) i shift result =
     (if i \<ge> 10 then Err VarintTooLong
      else
        let result' = result OR push_bit shift (ucast (byte AND 0x7F))
        in if byte AND 0x80 = 0 then Ok (result', i + 1)
           else decode_varint_loop rest (i + 1) (shift + 7) result')"

definition decode_varint :: "bytes \<Rightarrow> varint_error + (u64 \<times> nat)" where
  "decode_varint buf = decode_varint_loop buf 0 0 0"

section \<open>Encode\<close>

definition MAX_PAYLOAD_SIZE :: u64 where
  "MAX_PAYLOAD_SIZE = 524288"

definition MAX_DECODE_DEPTH :: nat where
  "MAX_DECODE_DEPTH = 64"

fun type_byte :: "tlv_value \<Rightarrow> u8" where
  "type_byte (String _) = 0x01"
| "type_byte (Bytes _) = 0x02"
| "type_byte (Uint8 _) = 0x03"
| "type_byte (Uint16 _) = 0x04"
| "type_byte (Uint32 _) = 0x05"
| "type_byte (Uint64 _) = 0x06"
| "type_byte (Int32 _) = 0x07"
| "type_byte (Int64 _) = 0x08"
| "type_byte (Float32 _) = 0x09"
| "type_byte (Float64 _) = 0x0A"
| "type_byte (Bool _) = 0x0B"
| "type_byte (Array _) = 0x0C"
| "type_byte (Map _) = 0x0D"
| "type_byte Null = 0x0E"
| "type_byte (Timestamp _) = 0x0F"

text \<open>
  \<open>encode_into\<close> and \<open>payload_bytes\<close> with the two loops over an array's items and a map's
  entries. The error type is the code's \<open>String\<close>.
\<close>

function (sequential) encode_into :: "tlv_value \<Rightarrow> bytes \<Rightarrow> string + bytes"
  and payload_bytes :: "tlv_value \<Rightarrow> string + bytes"
  and encode_items :: "tlv_value list \<Rightarrow> bytes \<Rightarrow> string + bytes"
  and encode_entries :: "tlv_map \<Rightarrow> bytes \<Rightarrow> string + bytes" where
  "encode_into v buf =
     and_then (payload_bytes v) (\<lambda>payload.
       let buf1 = buf @ [type_byte v];
           buf2 = encode_varint (word_of_nat (length payload)) buf1
       in Ok (buf2 @ payload))"
| "payload_bytes (String s) = Ok (as_bytes s)"
| "payload_bytes (Bytes b) = Ok b"
| "payload_bytes (Uint8 n) = Ok [n]"
| "payload_bytes (Uint16 n) = Ok (u16_to_be n)"
| "payload_bytes (Uint32 n) = Ok (u32_to_be n)"
| "payload_bytes (Uint64 n) = Ok (u64_to_be n)"
| "payload_bytes (Int32 n) = Ok (u32_to_be n)"
| "payload_bytes (Int64 n) = Ok (u64_to_be n)"
| "payload_bytes (Float32 f) = Ok (u32_to_be f)"
| "payload_bytes (Float64 f) = Ok (u64_to_be f)"
| "payload_bytes (Bool b) = Ok [if b then 1 else 0]"
| "payload_bytes Null = Ok []"
| "payload_bytes (Timestamp d) = Ok (u64_to_be (word_of_nat (as_millis d)))"
| "payload_bytes (Array items) = encode_items items []"
| "payload_bytes (Map m) = encode_entries m []"
| "encode_items [] buf = Ok buf"
| "encode_items (item # items) buf =
     and_then (encode_into item buf) (\<lambda>buf'. encode_items items buf')"
| "encode_entries [] buf = Ok buf"
| "encode_entries ((key, v) # m) buf =
     and_then (encode_into (String key) buf) (\<lambda>buf'.
       and_then (encode_into v buf') (\<lambda>buf''. encode_entries m buf''))"
  by pat_completeness auto

termination
  by (relation "measure (\<lambda>x. case x of
        Inl (Inl (v, _)) \<Rightarrow> 2 * size v + 1
      | Inl (Inr v) \<Rightarrow> 2 * size v
      | Inr (Inl (vs, _)) \<Rightarrow> 2 * size_list size vs
      | Inr (Inr (m, _)) \<Rightarrow> 2 * size_list (size_prod (\<lambda>_. 0) size) m)") auto

definition encode :: "tlv_value \<Rightarrow> bytes" where
  "encode v = expect (encode_into v [])"

definition encode_map :: "tlv_map \<Rightarrow> bytes" where
  "encode_map m = encode (Map m)"

section \<open>Decode\<close>

text \<open>
  The part of \<open>decode_value\<close> before the match on the type: the depth and end-of-input checks,
  the type byte, the length and the payload slice. The result is the type, the payload and the
  position after it.
\<close>

definition decode_header :: "bytes \<Rightarrow> nat \<Rightarrow> nat \<Rightarrow> tlv_error + (tlv_type \<times> bytes \<times> nat)" where
  "decode_header buf pos depth =
     (if depth > MAX_DECODE_DEPTH then Err (DepthExceeded depth)
      else if pos \<ge> length buf then Err UnexpectedEnd
      else
        let typ_byte = buf ! pos; pos1 = pos + 1
        in and_then (ok_or (UnknownType typ_byte) (type_from_u8 typ_byte)) (\<lambda>ty.
           and_then (map_err VarintError (decode_varint (drop pos1 buf))) (\<lambda>(len, adv).
             let pos2 = pos1 + adv
             in if len > MAX_PAYLOAD_SIZE then Err (PayloadTooLarge len)
                else
                  let payload_start = pos2; payload_end = payload_start + unat len
                  in if payload_end > length buf then Err PayloadExceedsBuffer
                     else Ok (ty, take (unat len) (drop payload_start buf), payload_end))))"

definition need :: "tlv_type \<Rightarrow> nat \<Rightarrow> bytes \<Rightarrow> (bytes \<Rightarrow> tlv_value) \<Rightarrow> tlv_error + tlv_value" where
  "need ty n payload f =
     (if length payload < n then Err (NeedsBytes ty n) else Ok (f (take n payload)))"

text \<open>
  The arms of the match that do not recurse. The two container types are handled by
  \<open>decode_value\<close>; their arms here are never taken.
\<close>

fun decode_scalar :: "tlv_type \<Rightarrow> bytes \<Rightarrow> tlv_error + tlv_value" where
  "decode_scalar TyString payload = map_err (\<lambda>_. InvalidUtf8)
     (and_then (ok_or () (from_utf8 payload)) (\<lambda>s. Ok (String s)))"
| "decode_scalar TyBytes payload = Ok (Bytes payload)"
| "decode_scalar TyUint8 payload = need TyUint8 1 payload (\<lambda>b. Uint8 (b ! 0))"
| "decode_scalar TyUint16 payload = need TyUint16 2 payload (\<lambda>b. Uint16 (u16_from_be b))"
| "decode_scalar TyUint32 payload = need TyUint32 4 payload (\<lambda>b. Uint32 (u32_from_be b))"
| "decode_scalar TyUint64 payload = need TyUint64 8 payload (\<lambda>b. Uint64 (u64_from_be b))"
| "decode_scalar TyInt32 payload = need TyInt32 4 payload (\<lambda>b. Int32 (u32_from_be b))"
| "decode_scalar TyInt64 payload = need TyInt64 8 payload (\<lambda>b. Int64 (u64_from_be b))"
| "decode_scalar TyFloat32 payload = need TyFloat32 4 payload (\<lambda>b. Float32 (u32_from_be b))"
| "decode_scalar TyFloat64 payload = need TyFloat64 8 payload (\<lambda>b. Float64 (u64_from_be b))"
| "decode_scalar TyBool payload = need TyBool 1 payload (\<lambda>b. Bool (b ! 0 \<noteq> 0))"
| "decode_scalar TyNull payload = Ok Null"
| "decode_scalar TyTimestamp payload =
     need TyTimestamp 8 payload (\<lambda>b. Timestamp (from_millis (u64_from_be b)))"
| "decode_scalar TyArray payload = Ok (Array [])"
| "decode_scalar TyMap payload = Ok (Map [])"

text \<open>
  \<open>decode_value\<close> with its two inner loops. The position after the value, which the code keeps in
  \<open>*pos\<close> and returns beside the value, is the second component.
\<close>

function decode_value :: "bytes \<Rightarrow> nat \<Rightarrow> nat \<Rightarrow> tlv_error + (tlv_value \<times> nat)"
  and decode_items :: "bytes \<Rightarrow> nat \<Rightarrow> nat \<Rightarrow> tlv_value list \<Rightarrow> tlv_error + tlv_value list"
  and decode_entries :: "bytes \<Rightarrow> nat \<Rightarrow> nat \<Rightarrow> tlv_map \<Rightarrow> tlv_error + tlv_map" where
  "decode_value buf pos depth =
     and_then (decode_header buf pos depth) (\<lambda>(ty, payload, pos').
       case ty of
         TyArray \<Rightarrow> and_then (decode_items payload 0 depth []) (\<lambda>items. Ok (Array items, pos'))
       | TyMap \<Rightarrow> and_then (decode_entries payload 0 depth map_new) (\<lambda>m. Ok (Map m, pos'))
       | _ \<Rightarrow> and_then (decode_scalar ty payload) (\<lambda>v. Ok (v, pos')))"
| "decode_items payload p depth items =
     (if p < length payload
      then and_then (decode_value payload p (depth + 1)) (\<lambda>(item, p').
             decode_items payload p' depth (items @ [item]))
      else Ok items)"
| "decode_entries payload p depth m =
     (if p < length payload
      then and_then (decode_value payload p (depth + 1)) (\<lambda>(key_val, p').
             case key_val of
               String key \<Rightarrow>
                 (if p' \<ge> length payload then Err (MapEntryMissingValue key)
                  else and_then (decode_value payload p' (depth + 1)) (\<lambda>(v, p'').
                         decode_entries payload p'' depth (map_set key v m)))
             | _ \<Rightarrow> Err MapKeyNotString)
      else Ok m)"
  by pat_completeness auto

text \<open>
  Termination: a payload is shorter than the buffer it is cut from, and each \<open>decode_value\<close>
  moves the position, so the two loops approach the payload's end. The second fact is about
  the function being defined; it needs only one unfolding on its domain.
\<close>

lemma decode_varint_loop_adv:
  "decode_varint_loop b i shift r = Ok (n, adv) \<Longrightarrow> i < adv \<and> adv \<le> i + length b \<and> adv \<le> 10"
  by (induction b i shift r rule: decode_varint_loop.induct)
    (auto simp: Let_def split: if_splits)

lemma decode_varint_adv: "decode_varint b = Ok (n, adv) \<Longrightarrow> 0 < adv \<and> adv \<le> length b \<and> adv \<le> 10"
  using decode_varint_loop_adv [of b 0 0 0 n adv] by (simp add: decode_varint_def)

lemma decode_header_Ok:
  assumes "decode_header buf pos depth = Ok (ty, payload, pos')"
  shows "pos + 2 + length payload \<le> pos'" "pos' \<le> length buf" "depth \<le> MAX_DECODE_DEPTH"
    "length payload \<le> unat MAX_PAYLOAD_SIZE"
  using assms
  by (auto simp: decode_header_def Let_def and_then_eq_Inr word_le_nat_alt not_less
      split: if_splits dest!: decode_varint_adv)

lemma decode_header_shorter:
  "decode_header buf pos depth = Ok (ty, payload, pos') \<Longrightarrow> length payload < length buf"
  using decode_header_Ok [of buf pos depth ty payload pos'] by simp

lemma decode_value_pos:
  assumes "decode_value_decode_items_decode_entries_dom (Inl (buf, pos, depth))"
    and "decode_value buf pos depth = Ok (v, pos')"
  shows "pos < pos'"
proof -
  obtain ty payload q where h: "decode_header buf pos depth = Ok (ty, payload, q)"
    using assms(2) unfolding decode_value.psimps [OF assms(1)] by (auto simp: and_then_eq_Inr)
  have "pos' = q"
    using assms(2) unfolding decode_value.psimps [OF assms(1)] h
    by (cases ty) (auto simp: and_then_eq_Inr simp del: decode_scalar.simps)
  then show ?thesis using decode_header_Ok(1) [OF h] by simp
qed

termination decode_value
proof (relation "measures
    [\<lambda>x. case x of Inl (buf, _, _) \<Rightarrow> length buf | Inr (Inl (b, _, _, _)) \<Rightarrow> length b
        | Inr (Inr (b, _, _, _)) \<Rightarrow> length b,
     \<lambda>x. case x of Inl (buf, p, _) \<Rightarrow> length buf - p | Inr (Inl (b, p, _, _)) \<Rightarrow> length b - p
        | Inr (Inr (b, p, _, _)) \<Rightarrow> length b - p,
     \<lambda>x. case x of Inl _ \<Rightarrow> 0 | Inr _ \<Rightarrow> 1]", goal_cases)
qed (auto dest!: decode_value_pos decode_header_shorter)

declare decode_value.simps [simp del] decode_items.simps [simp del] decode_entries.simps [simp del]

definition decode :: "bytes \<Rightarrow> tlv_error + tlv_value" where
  "decode buf = and_then (decode_value buf 0 0) (\<lambda>(v, _). Ok v)"

definition decode_map :: "bytes \<Rightarrow> tlv_error + tlv_map" where
  "decode_map buf = and_then (decode buf) (\<lambda>v. case v of Map m \<Rightarrow> Ok m | _ \<Rightarrow> Err ExpectedMap)"

definition decode_map_opt :: "bytes \<Rightarrow> tlv_map option" where
  "decode_map_opt buf = (if buf = [] then None else res_ok (decode_map buf))"

end
