(* ===== verification/Hush_Varint.thy ===== *)
theory Hush_Varint
  imports Hush_Tlv
begin

text \<open>
  The varint of \<open>src/tlv.rs\<close>: decoding inverts encoding with any bytes following, the encoding
  is the shortest one, and the decoder accepts at most ten bytes.
\<close>

abbreviation varint :: "u64 \<Rightarrow> bytes" where
  "varint n \<equiv> encode_varint n []"

abbreviation low7 :: "u64 \<Rightarrow> u8" where
  "low7 n \<equiv> ucast (n AND 0x7F)"

lemma drop7_less: "drop_bit 7 (n :: u64) \<noteq> 0 \<Longrightarrow> unat (drop_bit 7 n) < unat n"
proof -
  assume "drop_bit 7 n \<noteq> 0"
  then have "unat (drop_bit 7 n) \<noteq> 0" by (simp only: unat_eq_zero not_False_eq_True)
  then show ?thesis by (simp add: unat_drop_bit_eq drop_bit_eq_div unat_div)
qed

lemma unat_drop7: "unat (drop_bit 7 (n :: u64)) = unat n div 128"
  by (simp add: unat_drop_bit_eq drop_bit_eq_div unat_div)

lemma encode_varint_unfold:
  "encode_varint n buf = (if drop_bit 7 n = 0 then buf @ [low7 n]
     else encode_varint (drop_bit 7 n) (buf @ [low7 n OR 0x80]))"
  by (simp add: encode_varint.simps [of n buf] Let_def)

lemma varint_induct [case_names step]:
  assumes "\<And>n. (drop_bit 7 n \<noteq> 0 \<Longrightarrow> P (drop_bit 7 n)) \<Longrightarrow> P (n :: u64)"
  shows "P n"
proof (induction n rule: measure_induct_rule [where f = unat])
  case (less n)
  then show ?case using assms drop7_less by blast
qed

lemma encode_varint_append: "encode_varint n buf = buf @ varint n"
proof (induction n arbitrary: buf rule: varint_induct)
  case (step n)
  show ?case
  proof (cases "drop_bit 7 n = 0")
    case True
    then show ?thesis by (simp add: encode_varint_unfold [of n])
  next
    case False
    then show ?thesis
      using step.IH [OF False, of "buf @ [low7 n OR 0x80]"] step.IH [OF False, of "[low7 n OR 0x80]"]
      by (simp add: encode_varint_unfold [of n])
  qed
qed

lemma varint_unfold:
  "varint n = (if drop_bit 7 n = 0 then [low7 n] else (low7 n OR 0x80) # varint (drop_bit 7 n))"
  by (subst encode_varint_unfold) (simp add: encode_varint_append [of _ "[_]"])

lemma varint_nonempty [simp]: "varint n \<noteq> []"
  by (subst varint_unfold) simp

section \<open>Round trip\<close>

lemma low7_flag: "low7 n AND 0x80 = 0" "(low7 n OR 0x80) AND 0x80 \<noteq> 0"
proof -
  show "low7 n AND 0x80 = 0"
    by (rule bit_word_eqI) (auto simp: bit_simps numeral_eq_Suc less_Suc_eq)
  have "bit ((low7 n OR 0x80) AND 0x80) 7" by (simp add: bit_simps)
  then show "(low7 n OR 0x80) AND 0x80 \<noteq> 0" by (metis bit_0_eq bot_apply bot_bool_def)
qed

lemma low7_value: "ucast (low7 n AND 0x7F) = (take_bit 7 n :: u64)"
  "ucast ((low7 n OR 0x80) AND 0x7F) = (take_bit 7 n :: u64)"
  by (rule bit_word_eqI, auto simp: bit_simps numeral_eq_Suc less_Suc_eq)+

lemma push_split: "push_bit k (take_bit 7 n) OR push_bit (7 + k) (drop_bit 7 n) = push_bit k (n :: u64)"
proof (rule bit_word_eqI)
  fix j
  assume "j < LENGTH(64)"
  then show "bit (push_bit k (take_bit 7 n) OR push_bit (7 + k) (drop_bit 7 n)) j \<longleftrightarrow>
      bit (push_bit k n) j"
    by (cases "7 + k \<le> j") (auto simp: bit_simps)
qed

lemma decode_varint_loop_more:
  "i \<le> 8 \<Longrightarrow> decode_varint_loop ((low7 n OR 0x80) # rest) i (7 * i) r =
     decode_varint_loop rest (Suc i) (7 * Suc i) (r OR push_bit (7 * i) (take_bit 7 n))"
  by (simp only: decode_varint_loop.simps low7_value Let_def eq_False [THEN iffD2, OF low7_flag(2)])
    (simp add: add.commute)

text \<open>
  The loop invariant: with \<open>i\<close> bytes read, decoding the rest of an encoding adds the remaining
  value at bit \<open>7 * i\<close>. The bound says that what remains fits above it.
\<close>

lemma decode_varint_loop_encode:
  assumes "i \<le> 9" and "unat n < 2 ^ (64 - 7 * i)"
  shows "decode_varint_loop (varint n @ rest) i (7 * i) r =
    Ok (r OR push_bit (7 * i) n, i + length (varint n))"
  using assms
proof (induction n arbitrary: i r rule: varint_induct)
  case (step n)
  show ?case
  proof (cases "drop_bit 7 n = 0")
    case True
    then have "take_bit 7 n = n"
      by (metis bits_ident add.left_neutral push_bit_of_0)
    then show ?thesis
      using True step.prems by (simp add: varint_unfold [of n] low7_flag low7_value)
  next
    case False
    have i: "i \<le> 8"
    proof (rule ccontr)
      assume "\<not> i \<le> 8"
      then have "i = 9" using step.prems by simp
      then have "unat n < 2" using step.prems by simp
      then have "unat (drop_bit 7 n) = 0" unfolding unat_drop7 by simp
      then show False using False by (simp only: unat_eq_zero)
    qed
    have "64 - 7 * i = (64 - 7 * Suc i) + 7" using i by simp
    then have "(2 :: nat) ^ (64 - 7 * i) = 2 ^ (64 - 7 * Suc i) * 128"
      by (simp only: power_add) simp
    then have "unat n < 2 ^ (64 - 7 * Suc i) * 128" using step.prems(2) by simp
    then have d: "unat (drop_bit 7 n) < 2 ^ (64 - 7 * Suc i)"
      unfolding unat_drop7 by (rule less_mult_imp_div_less)
    have "Suc i \<le> 9" using i by simp
    then have IH: "decode_varint_loop (varint (drop_bit 7 n) @ rest) (Suc i) (7 * Suc i)
        (r OR push_bit (7 * i) (take_bit 7 n)) =
      Ok ((r OR push_bit (7 * i) (take_bit 7 n)) OR push_bit (7 * Suc i) (drop_bit 7 n),
        Suc i + length (varint (drop_bit 7 n)))"
      by (rule step.IH [OF False _ d])
    have v: "varint n = (low7 n OR 0x80) # varint (drop_bit 7 n)"
      using False by (subst varint_unfold) simp
    have o: "(r OR push_bit (7 * i) (take_bit 7 n)) OR push_bit (7 * Suc i) (drop_bit 7 n) =
        r OR push_bit (7 * i) n"
      using push_split [of "7 * i" n] by (simp only: or.assoc mult_Suc_right)
    show ?thesis
      by (simp only: v append_Cons decode_varint_loop_more [OF i] IH o) simp
  qed
qed

lemma decode_varint_encode [simp]:
  "decode_varint (varint n @ rest) = Ok (n, length (varint n))"
  using decode_varint_loop_encode [of 0 n rest 0] unsigned_less [of n, where ?'a = nat]
  by (simp add: decode_varint_def)

section \<open>Length\<close>

lemma length_varint_le: "unat n < 2 ^ (7 * k) \<Longrightarrow> 0 < k \<Longrightarrow> length (varint n) \<le> k"
proof (induction n arbitrary: k rule: varint_induct)
  case (step n)
  show ?case
  proof (cases "drop_bit 7 n = 0")
    case True
    then show ?thesis using step.prems by (simp add: varint_unfold [of n])
  next
    case False
    obtain m where k: "k = Suc m" using step.prems(2) by (cases k) auto
    have "unat n < 2 ^ (7 * m) * 128"
      using step.prems(1) k by (simp add: power_add mult.commute)
    then have d: "unat (drop_bit 7 n) < 2 ^ (7 * m)"
      unfolding unat_drop7 by (rule less_mult_imp_div_less)
    have "m \<noteq> 0"
    proof
      assume "m = 0"
      then have "unat (drop_bit 7 n) = 0" using d by simp
      then show False using False by (simp only: unat_eq_zero)
    qed
    then have "length (varint (drop_bit 7 n)) \<le> m" using step.IH [OF False d] by simp
    then show ?thesis using False k by (simp add: varint_unfold [of n])
  qed
qed

lemma length_varint_bounds [hush_len]: "0 < length (varint n)" "length (varint n) \<le> 10"
proof -
  have "unat n < 2 ^ 64" using unsigned_less [of n, where ?'a = nat] by simp
  also have "\<dots> \<le> 2 ^ (7 * 10 :: nat)" by (rule power_increasing) auto
  finally show "length (varint n) \<le> 10" by (rule length_varint_le) simp
qed simp

lemma unat_less_of_bits:
  assumes "\<And>j. k \<le> j \<Longrightarrow> \<not> bit (n :: 'a::len word) j"
  shows "unat n < 2 ^ k"
proof -
  have "n = take_bit k n"
    by (rule bit_word_eqI) (use assms in \<open>auto simp: bit_simps not_less [symmetric]\<close>)
  then have "unat n = take_bit k (unat n)" by (metis unsigned_take_bit_eq)
  then show ?thesis by (metis take_bit_nat_less_exp)
qed

lemma decode_varint_loop_bits:
  assumes "decode_varint_loop b i (7 * i) r = Ok (n, adv)"
    and "\<And>j. 7 * i \<le> j \<Longrightarrow> \<not> bit r j"
  shows "7 * adv \<le> j \<Longrightarrow> \<not> bit n j"
  using assms
proof (induction b arbitrary: i r)
  case Nil
  then show ?case by simp
next
  case (Cons x b)
  define r' where "r' = r OR push_bit (7 * i) (ucast (x AND 0x7F))"
  have r': "\<not> bit r' j" if "7 * Suc i \<le> j" for j
  proof -
    have "\<not> bit (0x7F :: u8) (j - 7 * i)"
      using that by (auto simp: bit_simps numeral_eq_Suc less_Suc_eq)
    then show ?thesis
      using that Cons.prems(3) [of j] by (auto simp: r'_def bit_simps)
  qed
  show ?case
  proof (cases "x AND 0x80 = 0")
    case True
    then show ?thesis
      using Cons.prems r' [of j] by (auto simp: Let_def r'_def split: if_splits)
  next
    case False
    then have "decode_varint_loop b (Suc i) (7 * Suc i) r' = Ok (n, adv)"
      using Cons.prems(2) by (auto simp: Let_def r'_def add.commute split: if_splits)
    then show ?thesis using Cons.IH [OF Cons.prems(1) _ r'] by blast
  qed
qed

lemma decode_varint_bound: "decode_varint b = Ok (n, adv) \<Longrightarrow> unat n < 2 ^ (7 * adv)"
  using decode_varint_loop_bits [of b 0 0 n adv]
  by (intro unat_less_of_bits) (simp add: decode_varint_def)

text \<open>
  The encoder's output is never longer than any byte string decoding to the same value, or to
  a larger one.
\<close>

lemma decode_varint_minimal:
  assumes "decode_varint b = Ok (n, adv)" and "unat m \<le> unat n"
  shows "length (varint m) \<le> adv"
  using decode_varint_bound [OF assms(1)] decode_varint_adv [OF assms(1)] assms(2)
  by (intro length_varint_le) auto

end
