(* ===== verification/Hush_Tlv_Encode.thy ===== *)
theory Hush_Tlv_Encode
  imports Hush_Varint
begin

text \<open>
  The wire format of a value as a specification (type byte, varint length, payload; the
  payload of a container is the concatenation of its parts), the invariants of the value type,
  and the proof that the buffer-passing encoder of \<open>src/tlv.rs\<close> produces that format and never
  fails.
\<close>

section \<open>The wire format\<close>

definition tlv_wrap :: "u8 \<Rightarrow> bytes \<Rightarrow> bytes" where
  "tlv_wrap t b = t # varint (word_of_nat (length b)) @ b"

fun tlv_body :: "tlv_value \<Rightarrow> bytes" where
  "tlv_body (String s) = as_bytes s"
| "tlv_body (Bytes b) = b"
| "tlv_body (Uint8 n) = [n]"
| "tlv_body (Uint16 n) = u16_to_be n"
| "tlv_body (Uint32 n) = u32_to_be n"
| "tlv_body (Uint64 n) = u64_to_be n"
| "tlv_body (Int32 n) = u32_to_be n"
| "tlv_body (Int64 n) = u64_to_be n"
| "tlv_body (Float32 f) = u32_to_be f"
| "tlv_body (Float64 f) = u64_to_be f"
| "tlv_body (Bool b) = [if b then 1 else 0]"
| "tlv_body (Array vs) = concat (map (\<lambda>v. tlv_wrap (type_byte v) (tlv_body v)) vs)"
| "tlv_body (Map m) = concat (map (\<lambda>(k, v). tlv_wrap 1 (as_bytes k) @ tlv_wrap (type_byte v) (tlv_body v)) m)"
| "tlv_body Null = []"
| "tlv_body (Timestamp d) = u64_to_be (word_of_nat (as_millis d))"

definition tlv :: "tlv_value \<Rightarrow> bytes" where
  "tlv v = tlv_wrap (type_byte v) (tlv_body v)"

lemma body_Array: "tlv_body (Array vs) = concat (map tlv vs)"
  by (simp add: tlv_def [abs_def])

lemma body_Map: "tlv_body (Map m) = concat (map (\<lambda>(k, v). tlv (String k) @ tlv v) m)"
  by (simp add: tlv_def)

declare tlv_body.simps(12,13) [simp del]

lemma body_Array_simps [simp]:
  "tlv_body (Array []) = []"
  "tlv_body (Array (v # vs)) = tlv v @ tlv_body (Array vs)"
  by (simp_all add: body_Array)

lemma body_Map_simps [simp]:
  "tlv_body (Map []) = []"
  "tlv_body (Map ((k, v) # m)) = tlv (String k) @ tlv v @ tlv_body (Map m)"
  by (simp_all add: body_Map)

lemma body_append:
  "tlv_body (Array (vs @ ws)) = tlv_body (Array vs) @ tlv_body (Array ws)"
  "tlv_body (Map (m @ n)) = tlv_body (Map m) @ tlv_body (Map n)"
  by (simp_all add: body_Array body_Map)

lemma length_wrap [hush_len]: "length (tlv_wrap t b) = 1 + length (varint (word_of_nat (length b))) + length b"
  by (simp add: tlv_wrap_def)

lemma length_tlv [hush_len]: "length (tlv_body v) + 2 \<le> length (tlv v)"
  by (simp add: tlv_def tlv_wrap_def Suc_le_eq)

lemma length_tlv_le [hush_len]: "length (tlv v) \<le> length (tlv_body v) + 11"
  using length_varint_bounds(2) [of "word_of_nat (length (tlv_body v))"]
  by (simp add: tlv_def tlv_wrap_def)

section \<open>The encoder implements it\<close>

lemma encode_refines:
  "encode_into v buf = Ok (buf @ tlv v)"
  "payload_bytes v = Ok (tlv_body v)"
  "encode_items vs buf = Ok (buf @ tlv_body (Array vs))"
  "encode_entries m buf = Ok (buf @ tlv_body (Map m))"
proof (induction v buf and v and vs buf and m buf
    rule: encode_into_payload_bytes_encode_items_encode_entries.induct)
  case (1 v buf)
  then show ?case by (simp add: tlv_def tlv_wrap_def encode_varint_append [of _ "buf @ _"])
qed (simp_all del: encode_into.simps)

text \<open>So the \<open>expect\<close> in \<open>encode\<close> never panics.\<close>

lemma encode_eq: "encode v = tlv v"
  by (simp add: encode_def encode_refines del: encode_into.simps)

lemma encode_map_eq: "encode_map m = tlv (Map m)"
  by (simp add: encode_map_def encode_eq)

section \<open>Invariants of values\<close>

text \<open>
  \<open>wf_value\<close>: what Rust's types and the \<open>Map\<close> interface guarantee (strings are UTF-8, map keys
  are distinct, durations fit). \<open>vdepth\<close> counts the nesting the decoder's depth counter sees: the
  elements of a container, a map's keys included, are one level below it. \<open>quantise\<close> is what
  the wire keeps of a value: timestamps are sent as whole milliseconds in 64 bits.
\<close>

fun wf_value :: "tlv_value \<Rightarrow> bool" where
  "wf_value (String s) \<longleftrightarrow> rust_string s"
| "wf_value (Timestamp d) \<longleftrightarrow> duration_bound d"
| "wf_value (Array vs) \<longleftrightarrow> (\<forall>v \<in> set vs. wf_value v)"
| "wf_value (Map m) \<longleftrightarrow> distinct (map fst m) \<and> (\<forall>(k, v) \<in> set m. rust_string k \<and> wf_value v)"
| "wf_value _ \<longleftrightarrow> True"

definition wf_map :: "tlv_map \<Rightarrow> bool" where
  "wf_map m \<longleftrightarrow> wf_value (Map m)"

fun vdepth :: "tlv_value \<Rightarrow> nat" where
  "vdepth (Array vs) = foldr (\<lambda>v n. max (Suc (vdepth v)) n) vs 0"
| "vdepth (Map m) = foldr (\<lambda>(k, v) n. max (Suc (vdepth v)) n) m 0"
| "vdepth _ = 0"

fun quantise :: "tlv_value \<Rightarrow> tlv_value" where
  "quantise (Timestamp d) = Timestamp (from_millis (word_of_nat (as_millis d)))"
| "quantise (Array vs) = Array (map quantise vs)"
| "quantise (Map m) = Map (map (\<lambda>(k, v). (k, quantise v)) m)"
| "quantise v = v"

text \<open>A value all of whose timestamps are whole milliseconds that fit in 64 bits.\<close>

fun ms_exact :: "tlv_value \<Rightarrow> bool" where
  "ms_exact (Timestamp d) \<longleftrightarrow> d mod 1000000 = 0 \<and> as_millis d < 2 ^ 64"
| "ms_exact (Array vs) \<longleftrightarrow> (\<forall>v \<in> set vs. ms_exact v)"
| "ms_exact (Map m) \<longleftrightarrow> (\<forall>(k, v) \<in> set m. ms_exact v)"
| "ms_exact _ \<longleftrightarrow> True"

lemma as_millis_from_millis: "as_millis (from_millis n) = unat n"
  by (simp add: as_millis_def from_millis_def)

lemma from_millis_as_millis:
  "d mod 1000000 = 0 \<Longrightarrow> as_millis d < 2 ^ 64 \<Longrightarrow> from_millis (word_of_nat (as_millis d)) = d"
proof -
  assume d: "d mod 1000000 = 0" and b: "as_millis d < 2 ^ 64"
  have "unat (word_of_nat (as_millis d) :: u64) = as_millis d"
    using b by (simp only: unat_of_nat) simp
  then show ?thesis
    using d by (simp only: from_millis_def) (simp add: as_millis_def minus_mod_eq_div_mult [symmetric])
qed

lemma from_millis_bound [hush_wf]: "duration_bound (from_millis n)"
  using unsigned_less [of n, where ?'a = nat] by (simp add: duration_bound_def from_millis_def)

lemma quantise_exact: "ms_exact v \<Longrightarrow> quantise v = v"
  by (induction v rule: quantise.induct)
    (auto simp: from_millis_as_millis map_idI split: prod.splits intro!: map_idI)

lemma ms_exact_quantise: "ms_exact (quantise v)"
  by (induction v rule: quantise.induct)
    (use unsigned_less [where ?'a = nat and ?'b = 64] in
      \<open>auto simp: as_millis_from_millis, auto simp: from_millis_def\<close>)

lemma vdepth_Array_le [simp]:
  "n + vdepth (Array vs) \<le> k \<longleftrightarrow> n \<le> k \<and> (\<forall>v \<in> set vs. Suc n + vdepth v \<le> k)"
  by (induction vs) (auto simp: nat_add_max_right)

lemma vdepth_Map_le [simp]:
  "n + vdepth (Map m) \<le> k \<longleftrightarrow> n \<le> k \<and> (\<forall>(key, v) \<in> set m. Suc n + vdepth v \<le> k)"
  by (induction m) (auto simp: nat_add_max_right)

declare vdepth.simps(1,2) [simp del]

lemma type_byte_quantise [simp]: "type_byte (quantise v) = type_byte v"
  by (cases v) auto

lemma body_quantise [simp]: "tlv_body (quantise v) = tlv_body v"
  by (induction v rule: quantise.induct)
    (auto simp: as_millis_from_millis body_Array body_Map tlv_def
      intro!: arg_cong [where f = concat])

section \<open>Map operations\<close>

lemma map_get_eq: "map_get m k = map_of m k"
  by (induction m) (auto simp: map_get_def)

lemma map_set_fst: "map fst (map_set k v m) = (if k \<in> fst ` set m then map fst m else map fst m @ [k])"
  by (induction m) (auto simp: rev_image_eqI)

lemma map_set_fresh: "k \<notin> fst ` set m \<Longrightarrow> map_set k v m = m @ [(k, v)]"
  by (induction m) auto

lemma map_get_set: "map_get (map_set k v m) = (map_get m)(k \<mapsto> v)"
proof
  fix k'
  show "map_get (map_set k v m) k' = ((map_get m)(k \<mapsto> v)) k'"
    by (induction m) (auto simp: map_get_eq)
qed

lemma map_set_distinct: "distinct (map fst m) \<Longrightarrow> distinct (map fst (map_set k v m))"
  by (auto simp: map_set_fst)

lemma set_map_set: "set (map_set k v m) \<subseteq> insert (k, v) (set m)"
  by (induction m) (auto split: if_splits)

lemma wf_map_set [hush_wf]:
  "wf_map m \<Longrightarrow> rust_string k \<Longrightarrow> wf_value v \<Longrightarrow> wf_map (map_set k v m)"
  using set_map_set [of k v m] by (auto simp: wf_map_def map_set_distinct)

lemma wf_map_new [hush_wf, simp]: "wf_map map_new"
  by (simp add: wf_map_def map_new_def)

text \<open>The TLV map is a keyed store; distinctness of the keys is its invariant.\<close>

interpretation tlvm: kv_store map_get map_new "\<lambda>m. distinct (map fst m)" map_set
  by unfold_locales
    (simp_all add: map_get_set map_set_distinct, simp_all add: map_get_def map_new_def)

lemma length_map_set: "length (tlv_body (Map (map_set k v m))) \<le>
    length (tlv_body (Map m)) + length (tlv (String k)) + length (tlv v)"
  by (induction m) auto

end
