(* ===== verification/Hush_Tlv_Decode.thy ===== *)
theory Hush_Tlv_Decode
  imports Hush_Tlv_Encode
begin

text \<open>
  What the decoder of \<open>src/tlv.rs\<close> does on the encoder's output and on arbitrary bytes: exactly
  which encodings it accepts, what it gives back, that everything it accepts is a well-formed
  value within the depth limit, and that re-encoding never grows.
\<close>

lemmas decode_unfolds = decode_value.simps decode_items.simps decode_entries.simps

section \<open>Decoding an encoding\<close>

text \<open>\<open>fits d v\<close>: the limits the decoder enforces on \<open>v\<close> when it meets it at depth \<open>d\<close>.\<close>

definition fits :: "nat \<Rightarrow> tlv_value \<Rightarrow> bool" where
  "fits d v \<longleftrightarrow> d + vdepth v \<le> MAX_DECODE_DEPTH \<and> length (tlv_body v) \<le> unat MAX_PAYLOAD_SIZE"

lemma unat_MAX [simp]: "unat MAX_PAYLOAD_SIZE = 524288"
  by (simp add: MAX_PAYLOAD_SIZE_def)

fun type_of_value :: "tlv_value \<Rightarrow> tlv_type" where
  "type_of_value (String _) = TyString"
| "type_of_value (Bytes _) = TyBytes"
| "type_of_value (Uint8 _) = TyUint8"
| "type_of_value (Uint16 _) = TyUint16"
| "type_of_value (Uint32 _) = TyUint32"
| "type_of_value (Uint64 _) = TyUint64"
| "type_of_value (Int32 _) = TyInt32"
| "type_of_value (Int64 _) = TyInt64"
| "type_of_value (Float32 _) = TyFloat32"
| "type_of_value (Float64 _) = TyFloat64"
| "type_of_value (Bool _) = TyBool"
| "type_of_value (Array _) = TyArray"
| "type_of_value (Map _) = TyMap"
| "type_of_value Null = TyNull"
| "type_of_value (Timestamp _) = TyTimestamp"

lemma type_byte_decodes [simp]: "type_from_u8 (type_byte v) = Some (type_of_value v)"
  by (cases v) (simp_all add: type_from_u8_def)

text \<open>The header of an encoding, for a payload shorter than \<open>2^64\<close> bytes.\<close>

lemma decode_header_tlv:
  assumes "length (tlv_body v) < 2 ^ 64"
  shows "decode_header (pre @ tlv v @ suf) (length pre) d =
    (if d > MAX_DECODE_DEPTH then Err (DepthExceeded d)
     else if length (tlv_body v) > 524288 then Err (PayloadTooLarge (word_of_nat (length (tlv_body v))))
     else Ok (type_of_value v, tlv_body v, length pre + length (tlv v)))"
proof -
  have u: "unat (word_of_nat (length (tlv_body v)) :: u64) = length (tlv_body v)"
    using assms by (simp only: unat_of_nat) simp
  have d: "drop (length pre + 1) (pre @ tlv v @ suf) =
      varint (word_of_nat (length (tlv_body v))) @ tlv_body v @ suf"
    by (simp add: tlv_def tlv_wrap_def)
  have "word_of_nat (length (tlv_body v)) > MAX_PAYLOAD_SIZE \<longleftrightarrow> length (tlv_body v) > 524288"
    by (simp add: word_less_nat_alt u)
  then show ?thesis
    using d by (simp add: decode_header_def Let_def nth_append u)
      (simp add: tlv_def tlv_wrap_def u)
qed

lemma decode_scalar_body:
  "wf_value v \<Longrightarrow> type_of_value v \<notin> {TyArray, TyMap} \<Longrightarrow>
     decode_scalar (type_of_value v) (tlv_body v) = Ok (quantise v)"
  by (cases v) (auto simp: need_def rust_string_def from_utf8_def)

lemma decode_value_tlv:
  assumes "length (tlv_body v) < 2 ^ 64"
  shows "decode_value (pre @ tlv v @ suf) (length pre) d =
    (if d > MAX_DECODE_DEPTH then Err (DepthExceeded d)
     else if length (tlv_body v) > 524288 then Err (PayloadTooLarge (word_of_nat (length (tlv_body v))))
     else and_then (case v of
         Array _ \<Rightarrow> and_then (decode_items (tlv_body v) 0 d []) (\<lambda>items. Ok (Array items))
       | Map _ \<Rightarrow> and_then (decode_entries (tlv_body v) 0 d map_new) (\<lambda>m. Ok (Map m))
       | _ \<Rightarrow> decode_scalar (type_of_value v) (tlv_body v))
       (\<lambda>w. Ok (w, length pre + length (tlv v))))"
  unfolding decode_value.simps [of _ "length pre"] decode_header_tlv [OF assms]
  by (cases v) (auto simp: and_then_def split: sum.split simp del: decode_scalar.simps)

text \<open>
  \<open>decodes d v\<close>: met at depth \<open>d\<close> in any surroundings, the encoding of \<open>v\<close> decodes to what the
  wire keeps of it when it is within the limits, and is rejected when it is not.
\<close>

definition decodes :: "nat \<Rightarrow> tlv_value \<Rightarrow> bool" where
  "decodes d v \<longleftrightarrow> (\<forall>pre suf.
     (fits d v \<longrightarrow> decode_value (pre @ tlv v @ suf) (length pre) d =
        Ok (quantise v, length pre + length (tlv v))) \<and>
     (\<not> fits d v \<longrightarrow> \<not> is_ok (decode_value (pre @ tlv v @ suf) (length pre) d)))"

lemma decodesD:
  assumes "decodes d v"
  shows "fits d v \<Longrightarrow> decode_value (pre @ tlv v @ suf) (length pre) d =
      Ok (quantise v, length pre + length (tlv v))"
    and "\<not> fits d v \<Longrightarrow> \<exists>e. decode_value (pre @ tlv v @ suf) (length pre) d = Err e"
  using assms by (simp_all add: decodes_def not_is_ok_iff)

lemma decodes_scalar:
  assumes "wf_value v" "length (tlv_body v) < 2 ^ 64" "type_of_value v \<notin> {TyArray, TyMap}"
  shows "decodes d v"
proof -
  have s: "decode_scalar (type_of_value v) (tlv_body v) = Ok (quantise v)"
    using assms(1,3) by (rule decode_scalar_body)
  have 0: "vdepth v = 0" using assms(3) by (cases v) auto
  have c: "(case v of Array _ \<Rightarrow> A | Map _ \<Rightarrow> B | _ \<Rightarrow> C) = C" for A B C :: "tlv_error + tlv_value"
    using assms(3) by (cases v) auto
  show ?thesis
    unfolding decodes_def decode_value_tlv [OF assms(2)] fits_def c s 0 by auto
qed

lemma tlv_nonempty [simp]: "tlv v \<noteq> []" "0 < length (tlv v)"
  by (simp_all add: tlv_def tlv_wrap_def)

lemma decode_items_body:
  assumes "\<And>v. v \<in> set vs \<Longrightarrow> decodes (Suc d) v"
  shows "if \<forall>v \<in> set vs. fits (Suc d) v
    then decode_items (pre @ tlv_body (Array vs)) (length pre) d acc = Ok (acc @ map quantise vs)
    else \<not> is_ok (decode_items (pre @ tlv_body (Array vs)) (length pre) d acc)"
  using assms
proof (induction vs arbitrary: pre acc)
  case Nil
  then show ?case by (simp add: decode_items.simps)
next
  case (Cons v vs)
  note step = decode_items.simps [of "pre @ tlv_body (Array (v # vs))" "length pre" d acc]
  have dv: "decodes (Suc d) v" using Cons.prems by simp
  show ?case
  proof (cases "fits (Suc d) v")
    case True
    have "decode_items (pre @ tlv_body (Array (v # vs))) (length pre) d acc =
        decode_items ((pre @ tlv v) @ tlv_body (Array vs)) (length (pre @ tlv v)) d (acc @ [quantise v])"
      using step decodesD(1) [OF dv True, of pre "tlv_body (Array vs)"] by simp
    then show ?thesis
      using Cons.IH [of "pre @ tlv v" "acc @ [quantise v]"] Cons.prems True
      by (auto split: if_splits)
  next
    case False
    then obtain e where "decode_value (pre @ tlv v @ tlv_body (Array vs)) (length pre) (Suc d) = Err e"
      using decodesD(2) [OF dv] by blast
    then show ?thesis using step False by simp
  qed
qed

text \<open>The same for a map; its keys are fresh, so \<open>map_set\<close> appends each entry.\<close>

abbreviation entry_fits :: "nat \<Rightarrow> string \<times> tlv_value \<Rightarrow> bool" where
  "entry_fits d e \<equiv> fits d (String (fst e)) \<and> fits d (snd e)"

lemma decode_entries_body:
  assumes "\<And>k v. (k, v) \<in> set m \<Longrightarrow> decodes (Suc d) (String k) \<and> decodes (Suc d) v"
    and "distinct (map fst (acc @ m))"
  shows "if \<forall>e \<in> set m. entry_fits (Suc d) e
    then decode_entries (pre @ tlv_body (Map m)) (length pre) d acc =
      Ok (acc @ map (\<lambda>(k, v). (k, quantise v)) m)
    else \<not> is_ok (decode_entries (pre @ tlv_body (Map m)) (length pre) d acc)"
  using assms
proof (induction m arbitrary: pre acc)
  case Nil
  then show ?case by (simp add: decode_entries.simps)
next
  case (Cons e m)
  obtain k v where e: "e = (k, v)" by (cases e)
  note step = decode_entries.simps [of "pre @ tlv_body (Map (e # m))" "length pre" d acc]
  have dk: "decodes (Suc d) (String k)" and dv: "decodes (Suc d) v"
    using Cons.prems(1) e by auto
  show ?case
  proof (cases "fits (Suc d) (String k)")
    case False
    then obtain x where "decode_value (pre @ tlv (String k) @ tlv v @ tlv_body (Map m)) (length pre) (Suc d) = Err x"
      using decodesD(2) [OF dk] by blast
    then show ?thesis using step False e by simp
  next
    case k: True
    note key = decodesD(1) [OF dk k, of pre "tlv v @ tlv_body (Map m)"]
    show ?thesis
    proof (cases "fits (Suc d) v")
      case False
      then obtain x where "decode_value ((pre @ tlv (String k)) @ tlv v @ tlv_body (Map m))
          (length (pre @ tlv (String k))) (Suc d) = Err x"
        using decodesD(2) [OF dv] by blast
      then show ?thesis using step key k False e by simp
    next
      case True
      have fresh: "k \<notin> fst ` set acc" using Cons.prems(2) e by auto
      have "decode_entries (pre @ tlv_body (Map (e # m))) (length pre) d acc =
          decode_entries ((pre @ tlv (String k) @ tlv v) @ tlv_body (Map m))
            (length (pre @ tlv (String k) @ tlv v)) d (acc @ [(k, quantise v)])"
        using step key decodesD(1) [OF dv True, of "pre @ tlv (String k)" "tlv_body (Map m)"] e
        by (simp add: map_set_fresh [OF fresh] add.assoc)
      moreover have "if \<forall>e \<in> set m. entry_fits (Suc d) e
          then decode_entries ((pre @ tlv (String k) @ tlv v) @ tlv_body (Map m))
              (length (pre @ tlv (String k) @ tlv v)) d (acc @ [(k, quantise v)]) =
            Ok ((acc @ [(k, quantise v)]) @ map (\<lambda>(k, v). (k, quantise v)) m)
          else \<not> is_ok (decode_entries ((pre @ tlv (String k) @ tlv v) @ tlv_body (Map m))
              (length (pre @ tlv (String k) @ tlv v)) d (acc @ [(k, quantise v)]))"
        using Cons.prems e by (intro Cons.IH) auto
      ultimately show ?thesis using k True e by (auto split: if_splits)
    qed
  qed
qed

lemma length_body_elem: "v \<in> set vs \<Longrightarrow> length (tlv_body v) \<le> length (tlv_body (Array vs))"
  by (induction vs) (auto intro: order_trans [OF add_leD1 [OF length_tlv] le_add1] simp: trans_le_add2)

lemma length_body_entry:
  "(k, v) \<in> set m \<Longrightarrow> length k \<le> length (tlv_body (Map m)) \<and> length (tlv_body v) \<le> length (tlv_body (Map m))"
proof (induction m)
  case (Cons e m)
  then show ?case using length_tlv [of "String k"] length_tlv [of v] by (cases e) auto
qed simp

lemma fits_container:
  assumes "d \<le> MAX_DECODE_DEPTH"
  shows "length (tlv_body (Array vs)) \<le> 524288 \<Longrightarrow> fits d (Array vs) \<longleftrightarrow> (\<forall>v \<in> set vs. fits (Suc d) v)"
    and "length (tlv_body (Map m)) \<le> 524288 \<Longrightarrow> fits d (Map m) \<longleftrightarrow> (\<forall>e \<in> set m. entry_fits (Suc d) e)"
proof -
  show "length (tlv_body (Array vs)) \<le> 524288 \<Longrightarrow> fits d (Array vs) \<longleftrightarrow> (\<forall>v \<in> set vs. fits (Suc d) v)"
    using assms by (auto simp: fits_def dest: length_body_elem)
  show "length (tlv_body (Map m)) \<le> 524288 \<Longrightarrow> fits d (Map m) \<longleftrightarrow> (\<forall>e \<in> set m. entry_fits (Suc d) e)"
    using assms by (fastforce simp: fits_def dest: length_body_entry)
qed

text \<open>A container decodes as its loop does, once the header has been accepted.\<close>

lemma decodes_container:
  assumes v: "v = Array vs \<and> loop = and_then (decode_items (tlv_body v) 0 d []) (\<lambda>items. Ok (Array items))
      \<or> v = Map m \<and> loop = and_then (decode_entries (tlv_body v) 0 d map_new) (\<lambda>m. Ok (Map m))"
    and len: "length (tlv_body v) < 2 ^ 64"
    and ok: "d \<le> MAX_DECODE_DEPTH \<Longrightarrow> length (tlv_body v) \<le> 524288 \<Longrightarrow>
      (if fits d v then loop = Ok (quantise v) else \<not> is_ok loop)"
  shows "decodes d v"
proof (cases "d \<le> MAX_DECODE_DEPTH \<and> length (tlv_body v) \<le> 524288")
  case True
  then have ok': "if fits d v then loop = Ok (quantise v) else \<not> is_ok loop" by (simp add: ok)
  have "decode_value (pre @ tlv v @ suf) (length pre) d =
      and_then loop (\<lambda>w. Ok (w, length pre + length (tlv v)))" for pre suf
    unfolding decode_value_tlv [OF len] using True v by auto
  then show ?thesis
    using ok' by (auto simp: decodes_def not_is_ok_iff split: if_splits)
next
  case False
  then show ?thesis unfolding decodes_def decode_value_tlv [OF len] by (auto simp: fits_def)
qed

lemma wf_decodes: "wf_value v \<Longrightarrow> length (tlv_body v) < 2 ^ 64 \<Longrightarrow> decodes d v"
proof (induction v arbitrary: d)
  case (Array vs)
  have ih: "decodes (Suc d) v" if "v \<in> set vs" for v
    using Array that length_body_elem [OF that] by (intro Array.IH) auto
  have items: "if \<forall>v \<in> set vs. fits (Suc d) v
      then decode_items (tlv_body (Array vs)) 0 d [] = Ok (map quantise vs)
      else \<not> is_ok (decode_items (tlv_body (Array vs)) 0 d [])"
    using decode_items_body [OF ih, of vs "[]" "[]"] by (auto split: if_splits)
  show ?case
  proof (rule decodes_container [OF _ Array.prems(2)])
    assume l: "d \<le> MAX_DECODE_DEPTH" "length (tlv_body (Array vs)) \<le> 524288"
    show "if fits d (Array vs)
        then and_then (decode_items (tlv_body (Array vs)) 0 d []) (\<lambda>items. Ok (Array items)) = Ok (quantise (Array vs))
        else \<not> is_ok (and_then (decode_items (tlv_body (Array vs)) 0 d []) (\<lambda>items. Ok (Array items)))"
      unfolding fits_container(1) [OF l] using items by (auto simp: not_is_ok_iff split: if_splits)
  qed simp
next
  case (Map m)
  have ih: "decodes (Suc d) (String k) \<and> decodes (Suc d) v" if "(k, v) \<in> set m" for k v
  proof
    have b: "length k < 2 ^ 64" "length (tlv_body v) < 2 ^ 64"
      using length_body_entry [OF that] Map.prems(2) by auto
    show "decodes (Suc d) (String k)" using Map.prems(1) that b(1) by (intro decodes_scalar) auto
    show "decodes (Suc d) v" using Map.prems(1) that b(2) by (intro Map.IH) auto
  qed
  have entries: "if \<forall>e \<in> set m. entry_fits (Suc d) e
      then decode_entries (tlv_body (Map m)) 0 d map_new = Ok (map (\<lambda>(k, v). (k, quantise v)) m)
      else \<not> is_ok (decode_entries (tlv_body (Map m)) 0 d map_new)"
    using decode_entries_body [OF ih, of m "[]" "[]"] Map.prems(1)
    by (auto simp: map_new_def split: if_splits)
  show ?case
  proof (rule decodes_container [OF _ Map.prems(2)])
    assume l: "d \<le> MAX_DECODE_DEPTH" "length (tlv_body (Map m)) \<le> 524288"
    show "if fits d (Map m)
        then and_then (decode_entries (tlv_body (Map m)) 0 d map_new) (\<lambda>m. Ok (Map m)) = Ok (quantise (Map m))
        else \<not> is_ok (and_then (decode_entries (tlv_body (Map m)) 0 d map_new) (\<lambda>m. Ok (Map m)))"
      unfolding fits_container(2) [OF l] using entries by (auto simp: not_is_ok_iff split: if_splits)
  qed simp
qed (auto intro: decodes_scalar)

lemma decode_encode_fits:
  assumes "wf_value v" "ms_exact v" "fits 0 v"
  shows "decode (encode v @ rest) = Ok v"
proof -
  have "decodes 0 v" using assms by (intro wf_decodes) (auto simp: fits_def)
  then show ?thesis
    using decodesD(1) [of 0 v "[]" rest] assms
    by (simp add: decode_def encode_eq quantise_exact)
qed

section \<open>Decoding arbitrary bytes\<close>

lemma decode_header_wrap:
  assumes "decode_header buf pos d = Ok (ty, payload, pos')" and "length b \<le> length payload"
  shows "pos + length (tlv_wrap t b) \<le> pos'"
proof -
  obtain len adv where v: "decode_varint (drop (pos + 1) buf) = Ok (len, adv)"
    and p: "pos' = pos + 1 + adv + unat len" "length payload \<le> unat len" "unat len \<le> 524288"
    using assms(1)
    by (auto simp: decode_header_def Let_def and_then_eq_Inr word_le_nat_alt not_less split: if_splits)
  have "length b < 2 ^ 64" using assms(2) p by simp
  then have "unat (word_of_nat (length b) :: u64) = length b" by (simp only: unat_of_nat) simp
  then have "length (varint (word_of_nat (length b))) \<le> adv"
    using decode_varint_minimal [OF v] assms(2) p by simp
  then show ?thesis using assms(2) p by (simp add: length_wrap)
qed

text \<open>What is known of every value the decoder returns at depth \<open>d\<close>.\<close>

definition decoded :: "nat \<Rightarrow> tlv_value \<Rightarrow> bool" where
  "decoded d v \<longleftrightarrow> wf_value v \<and> ms_exact v \<and> fits d v"

lemma from_millis_mod: "from_millis n mod 1000000 = 0"
  by (simp add: from_millis_def)

lemma decode_scalar_sound:
  assumes "decode_scalar ty payload = Ok v" and "ty \<notin> {TyArray, TyMap}"
  shows "wf_value v \<and> ms_exact v \<and> vdepth v = 0 \<and> length (tlv_body v) \<le> length payload"
proof -
  have "unat (n :: u64) < 2 ^ 64" for n using unsigned_less [of n, where ?'a = nat] by simp
  then show ?thesis
    using assms
    by (cases ty)
      (auto simp: need_def and_then_eq_Inr from_utf8_Some rust_string_def from_millis_bound
        as_millis_from_millis from_millis_mod Suc_le_eq split: if_splits)
qed

text \<open>How \<open>decode_value\<close> can have succeeded.\<close>

lemma decode_value_OkE:
  assumes "decode_value buf pos d = Ok (v, pos')"
  obtains ty payload where "decode_header buf pos d = Ok (ty, payload, pos')"
    and "(\<exists>items. ty = TyArray \<and> decode_items payload 0 d [] = Ok items \<and> v = Array items) \<or>
      (\<exists>n. ty = TyMap \<and> decode_entries payload 0 d map_new = Ok n \<and> v = Map n) \<or>
      ty \<notin> {TyArray, TyMap} \<and> decode_scalar ty payload = Ok v"
proof -
  obtain ty payload q where h: "decode_header buf pos d = Ok (ty, payload, q)"
    using assms unfolding decode_value.simps [of buf] by (auto simp: and_then_eq_Inr)
  show thesis
    using assms h that unfolding decode_value.simps [of buf] h
    by (cases ty) (auto simp: and_then_eq_Inr simp del: decode_scalar.simps)
qed

lemma decode_sound:
  "decode_value buf pos d = Ok (v, pos') \<Longrightarrow>
     decoded d v \<and> pos + length (tlv v) \<le> pos' \<and> pos' \<le> length buf"
  "decode_items payload p d acc = Ok vs \<Longrightarrow> (\<forall>v \<in> set acc. decoded (Suc d) v) \<Longrightarrow> p \<le> length payload \<Longrightarrow>
     (\<forall>v \<in> set vs. decoded (Suc d) v) \<and>
     length (tlv_body (Array vs)) + p \<le> length (tlv_body (Array acc)) + length payload"
  "decode_entries payload p d m = Ok n \<Longrightarrow> wf_map m \<Longrightarrow>
     (\<forall>(k, v) \<in> set m. decoded (Suc d) (String k) \<and> decoded (Suc d) v) \<Longrightarrow> p \<le> length payload \<Longrightarrow>
     wf_map n \<and> (\<forall>(k, v) \<in> set n. decoded (Suc d) (String k) \<and> decoded (Suc d) v) \<and>
     length (tlv_body (Map n)) + p \<le> length (tlv_body (Map m)) + length payload"
proof (induction buf pos d and payload p d acc and payload p d m
    arbitrary: v pos' and vs and n
    rule: decode_value_decode_items_decode_entries.induct)
  case (1 buf pos d)
  obtain ty payload where h: "decode_header buf pos d = Ok (ty, payload, pos')"
    and c: "(\<exists>items. ty = TyArray \<and> decode_items payload 0 d [] = Ok items \<and> v = Array items) \<or>
      (\<exists>n. ty = TyMap \<and> decode_entries payload 0 d map_new = Ok n \<and> v = Map n) \<or>
      ty \<notin> {TyArray, TyMap} \<and> decode_scalar ty payload = Ok v"
    using "1.prems" by (rule decode_value_OkE)
  have len: "length payload \<le> 524288" and d: "d \<le> MAX_DECODE_DEPTH" and p': "pos' \<le> length buf"
    using decode_header_Ok [OF h] by simp_all
  from c consider (arr) items where "ty = TyArray" "decode_items payload 0 d [] = Ok items" "v = Array items"
    | (mp) n where "ty = TyMap" "decode_entries payload 0 d map_new = Ok n" "v = Map n"
    | (sc) "ty \<notin> {TyArray, TyMap}" "decode_scalar ty payload = Ok v"
    by blast
  then have "decoded d v \<and> length (tlv_body v) \<le> length payload"
  proof cases
    case arr
    then show ?thesis
      using "1.IH"(1) [OF h refl refl, of items] len d fits_container(1) [OF d, of items]
      by (auto simp: decoded_def)
  next
    case mp
    then show ?thesis
      using "1.IH"(2) [OF h refl refl, of n] len d fits_container(2) [OF d, of n]
      by (fastforce simp: decoded_def map_new_def wf_map_def)
  next
    case sc
    then show ?thesis
      using decode_scalar_sound [of ty payload v] len d by (auto simp: decoded_def fits_def)
  qed
  then show ?case
    using decode_header_wrap [OF h, of "tlv_body v" "type_byte v"] p' by (simp add: tlv_def)
next
  case (2 payload p d items)
  show ?case
  proof (cases "p < length payload")
    case True
    then obtain item q where i: "decode_value payload p (d + 1) = Ok (item, q)"
      and r: "decode_items payload q d (items @ [item]) = Ok vs"
      using "2.prems" unfolding decode_items.simps [of payload p] by (auto simp: and_then_eq_Inr)
    have s: "decoded (Suc d) item" "p + length (tlv item) \<le> q" "q \<le> length payload"
      using "2.IH"(1) [OF True i] by auto
    have all: "\<forall>v \<in> set (items @ [item]). decoded (Suc d) v"
      using "2.prems"(2) s(1) by simp
    show ?thesis
      using "2.IH"(2) [OF True i refl r all s(3)] s(2) by (simp add: body_append)
  next
    case False
    then show ?thesis
      using "2.prems" unfolding decode_items.simps [of payload p] by auto
  qed
next
  case (3 payload p d m)
  show ?case
  proof (cases "p < length payload")
    case True
    then obtain key_val q where kv: "decode_value payload p (d + 1) = Ok (key_val, q)"
      using "3.prems"(1) unfolding decode_entries.simps [of payload p] by (auto simp: and_then_eq_Inr)
    then obtain key w q' where k: "decode_value payload p (d + 1) = Ok (String key, q)"
      and q: "\<not> length payload \<le> q" and w: "decode_value payload q (d + 1) = Ok (w, q')"
      and r: "decode_entries payload q' d (map_set key w m) = Ok n"
      using "3.prems"(1) True unfolding decode_entries.simps [of payload p]
      by (cases key_val) (auto simp: and_then_eq_Inr split: if_splits)
    have sk: "decoded (Suc d) (String key)" "p + length (tlv (String key)) \<le> q"
      using "3.IH"(1) [OF True k] by auto
    have sw: "decoded (Suc d) w" "q + length (tlv w) \<le> q'" "q' \<le> length payload"
      using "3.IH"(2) [OF True k refl refl q w] by auto
    have wf: "wf_map (map_set key w m)"
      using "3.prems"(2) sk(1) sw(1) by (auto simp: decoded_def intro: wf_map_set)
    have all: "\<forall>(k, v) \<in> set (map_set key w m). decoded (Suc d) (String k) \<and> decoded (Suc d) v"
      using "3.prems"(3) sk(1) sw(1) set_map_set [of key w m] by auto
    show ?thesis
      using "3.IH"(3) [OF True k refl refl q w refl r wf all sw(3)] sk(2) sw(2) length_map_set [of key w m]
      by auto
  next
    case False
    then show ?thesis
      using "3.prems" unfolding decode_entries.simps [of payload p] by auto
  qed
qed

end
