(* ===== verification/Hush_Io.thy ===== *)
theory Hush_Io
  imports Hush_Prelude
begin

text \<open>
  The byte streams the program reads and writes (\<open>impl Read\<close>, \<open>impl Write\<close>, \<open>AsyncReadExt\<close>,
  \<open>AsyncWriteExt\<close>; a TLS or QUIC stream at run time). A stream is the bytes that will arrive,
  what a read past them reports, the bytes written so far, and how many more bytes the writing
  side still takes before it breaks (\<open>None\<close>: it never does). A read that would wait forever is
  not represented: \<open>c_end\<close> says how the incoming direction ends.
\<close>

datatype io_error = UnexpectedEof | BrokenPipe | OtherIo nat

record conn =
  c_in :: bytes
  c_end :: io_error
  c_out :: bytes
  c_cap :: "nat option"

definition read_exact :: "nat \<Rightarrow> conn \<Rightarrow> (io_error + bytes) \<times> conn" where
  "read_exact n c =
     (if n \<le> length (c_in c) then (Ok (take n (c_in c)), c\<lparr>c_in := drop n (c_in c)\<rparr>)
      else (Err (c_end c), c\<lparr>c_in := []\<rparr>))"

definition write_all :: "bytes \<Rightarrow> conn \<Rightarrow> (io_error + unit) \<times> conn" where
  "write_all b c =
     (case c_cap c of
        None \<Rightarrow> (Ok (), c\<lparr>c_out := c_out c @ b\<rparr>)
      | Some k \<Rightarrow>
          if length b \<le> k
          then (Ok (), c\<lparr>c_out := c_out c @ b, c_cap := Some (k - length b)\<rparr>)
          else (Err BrokenPipe, c\<lparr>c_out := c_out c @ take k b, c_cap := Some 0\<rparr>))"

text \<open>A stream on which \<open>n\<close> more bytes can be written.\<close>

definition can_write :: "nat \<Rightarrow> conn \<Rightarrow> bool" where
  "can_write n c \<longleftrightarrow> (case c_cap c of None \<Rightarrow> True | Some k \<Rightarrow> n \<le> k)"

lemma read_exact_append [simp]:
  "c_in c = b @ r \<Longrightarrow> length b = n \<Longrightarrow> read_exact n c = (Ok b, c\<lparr>c_in := r\<rparr>)"
  by (simp add: read_exact_def)

lemma read_exact_Ok:
  "read_exact n c = (Ok b, c') \<longleftrightarrow>
     n \<le> length (c_in c) \<and> b = take n (c_in c) \<and> c' = c\<lparr>c_in := drop n (c_in c)\<rparr>"
  by (auto simp: read_exact_def)

lemma read_exact_Err:
  "read_exact n c = (Err e, c') \<longleftrightarrow>
     length (c_in c) < n \<and> e = c_end c \<and> c' = c\<lparr>c_in := []\<rparr>"
  by (auto simp: read_exact_def)

lemma read_exact_out [simp]:
  "c_out (snd (read_exact n c)) = c_out c"
  "c_cap (snd (read_exact n c)) = c_cap c"
  "c_end (snd (read_exact n c)) = c_end c"
  by (simp_all add: read_exact_def)

lemma read_exact_in_le: "length (c_in (snd (read_exact n c))) \<le> length (c_in c)"
  by (simp add: read_exact_def)

lemma read_exact_Ok_len: "read_exact n c = (Ok b, c') \<Longrightarrow> length b = n"
  by (simp add: read_exact_Ok)

lemma write_all_in [simp]:
  "c_in (snd (write_all b c)) = c_in c"
  "c_end (snd (write_all b c)) = c_end c"
  by (simp_all add: write_all_def split: option.split)

lemma write_all_can:
  "can_write (length b) c \<Longrightarrow> fst (write_all b c) = Ok () \<and> c_out (snd (write_all b c)) = c_out c @ b"
  by (auto simp: write_all_def can_write_def split: option.splits)

lemma write_all_cannot:
  "\<not> can_write (length b) c \<Longrightarrow> fst (write_all b c) = Err BrokenPipe"
  by (auto simp: write_all_def can_write_def split: option.splits)

text \<open>Whatever happens, the output only grows, by a prefix of what was to be written.\<close>

lemma write_all_grows: "\<exists>k. c_out (snd (write_all b c)) = c_out c @ take k b"
  by (auto simp: write_all_def split: option.split intro: exI [of _ "length b"])

end
