(* ===== verification/Hush_Session.thy ===== *)
theory Hush_Session
  imports Hush_Utf8 Hush_Io
begin

text \<open>
  \<open>src/session.rs\<close>: API keys, the key exchange and the frame cipher over the third-party
  primitives, the session and its store with expiry and garbage collection, and the two sides
  of the synchronous handshake. AES-256-GCM, HKDF-SHA256 and X25519 are the record \<open>crypto\<close> of
  functions, an argument of every definition that uses them; the random bytes drawn (nonces,
  secrets) and the clock are arguments too.
\<close>

section \<open>The primitives\<close>

record crypto =
  aes_new :: "bytes \<Rightarrow> bool"  \<comment> \<open>whether \<open>Aes256Gcm::new_from_slice\<close> takes the key\<close>
  aes_seal :: "bytes \<Rightarrow> bytes \<Rightarrow> bytes \<Rightarrow> bytes option"  \<comment> \<open>key, nonce, plaintext; ciphertext and tag\<close>
  aes_open :: "bytes \<Rightarrow> bytes \<Rightarrow> bytes \<Rightarrow> bytes option"  \<comment> \<open>key, nonce, ciphertext and tag; plaintext\<close>
  hkdf_sha256 :: "bytes \<Rightarrow> bytes \<Rightarrow> bytes \<Rightarrow> nat \<Rightarrow> bytes option"  \<comment> \<open>salt, ikm, info, length\<close>
  x25519_public :: "bytes \<Rightarrow> bytes"
  x25519 :: "bytes \<Rightarrow> bytes \<Rightarrow> bytes"  \<comment> \<open>secret, peer public key; shared secret\<close>

definition KEY_SIZE :: nat where "KEY_SIZE = 32"
definition NONCE_SIZE :: nat where "NONCE_SIZE = 12"
definition TAG_SIZE :: nat where "TAG_SIZE = 16"
definition PUB_KEY_SIZE :: nat where "PUB_KEY_SIZE = 32"

lemmas size_defs [simp] = KEY_SIZE_def NONCE_SIZE_def TAG_SIZE_def PUB_KEY_SIZE_def

text \<open>
  The documented behaviour of the primitives that properties below assume. GCM with a fixed
  nonce is a bijection onto the ciphertexts whose tag verifies, so opening accepts exactly what
  sealing produced; the plaintext limit is that of the \<open>aes-gcm\<close> crate. HKDF expands up to 255
  blocks, and Diffie-Hellman commutes.
\<close>

definition aead_ok :: "crypto \<Rightarrow> bool" where
  "aead_ok cr \<longleftrightarrow>
     (\<forall>k. aes_new cr k \<longleftrightarrow> length k = KEY_SIZE) \<and>
     (\<forall>k n p. length k = KEY_SIZE \<and> length n = NONCE_SIZE \<and> length p \<le> 2 ^ 36 \<longrightarrow> aes_seal cr k n p \<noteq> None) \<and>
     (\<forall>k n p c. length k = KEY_SIZE \<and> length n = NONCE_SIZE \<and> aes_seal cr k n p = Some c \<longrightarrow>
        length c = length p + TAG_SIZE \<and> aes_open cr k n c = Some p) \<and>
     (\<forall>k n p c. length k = KEY_SIZE \<and> length n = NONCE_SIZE \<and> aes_open cr k n c = Some p \<longrightarrow>
        aes_seal cr k n p = Some c)"

definition hkdf_ok :: "crypto \<Rightarrow> bool" where
  "hkdf_ok cr \<longleftrightarrow> (\<forall>salt ikm info n. n \<le> 255 * 32 \<longrightarrow>
     (\<exists>k. hkdf_sha256 cr salt ikm info n = Some k \<and> length k = n))"

definition dh_ok :: "crypto \<Rightarrow> bool" where
  "dh_ok cr \<longleftrightarrow> (\<forall>a. length (x25519_public cr a) = PUB_KEY_SIZE) \<and>
     (\<forall>a b. x25519 cr a (x25519_public cr b) = x25519 cr b (x25519_public cr a))"

section \<open>Keys and the frame cipher\<close>

text \<open>
  Errors: \<open>Crypto(format!("<what>: {e}"))\<close> with an I/O error \<open>e\<close> is \<open>CryptoIo what e\<close>, and with
  the cipher's opaque error it is \<open>CryptoAead\<close>.
\<close>

datatype session_error =
    Hkdf string
  | Aes string
  | Crypto string
  | CryptoIo string io_error
  | CryptoAead string
  | UnknownApiKey string

record api_key =
  ak_id :: string
  ak_secret :: bytes

text \<open>\<open>ApiKey::generate\<close> on the random bytes it draws; \<open>hex::encode\<close> is an argument.\<close>

definition generate_api_key :: "(bytes \<Rightarrow> string) \<Rightarrow> bytes \<Rightarrow> bytes \<Rightarrow> api_key" where
  "generate_api_key hex_encode secret id_bytes = \<lparr>ak_id = hex_encode id_bytes, ak_secret = secret\<rparr>"

definition generate_key_pair :: "crypto \<Rightarrow> bytes \<Rightarrow> bytes \<times> bytes" where
  "generate_key_pair cr secret = (secret, x25519_public cr secret)"

text \<open>The private key of a server: the random bytes drawn, as they are.\<close>

definition generate_static_key :: "bytes \<Rightarrow> bytes" where
  "generate_static_key random = random"

declare generate_static_key_def [simp]

definition shared_secret :: "crypto \<Rightarrow> bytes \<Rightarrow> bytes \<Rightarrow> bytes" where
  "shared_secret cr priv_key pub_key = x25519 cr priv_key pub_key"

definition shared_secret_static :: "crypto \<Rightarrow> bytes \<Rightarrow> bytes \<Rightarrow> bytes" where
  "shared_secret_static cr priv_key pub_key = x25519 cr priv_key pub_key"

definition derive_session_key :: "crypto \<Rightarrow> bytes \<Rightarrow> bytes \<Rightarrow> session_error + bytes" where
  "derive_session_key cr shared api_key_secret =
     ok_or (Hkdf ''hkdf expand failed'')
       (hkdf_sha256 cr shared api_key_secret (as_bytes ''hush-v1-key'') KEY_SIZE)"

definition encrypt :: "crypto \<Rightarrow> bytes \<Rightarrow> bytes \<Rightarrow> bytes \<Rightarrow> session_error + bytes" where
  "encrypt cr nonce_bytes key plaintext =
     (if \<not> aes_new cr key then Err (Aes ''invalid key length'')
      else case aes_seal cr key nonce_bytes plaintext of
             None \<Rightarrow> Err (CryptoAead ''aes-gcm encrypt'')
           | Some ciphertext \<Rightarrow> Ok (nonce_bytes @ ciphertext))"

definition decrypt :: "crypto \<Rightarrow> bytes \<Rightarrow> bytes \<Rightarrow> session_error + bytes" where
  "decrypt cr key data =
     (if length data < NONCE_SIZE + TAG_SIZE then Err (Crypto ''ciphertext too short'')
      else if \<not> aes_new cr key then Err (Aes ''invalid key length'')
      else ok_or (Crypto ''gcm decrypt: message authentication failed'')
             (aes_open cr key (take NONCE_SIZE data) (drop NONCE_SIZE data)))"

section \<open>Sessions and their store\<close>

record session =
  sess_id :: u64
  api_key_id :: string
  sess_key :: bytes
  created_at :: instant
  last_used :: instant

definition session_new :: "instant \<Rightarrow> u64 \<Rightarrow> string \<Rightarrow> bytes \<Rightarrow> session" where
  "session_new now sid kid key =
     \<lparr>sess_id = sid, api_key_id = kid, sess_key = key, created_at = now, last_used = now\<rparr>"

definition session_touch :: "instant \<Rightarrow> session \<Rightarrow> session" where
  "session_touch now s = s\<lparr>last_used := now\<rparr>"

record session_config =
  idle_timeout :: duration
  max_lifetime :: duration
  gc_interval :: duration

definition DEFAULT_IDLE_TIMEOUT :: duration where
  "DEFAULT_IDLE_TIMEOUT = from_secs 300"

definition DEFAULT_MAX_LIFETIME :: duration where
  "DEFAULT_MAX_LIFETIME = from_secs 86400"

definition DEFAULT_GC_INTERVAL :: duration where
  "DEFAULT_GC_INTERVAL = from_secs 60"

definition default_config :: session_config where
  "default_config = \<lparr>idle_timeout = DEFAULT_IDLE_TIMEOUT, max_lifetime = DEFAULT_MAX_LIFETIME,
     gc_interval = DEFAULT_GC_INTERVAL\<rparr>"

text \<open>\<open>SessionConfig::fill\<close>.\<close>

definition config_fill :: "session_config \<Rightarrow> session_config" where
  "config_fill c =
     \<lparr>idle_timeout = (if idle_timeout c \<le> 0 then DEFAULT_IDLE_TIMEOUT else idle_timeout c),
      max_lifetime = (if max_lifetime c \<le> 0 then DEFAULT_MAX_LIFETIME else max_lifetime c),
      gc_interval = (if gc_interval c \<le> 0 then DEFAULT_GC_INTERVAL else gc_interval c)\<rparr>"

definition config_clone :: "session_config \<Rightarrow> session_config" where
  "config_clone c = \<lparr>idle_timeout = idle_timeout c, max_lifetime = max_lifetime c, gc_interval = gc_interval c\<rparr>"

lemma config_clone_same [simp]: "config_clone c = c"
  by (simp add: config_clone_def)

text \<open>\<open>MapKeyStore\<close>.\<close>

record map_key_store =
  mk_keys :: "string \<rightharpoonup> bytes"

definition key_store_new :: map_key_store where
  "key_store_new = \<lparr>mk_keys = Map.empty\<rparr>"

definition key_store_insert :: "string \<Rightarrow> bytes \<Rightarrow> map_key_store \<Rightarrow> map_key_store" where
  "key_store_insert i secret ks = ks\<lparr>mk_keys := (mk_keys ks)(i \<mapsto> secret)\<rparr>"

definition key_store_from :: "(string \<rightharpoonup> bytes) \<Rightarrow> map_key_store" where
  "key_store_from keys = \<lparr>mk_keys = keys\<rparr>"

definition key_store_get :: "map_key_store \<Rightarrow> string \<Rightarrow> bytes option" where
  "key_store_get ks i = mk_keys ks i"

record session_store =
  ss_config :: session_config
  ss_sessions :: "u64 \<rightharpoonup> session"
  ss_next_id :: u64

definition store_new :: "session_config \<Rightarrow> session_store" where
  "store_new cfg = \<lparr>ss_config = cfg, ss_sessions = Map.empty, ss_next_id = 1\<rparr>"

text \<open>\<open>fetch_add\<close> returns the old value and wraps around.\<close>

definition next_session_id :: "session_store \<Rightarrow> u64 \<times> session_store" where
  "next_session_id st = (ss_next_id st, st\<lparr>ss_next_id := ss_next_id st + 1\<rparr>)"

definition store_insert :: "session \<Rightarrow> session_store \<Rightarrow> session_store" where
  "store_insert s st = st\<lparr>ss_sessions := (ss_sessions st)(sess_id s \<mapsto> s)\<rparr>"

definition store_get :: "session_store \<Rightarrow> u64 \<Rightarrow> session option" where
  "store_get st i = ss_sessions st i"

definition store_delete :: "u64 \<Rightarrow> session_store \<Rightarrow> session_store" where
  "store_delete i st = st\<lparr>ss_sessions := (ss_sessions st)(i := None)\<rparr>"

definition is_expired :: "session_store \<Rightarrow> instant \<Rightarrow> session \<Rightarrow> bool" where
  "is_expired st now s \<longleftrightarrow> elapsed now (created_at s) > max_lifetime (ss_config st)"

definition is_idle_dead :: "session_store \<Rightarrow> instant \<Rightarrow> session \<Rightarrow> bool" where
  "is_idle_dead st now s \<longleftrightarrow> elapsed now (last_used s) > idle_timeout (ss_config st)"

definition store_retain :: "(session \<Rightarrow> bool) \<Rightarrow> session_store \<Rightarrow> session_store" where
  "store_retain P st = st\<lparr>ss_sessions := map_retain P (ss_sessions st)\<rparr>"

definition store_gc :: "instant \<Rightarrow> session_store \<Rightarrow> session_store" where
  "store_gc now st =
     store_retain (\<lambda>s. elapsed now (created_at s) \<le> max_lifetime (ss_config st)) st"

definition store_len :: "session_store \<Rightarrow> nat" where
  "store_len st = card (dom (ss_sessions st))"

definition default_store :: session_store where
  "default_store = store_new default_config"

section \<open>The synchronous handshake\<close>

text \<open>\<open>try_into\<close> from a slice to \<open>[u8; 32]\<close>.\<close>

definition to_array32 :: "'e \<Rightarrow> bytes \<Rightarrow> 'e + bytes" where
  "to_array32 e b = (if length b = 32 then Ok b else Err e)"

definition negotiate_client ::
    "crypto \<Rightarrow> bytes \<Rightarrow> instant \<Rightarrow> api_key \<Rightarrow> conn \<Rightarrow> (session_error + session) \<times> conn" where
  "negotiate_client cr random now key c =
     (let (secret, pub_bytes) = generate_key_pair cr random;
          key_id_bytes = as_bytes (ak_id key);
          buf = u16_to_be (word_of_nat (length key_id_bytes)) @ key_id_bytes @ pub_bytes;
          (w, c1) = write_all buf c
      in case w of Err e \<Rightarrow> (Err (CryptoIo ''write'' e), c1) | Ok _ \<Rightarrow>
        (case read_exact (PUB_KEY_SIZE + 8) c1 of
           (Err e, c2) \<Rightarrow> (Err (CryptoIo ''read'' e), c2)
         | (Ok resp, c2) \<Rightarrow>
             (and_then (to_array32 (Crypto ''invalid server pubkey'') (take PUB_KEY_SIZE resp)) (\<lambda>server_pub.
                let session_id = u64_from_be (drop PUB_KEY_SIZE resp);
                    shared = shared_secret cr secret server_pub
                in and_then (derive_session_key cr shared (ak_secret key)) (\<lambda>session_key.
                     Ok (session_new now session_id (ak_id key) session_key))), c2)))"

definition negotiate_server ::
    "crypto \<Rightarrow> bytes \<Rightarrow> bytes \<Rightarrow> (string \<Rightarrow> bytes option) \<Rightarrow> u64 \<Rightarrow> instant \<Rightarrow> conn \<Rightarrow>
       (session_error + session) \<times> conn" where
  "negotiate_server cr server_secret server_public key_store next_id now c =
     (case read_exact 2 c of
        (Err e, c1) \<Rightarrow> (Err (CryptoIo ''read header'' e), c1)
      | (Ok header, c1) \<Rightarrow>
          let key_len = unat (u16_from_be header)
          in if key_len = 0 \<or> key_len > 256 then (Err (Crypto ''invalid key length''), c1)
             else case read_exact (key_len + PUB_KEY_SIZE) c1 of
               (Err e, c2) \<Rightarrow> (Err (CryptoIo ''read key+pub'' e), c2)
             | (Ok key_buf, c2) \<Rightarrow>
                 (case
                    and_then (ok_or (Crypto ''invalid utf-8 key id'') (from_utf8 (take key_len key_buf))) (\<lambda>kid.
                    and_then (to_array32 (Crypto ''invalid client pubkey'') (drop key_len key_buf)) (\<lambda>client_pub.
                    and_then (ok_or (UnknownApiKey kid) (key_store kid)) (\<lambda>api_key_secret.
                      let shared = shared_secret cr server_secret client_pub
                      in and_then (derive_session_key cr shared api_key_secret) (\<lambda>session_key.
                           Ok (kid, session_key)))))
                  of Err e \<Rightarrow> (Err e, c2)
                   | Ok (kid, session_key) \<Rightarrow>
                       let resp = server_public @ u64_to_be next_id;
                           (w, c3) = write_all resp c2
                       in case w of
                            Err e \<Rightarrow> (Err (CryptoIo ''write response'' e), c3)
                          | Ok _ \<Rightarrow> (Ok (session_new now next_id kid session_key), c3)))"

end
