(* ===== verification/Hush_Frame.thy ===== *)
theory Hush_Frame
  imports Hush_Tlv_Decode Hush_Session
begin

text \<open>
  \<open>src/frame.rs\<close>: the length-prefixed frame on a stream, the request and response bodies with
  optional encryption, and the stream-level request reader and response writer. Lengths are
  computed in \<open>u32\<close> with the wrap-around of a release build. The synchronous and asynchronous
  readers and writers have the same text in the source and one definition each here.
\<close>

definition MAX_FRAME_SIZE :: u32 where
  "MAX_FRAME_SIZE = push_bit 20 1"

definition FRAME_OVERHEAD :: u32 where
  "FRAME_OVERHEAD = 4 + 12 + 16"

definition FRAME_MIN_DATA :: u32 where
  "FRAME_MIN_DATA = 4"

definition max_safe_payload :: u32 where
  "max_safe_payload = MAX_FRAME_SIZE - FRAME_OVERHEAD"

definition wire_overhead :: u32 where
  "wire_overhead = 36"

section \<open>Status codes\<close>

datatype status_code =
    Success | BadRequest | Unauthenticated | PermissionDenied
  | NotFound | SessionExpired | RateLimited | InternalError

text \<open>\<open>status as u8\<close>.\<close>

fun status_to_u8 :: "status_code \<Rightarrow> u8" where
  "status_to_u8 Success = 0x00"
| "status_to_u8 BadRequest = 0x01"
| "status_to_u8 Unauthenticated = 0x02"
| "status_to_u8 PermissionDenied = 0x03"
| "status_to_u8 NotFound = 0x04"
| "status_to_u8 SessionExpired = 0x05"
| "status_to_u8 RateLimited = 0x06"
| "status_to_u8 InternalError = 0x07"

definition status_from_u8 :: "u8 \<Rightarrow> status_code option" where
  "status_from_u8 b =
     (if b = 0x00 then Some Success
      else if b = 0x01 then Some BadRequest
      else if b = 0x02 then Some Unauthenticated
      else if b = 0x03 then Some PermissionDenied
      else if b = 0x04 then Some NotFound
      else if b = 0x05 then Some SessionExpired
      else if b = 0x06 then Some RateLimited
      else if b = 0x07 then Some InternalError
      else None)"

fun status_name :: "status_code \<Rightarrow> string" where
  "status_name Success = ''success''"
| "status_name BadRequest = ''bad_request''"
| "status_name Unauthenticated = ''unauthenticated''"
| "status_name PermissionDenied = ''permission_denied''"
| "status_name NotFound = ''not_found''"
| "status_name SessionExpired = ''session_expired''"
| "status_name RateLimited = ''rate_limited''"
| "status_name InternalError = ''internal_error''"

section \<open>Frames\<close>

datatype frame_error = FEof | FIo io_error | FTooLarge u32 u32 | FTooShort u32

datatype request_error =
  RFrame frame_error | RSession session_error | RTooShort | RUnknownStatus u8 | RIo io_error

record frame =
  frame_seq :: u32
  frame_data :: bytes

text \<open>The error of the length read: end of stream is \<open>Eof\<close>, the rest is \<open>Io\<close>.\<close>

fun eof_or_io :: "io_error \<Rightarrow> frame_error" where
  "eof_or_io UnexpectedEof = FEof"
| "eof_or_io e = FIo e"

definition read_frame_async :: "conn \<Rightarrow> (frame_error + frame) \<times> conn" where
  "read_frame_async r =
     (case read_exact 4 r of
        (Err e, r1) \<Rightarrow> (Err (eof_or_io e), r1)
      | (Ok len_buf, r1) \<Rightarrow>
          let frame_len = u32_from_be len_buf
          in if frame_len > MAX_FRAME_SIZE then (Err (FTooLarge frame_len MAX_FRAME_SIZE), r1)
             else if frame_len < FRAME_MIN_DATA then (Err (FTooShort frame_len), r1)
             else case read_exact (unat frame_len) r1 of
               (Err e, r2) \<Rightarrow> (Err (FIo e), r2)
             | (Ok data, r2) \<Rightarrow>
                 (Ok \<lparr>frame_seq = u32_from_be (take 4 data), frame_data = drop 4 data\<rparr>, r2))"

definition read_frame :: "conn \<Rightarrow> (frame_error + frame) \<times> conn" where
  "read_frame r =
     (case read_exact 4 r of
        (Err e, r1) \<Rightarrow> (Err (eof_or_io e), r1)
      | (Ok len_buf, r1) \<Rightarrow>
          let frame_len = u32_from_be len_buf
          in if frame_len > MAX_FRAME_SIZE then (Err (FTooLarge frame_len MAX_FRAME_SIZE), r1)
             else if frame_len < FRAME_MIN_DATA then (Err (FTooShort frame_len), r1)
             else case read_exact (unat frame_len) r1 of
               (Err e, r2) \<Rightarrow> (Err (FIo e), r2)
             | (Ok data, r2) \<Rightarrow>
                 (Ok \<lparr>frame_seq = u32_from_be (take 4 data), frame_data = drop 4 data\<rparr>, r2))"

definition write_frame_async :: "conn \<Rightarrow> u32 \<Rightarrow> bytes \<Rightarrow> (frame_error + unit) \<times> conn" where
  "write_frame_async w seq data =
     (let total_len = 4 + word_of_nat (length data) :: u32
      in if total_len > MAX_FRAME_SIZE then (Err (FTooLarge total_len MAX_FRAME_SIZE), w)
         else
           let buf = u32_to_be total_len @ u32_to_be seq @ data;
               (r, w') = write_all buf w
           in (map_err FIo r, w'))"

definition write_frame :: "conn \<Rightarrow> u32 \<Rightarrow> bytes \<Rightarrow> (frame_error + unit) \<times> conn" where
  "write_frame w seq data =
     (let total_len = 4 + word_of_nat (length data) :: u32
      in if total_len > MAX_FRAME_SIZE then (Err (FTooLarge total_len MAX_FRAME_SIZE), w)
         else
           let buf = u32_to_be total_len @ u32_to_be seq @ data;
               (r, w') = write_all buf w
           in (map_err FIo r, w'))"

definition encode_frame :: "u32 \<Rightarrow> bytes \<Rightarrow> frame_error + bytes" where
  "encode_frame seq data =
     (let total_len = 4 + word_of_nat (length data) :: u32
      in if total_len > MAX_FRAME_SIZE then Err (FTooLarge total_len MAX_FRAME_SIZE)
         else Ok (u32_to_be total_len @ u32_to_be seq @ data))"

definition parse_frame_data :: "bytes \<Rightarrow> frame_error + frame" where
  "parse_frame_data data =
     (if length data < 4 then Err (FTooShort (word_of_nat (length data)))
      else Ok \<lparr>frame_seq = u32_from_be (take 4 data), frame_data = drop 4 data\<rparr>)"

section \<open>Requests and responses\<close>

record request =
  req_opcode :: u16
  req_payload :: "tlv_map option"

record response =
  resp_status :: status_code
  resp_payload :: "tlv_map option"
  resp_seq :: u32

text \<open>The \<open>match key\<close> at the end of the two encoders and at the start of the two decoders.\<close>

definition seal_body :: "crypto \<Rightarrow> bytes \<Rightarrow> bytes option \<Rightarrow> bytes \<Rightarrow> request_error + bytes" where
  "seal_body cr nonce key plaintext =
     (case key of None \<Rightarrow> Ok plaintext
      | Some k \<Rightarrow> map_err RSession (encrypt cr nonce k plaintext))"

definition open_body :: "crypto \<Rightarrow> bytes option \<Rightarrow> bytes \<Rightarrow> request_error + bytes" where
  "open_body cr key data =
     (case key of None \<Rightarrow> Ok data
      | Some k \<Rightarrow> map_err RSession (decrypt cr k data))"

definition encode_request_body ::
    "crypto \<Rightarrow> bytes \<Rightarrow> bytes option \<Rightarrow> request \<Rightarrow> request_error + bytes" where
  "encode_request_body cr nonce key req =
     (let plaintext = u16_to_be (req_opcode req) @
            (case req_payload req of None \<Rightarrow> [] | Some m \<Rightarrow> encode_map m)
      in seal_body cr nonce key plaintext)"

definition decode_request ::
    "crypto \<Rightarrow> bytes option \<Rightarrow> bytes \<Rightarrow> request_error + (request \<times> u32)" where
  "decode_request cr key wire_data =
     and_then (map_err RFrame (parse_frame_data wire_data)) (\<lambda>frame.
     and_then (open_body cr key (frame_data frame)) (\<lambda>plaintext.
       if length plaintext < 2 then Err RTooShort
       else
         let opcode = u16_from_be (take 2 plaintext);
             payload = (if length plaintext > 2 then decode_map_opt (drop 2 plaintext) else None)
         in Ok (\<lparr>req_opcode = opcode, req_payload = payload\<rparr>, frame_seq frame)))"

definition encode_response_body ::
    "crypto \<Rightarrow> bytes \<Rightarrow> bytes option \<Rightarrow> response \<Rightarrow> request_error + bytes" where
  "encode_response_body cr nonce key resp =
     (let plaintext = [status_to_u8 (resp_status resp)] @
            (case resp_payload resp of None \<Rightarrow> [] | Some m \<Rightarrow> encode_map m)
      in seal_body cr nonce key plaintext)"

definition decode_response :: "crypto \<Rightarrow> bytes option \<Rightarrow> bytes \<Rightarrow> request_error + response" where
  "decode_response cr key wire_data =
     and_then (map_err RFrame (parse_frame_data wire_data)) (\<lambda>frame.
     and_then (open_body cr key (frame_data frame)) (\<lambda>plaintext.
       if plaintext = [] then Err RTooShort
       else and_then (ok_or (RUnknownStatus (hd plaintext)) (status_from_u8 (hd plaintext))) (\<lambda>status.
         let payload = (if length plaintext > 1 then decode_map_opt (drop 1 plaintext) else None)
         in Ok \<lparr>resp_status = status, resp_payload = payload, resp_seq = frame_seq frame\<rparr>)))"

definition new_response :: "tlv_map \<Rightarrow> response" where
  "new_response payload = \<lparr>resp_status = Success, resp_payload = Some payload, resp_seq = 0\<rparr>"

definition error_response :: "status_code \<Rightarrow> string \<Rightarrow> response" where
  "error_response code message =
     \<lparr>resp_status = code, resp_payload = Some (map_set ''error'' (String message) map_new),
      resp_seq = 0\<rparr>"

definition read_request_async ::
    "crypto \<Rightarrow> conn \<Rightarrow> bytes option \<Rightarrow> (request_error + (request \<times> u32)) \<times> conn" where
  "read_request_async cr r key =
     (case read_frame_async r of
        (Err e, r') \<Rightarrow> (Err (RFrame e), r')
      | (Ok frame, r') \<Rightarrow>
          let wire = u32_to_be (frame_seq frame) @ frame_data frame
          in (decode_request cr key wire, r'))"

definition write_response_async ::
    "crypto \<Rightarrow> bytes \<Rightarrow> conn \<Rightarrow> bytes option \<Rightarrow> u32 \<Rightarrow> response \<Rightarrow> (request_error + unit) \<times> conn" where
  "write_response_async cr nonce w key seq resp =
     (case encode_response_body cr nonce key resp of
        Err e \<Rightarrow> (Err e, w)
      | Ok body \<Rightarrow>
          let (r, w') = write_frame_async w seq body in (map_err RFrame r, w'))"

end
