(* ===== verification/Hush_Middleware.thy ===== *)
theory Hush_Middleware
  imports Hush_Frame
begin

text \<open>
  \<open>src/middleware.rs\<close> and the handler types of \<open>src/server.rs\<close> that it wraps. A handler is a
  function of the request and of the state \<open>'s\<close> that the application's closures share (their
  mutexes and atomics, the limiter, the terminal); it returns the \<open>Result\<close> of the code or
  panics, and leaves the state changed up to there in both cases.
\<close>

section \<open>Handlers\<close>

record server_request =
  sr_opcode :: u16
  sr_payload :: tlv_map
  sr_session_id :: u64
  sr_api_key_id :: string

datatype outcome = Returns "string + response" | Panics

type_synonym 's sync_handler = "server_request \<Rightarrow> 's \<Rightarrow> outcome \<times> 's"
type_synonym 's middleware = "'s sync_handler \<Rightarrow> 's sync_handler"

section \<open>Built-in middleware\<close>

text \<open>
  What the logging middleware logs: opcode, status byte or error text, elapsed time. A logger
  writes it to the state; \<open>clock\<close> reads the monotonic clock of a state.
\<close>

datatype mw_log =
    MwStatus u16 u8 duration
  | MwError u16 duration string

definition logging_middleware ::
    "('s \<Rightarrow> instant) \<Rightarrow> (mw_log \<Rightarrow> 's \<Rightarrow> 's) option \<Rightarrow> 's middleware" where
  "logging_middleware clock log next = (\<lambda>req s.
     let opcode = sr_opcode req;
         start = clock s
     in case next req s of
          (Panics, s') \<Rightarrow> (Panics, s')
        | (Returns result, s') \<Rightarrow>
            let dur = elapsed (clock s') start
            in (Returns result,
                case log of None \<Rightarrow> s'
                | Some l \<Rightarrow> (case result of
                      Ok resp \<Rightarrow> l (MwStatus opcode (status_to_u8 (resp_status resp)) dur) s'
                    | Err e \<Rightarrow> l (MwError opcode dur e) s')))"

definition recovery_middleware :: "'s middleware" where
  "recovery_middleware next = (\<lambda>req s.
     case next req s of
       (Returns result, s') \<Rightarrow> (Returns result, s')
     | (Panics, s') \<Rightarrow> (Returns (Err ''internal error (panic)''), s'))"

text \<open>\<open>limiter\<close> is a closure of the application: it returns a count, or panics (\<open>None\<close>).\<close>

definition rate_limit_middleware :: "('s \<Rightarrow> u64 option \<times> 's) \<Rightarrow> u64 \<Rightarrow> 's middleware" where
  "rate_limit_middleware limiter max_count next = (\<lambda>req s.
     case limiter s of
       (None, s') \<Rightarrow> (Panics, s')
     | (Some n, s') \<Rightarrow>
         if n > max_count then (Returns (Err ''rate limit exceeded''), s') else next req s')"

definition unauthorized :: "string \<Rightarrow> string" where
  "unauthorized kid = ''api key '' @ [CHR 0x27] @ kid @ [CHR 0x27] @ '' not authorized''"

definition require_api_key_id :: "string list \<Rightarrow> 's middleware" where
  "require_api_key_id allowed next = (\<lambda>req s.
     if sr_api_key_id req \<notin> set allowed
     then (Returns (Err (unauthorized (sr_api_key_id req))), s)
     else next req s)"

text \<open>
  The loop of \<open>Server::handle\<close>: \<open>for mw in middlewares.iter().rev() { h = mw(h) }\<close>.
\<close>

definition wrap_handler :: "('h \<Rightarrow> 'h) list \<Rightarrow> 'h \<Rightarrow> 'h" where
  "wrap_handler mws h = fold (\<lambda>mw h. mw h) (rev mws) h"

lemma wrap_handler_simps [simp]:
  "wrap_handler [] h = h"
  "wrap_handler (mw # mws) h = mw (wrap_handler mws h)"
  by (simp_all add: wrap_handler_def)

lemma wrap_handler_append: "wrap_handler (mws @ mws') h = wrap_handler mws (wrap_handler mws' h)"
  by (induction mws) simp_all

section \<open>What a middleware may do\<close>

text \<open>
  The contract of a middleware that the composition rests on: it depends on the handler it wraps only
  through what that handler does on the very same request, and it answers no request that the
  handler never answers. A \<open>calm\<close> middleware adds no panic of its own either. The middleware of an
  application is any function of handlers, so that these contracts are hypotheses about it.
\<close>

locale mediating =
  fixes mw :: "'s middleware"
  assumes same_request: "(\<And>s. h req s = h' req s) \<Longrightarrow> mw h req s = mw h' req s"
    and keeps_refusal: "(\<And>s r. fst (h req s) \<noteq> Returns (Ok r)) \<Longrightarrow> fst (mw h req s) \<noteq> Returns (Ok r)"

locale calm = mediating +
  assumes no_new_panic: "(\<And>s. fst (h req s) \<noteq> Panics) \<Longrightarrow> fst (mw h req s) \<noteq> Panics"
begin

lemma keeps_error:
  assumes "\<And>s. \<exists>e. fst (h req s) = Returns (Err e)"
  shows "\<exists>e. fst (mw h req s) = Returns (Err e)"
proof -
  have "fst (h req s) \<noteq> Returns (Ok r)" "fst (h req s) \<noteq> Panics" for s r
    using assms [of s] by auto
  then have no: "fst (mw h req s) \<noteq> Returns (Ok r)" "fst (mw h req s) \<noteq> Panics" for r
    by (auto intro!: keeps_refusal no_new_panic)
  show ?thesis
  proof (cases "fst (mw h req s)")
    case (Returns x)
    then show ?thesis using no(1) by (cases x) auto
  qed (use no(2) in simp)
qed

end

lemma logging_fst [simp]: "fst (logging_middleware clock log next req s) = fst (next req s)"
  by (auto simp: logging_middleware_def Let_def split: prod.splits outcome.splits)

interpretation log_mw: calm "logging_middleware clock log" for clock log
proof unfold_locales
  show "logging_middleware clock log h req s = logging_middleware clock log h' req s"
    if "\<And>s. h req s = h' req s" for h h' :: "'a sync_handler" and req s
    using that by (simp add: logging_middleware_def)
qed simp_all

lemma recovery_fst: "fst (recovery_middleware next req s) =
    (case fst (next req s) of Returns r \<Rightarrow> Returns r | Panics \<Rightarrow> Returns (Err ''internal error (panic)''))"
  by (auto simp: recovery_middleware_def split: prod.splits outcome.splits)

lemma recovery_never_panics [simp]: "fst (recovery_middleware next req s) \<noteq> Panics"
  by (simp add: recovery_fst split: outcome.splits)

interpretation rec_mw: calm recovery_middleware
proof unfold_locales
  show "fst (recovery_middleware h req s) \<noteq> Returns (Ok r)"
    if "\<And>s r. fst (h req s) \<noteq> Returns (Ok r)" for h :: "'a sync_handler" and req s r
    using that [of s] by (auto simp: recovery_fst split: outcome.splits)
qed (simp add: recovery_middleware_def, rule recovery_never_panics)

interpretation lim_mw: mediating "rate_limit_middleware limiter max_count" for limiter max_count
  by unfold_locales (auto simp: rate_limit_middleware_def split: prod.splits option.splits)

interpretation key_mw: calm "require_api_key_id allowed" for allowed
  by unfold_locales (simp_all add: require_api_key_id_def)

text \<open>A rate limiter is calm when its limiter does not panic.\<close>

lemma rate_limit_calm:
  assumes "\<And>s. fst (limiter s) \<noteq> None"
  shows "calm (rate_limit_middleware limiter max_count)"
proof (intro calm.intro lim_mw.mediating_axioms calm_axioms.intro)
  show "fst (rate_limit_middleware limiter max_count h req s) \<noteq> Panics"
    if "\<And>s. fst (h req s) \<noteq> Panics" for h :: "'a sync_handler" and req s
    using that assms [of s] by (auto simp: rate_limit_middleware_def split: prod.splits option.splits)
qed

section \<open>Chains\<close>

lemma chain_same_request:
  assumes "\<forall>mw \<in> set mws. mediating mw" and "\<And>s. h req s = h' req s"
  shows "wrap_handler mws h req s = wrap_handler mws h' req s"
  using assms(1)
proof (induction mws arbitrary: s)
  case (Cons mw mws)
  have mw: "mediating mw" and IH: "\<And>s. wrap_handler mws h req s = wrap_handler mws h' req s" using Cons by simp_all
  show ?case unfolding wrap_handler_simps by (rule mediating.same_request [OF mw], rule IH)
qed (simp add: assms(2))

lemma chain_keeps_refusal:
  assumes "\<forall>mw \<in> set mws. mediating mw" and "\<And>s r. fst (h req s) \<noteq> Returns (Ok r)"
  shows "fst (wrap_handler mws h req s) \<noteq> Returns (Ok r)"
  using assms(1)
proof (induction mws arbitrary: s r)
  case (Cons mw mws)
  have mw: "mediating mw" and IH: "\<And>s r. fst (wrap_handler mws h req s) \<noteq> Returns (Ok r)" using Cons by simp_all
  show ?case unfolding wrap_handler_simps by (rule mediating.keeps_refusal [OF mw], rule IH)
qed (simp add: assms(2))

lemma chain_no_new_panic:
  assumes "\<forall>mw \<in> set mws. calm mw" and "\<And>s. fst (h req s) \<noteq> Panics"
  shows "fst (wrap_handler mws h req s) \<noteq> Panics"
  using assms(1)
proof (induction mws arbitrary: s)
  case (Cons mw mws)
  have mw: "calm mw" and IH: "\<And>s. fst (wrap_handler mws h req s) \<noteq> Panics" using Cons by simp_all
  show ?case unfolding wrap_handler_simps by (rule calm.no_new_panic [OF mw], rule IH)
qed (simp add: assms(2))

lemma calm_mediating: "calm mw \<Longrightarrow> mediating mw"
  by (simp add: calm_def)

section \<open>Properties\<close>

text \<open>
  Authorisation. Behind \<open>require_api_key_id\<close>, which only mediating middleware may precede, a request
  under a key id that is not allowed never reaches the handler nor the middleware after it: outcome
  and effects of the wrapped handler are the same whatever these are. No response is returned, and
  an error is, unless a middleware that is not calm panics.
\<close>

theorem require_key_guards:
  assumes "\<forall>mw \<in> set pre. mediating mw" and "sr_api_key_id req \<notin> set allowed"
  shows "wrap_handler (pre @ require_api_key_id allowed # post) h req s =
      wrap_handler (pre @ require_api_key_id allowed # post) h' req s \<and>
    fst (wrap_handler (pre @ require_api_key_id allowed # post) h req s) \<noteq> Returns (Ok resp) \<and>
    ((\<forall>mw \<in> set pre. calm mw) \<longrightarrow>
      (\<exists>e. fst (wrap_handler (pre @ require_api_key_id allowed # post) h req s) = Returns (Err e)))"
proof -
  let ?refuse = "\<lambda>req s. (Returns (Err (unauthorized (sr_api_key_id req))), s)"
  have eq: "wrap_handler (pre @ require_api_key_id allowed # post) h req s = wrap_handler pre ?refuse req s" for h
    using assms(2)
    by (auto simp: wrap_handler_append require_api_key_id_def intro!: chain_same_request [OF assms(1)])
  have no: "fst (wrap_handler pre ?refuse req s) \<noteq> Returns (Ok r)" for r
    by (rule chain_keeps_refusal [OF assms(1)]) simp
  have "\<exists>e. fst (wrap_handler pre ?refuse req s) = Returns (Err e)" if "\<forall>mw \<in> set pre. calm mw"
  proof (cases "fst (wrap_handler pre ?refuse req s)")
    case (Returns x)
    then show ?thesis using no by (cases x) auto
  next
    case Panics
    moreover have "fst (wrap_handler pre ?refuse req s) \<noteq> Panics" by (rule chain_no_new_panic [OF that]) simp
    ultimately show ?thesis by simp
  qed
  then show ?thesis using no unfolding eq by blast
qed

text \<open>
  Panic recovery. Behind \<open>recovery_middleware\<close>, which only calm middleware precedes, the wrapped
  handler never panics, whatever the handler and the middleware after it do; without a panic
  outcome and effects pass through \<open>recovery_middleware\<close> unchanged.
\<close>

theorem recovery_contains_panics:
  "((\<forall>mw \<in> set pre. calm mw) \<longrightarrow> fst (wrap_handler (pre @ recovery_middleware # post) h req s) \<noteq> Panics) \<and>
   (fst (h req s) \<noteq> Panics \<longrightarrow> recovery_middleware h req s = h req s)"
proof (intro conjI impI)
  assume "\<forall>mw \<in> set pre. calm mw"
  then show "fst (wrap_handler (pre @ recovery_middleware # post) h req s) \<noteq> Panics"
    unfolding wrap_handler_append wrap_handler_simps by (rule chain_no_new_panic) (rule recovery_never_panics)
next
  assume "fst (h req s) \<noteq> Panics"
  then show "recovery_middleware h req s = h req s"
    by (auto simp: recovery_middleware_def split: prod.splits outcome.splits)
qed

end
