(* ===== verification/Hush_Media.thy ===== *)
theory Hush_Media
  imports Hush_Prelude
begin

text \<open>
  \<open>src/media.rs\<close>: media tokens bound to a session, and their store. The session validator is a
  closure over state that lives outside the store; it is a function of that state (the type
  \<open>'w\<close>, which the server instantiates with its heap of session stores). Random bytes and clock
  readings are arguments; \<open>validate\<close> reads the clock up to twice.
\<close>

section \<open>Tokens and operations\<close>

record token =
  tok_id :: bytes
  track_id :: string
  hls_url :: string
  tok_created_at :: instant
  issued_at :: instant
  tok_session :: u64

record 'w token_store =
  ts_tokens :: "bytes \<rightharpoonup> token"
  validate_session :: "('w \<Rightarrow> u64 \<Rightarrow> bool) option"
  max_token_ttl :: duration

definition DEFAULT_MAX_TOKEN_TTL :: duration where
  "DEFAULT_MAX_TOKEN_TTL = from_secs 7200"

definition token_store_new :: "'w token_store" where
  "token_store_new =
     \<lparr>ts_tokens = Map.empty, validate_session = None, max_token_ttl = DEFAULT_MAX_TOKEN_TTL\<rparr>"

definition with_validator :: "('w \<Rightarrow> u64 \<Rightarrow> bool) \<Rightarrow> 'w token_store" where
  "with_validator f =
     \<lparr>ts_tokens = Map.empty, validate_session = Some f, max_token_ttl = DEFAULT_MAX_TOKEN_TTL\<rparr>"

text \<open>The \<open>HashMap\<close> operations on the locked inner map.\<close>

definition token_get :: "'w token_store \<Rightarrow> bytes \<Rightarrow> token option" where
  "token_get st i = ts_tokens st i"

definition token_insert :: "token \<Rightarrow> 'w token_store \<Rightarrow> 'w token_store" where
  "token_insert t st = st\<lparr>ts_tokens := (ts_tokens st)(tok_id t \<mapsto> t)\<rparr>"

definition token_remove :: "bytes \<Rightarrow> 'w token_store \<Rightarrow> 'w token_store" where
  "token_remove i st = st\<lparr>ts_tokens := (ts_tokens st)(i := None)\<rparr>"

definition token_retain :: "(token \<Rightarrow> bool) \<Rightarrow> 'w token_store \<Rightarrow> 'w token_store" where
  "token_retain P st = st\<lparr>ts_tokens := map_retain P (ts_tokens st)\<rparr>"

definition issue_with_hls ::
    "bytes \<Rightarrow> instant \<Rightarrow> u64 \<Rightarrow> string \<Rightarrow> string \<Rightarrow> 'w token_store \<Rightarrow> token \<times> 'w token_store" where
  "issue_with_hls random_id now session_id track hls st =
     (let tok = \<lparr>tok_id = random_id, track_id = track, hls_url = hls, tok_created_at = now,
            issued_at = now, tok_session = session_id\<rparr>
      in (tok, token_insert tok st))"

definition issue :: "bytes \<Rightarrow> instant \<Rightarrow> u64 \<Rightarrow> string \<Rightarrow> 'w token_store \<Rightarrow> token \<times> 'w token_store" where
  "issue random_id now session_id track st = issue_with_hls random_id now session_id track [] st"

definition validate :: "'w \<Rightarrow> instant \<Rightarrow> instant \<Rightarrow> bytes \<Rightarrow> 'w token_store \<Rightarrow> bool \<times> 'w token_store" where
  "validate w now later token_id st =
     (case token_get st token_id of
        None \<Rightarrow> (False, st)
      | Some tok \<Rightarrow>
          if elapsed now (issued_at tok) > max_token_ttl st then (False, token_remove token_id st)
          else if (case validate_session st of None \<Rightarrow> False | Some f \<Rightarrow> \<not> f w (tok_session tok))
          then (False, token_remove token_id st)
          else (True, st\<lparr>ts_tokens := (ts_tokens st)(token_id \<mapsto> tok\<lparr>tok_created_at := later\<rparr>)\<rparr>))"

definition token_exists :: "bytes \<Rightarrow> 'w token_store \<Rightarrow> bool" where
  "token_exists token_id st \<longleftrightarrow> token_get st token_id \<noteq> None"

definition lookup_hls :: "bytes \<Rightarrow> 'w token_store \<Rightarrow> string option" where
  "lookup_hls token_id st = map_option hls_url (token_get st token_id)"

definition token_gc :: "instant \<Rightarrow> 'w token_store \<Rightarrow> 'w token_store" where
  "token_gc now st = token_retain (\<lambda>t. elapsed now (issued_at t) \<le> max_token_ttl st) st"

text \<open>\<open>MediaURLBuilder\<close>; \<open>hex::encode\<close> is an argument.\<close>

record media_url_builder =
  base_url :: string

definition media_url_builder_new :: "string \<Rightarrow> media_url_builder" where
  "media_url_builder_new base = \<lparr>base_url = base\<rparr>"

definition build_url :: "(bytes \<Rightarrow> string) \<Rightarrow> media_url_builder \<Rightarrow> bytes \<Rightarrow> string \<Rightarrow> string" where
  "build_url hex_encode b token_id track =
     base_url b @ ''/media/'' @ hex_encode token_id @ ''/'' @ track"

section \<open>The store as a keyed store\<close>

definition token_inv :: "'w token_store \<Rightarrow> bool" where
  "token_inv st \<longleftrightarrow> (\<forall>i t. ts_tokens st i = Some t \<longrightarrow> tok_id t = i)"

lemmas token_defs = token_get_def token_insert_def token_remove_def token_retain_def token_inv_def
  token_store_new_def with_validator_def

interpretation ts: keyed_gc_store token_get token_store_new token_inv tok_id token_insert
    token_remove token_retain
  by unfold_locales
    (auto simp: token_defs fun_eq_iff map_retain_def split: option.splits if_splits)

lemma token_config [simp]:
  "max_token_ttl (token_insert t st) = max_token_ttl st"
  "max_token_ttl (token_remove i st) = max_token_ttl st"
  "max_token_ttl (token_retain P st) = max_token_ttl st"
  "validate_session (token_insert t st) = validate_session st"
  "validate_session (token_remove i st) = validate_session st"
  "validate_session (token_retain P st) = validate_session st"
  by (simp_all add: token_defs)

text \<open>Whether the store would validate a token, at a state of the sessions and a time.\<close>

definition token_valid :: "'w \<Rightarrow> instant \<Rightarrow> 'w token_store \<Rightarrow> token \<Rightarrow> bool" where
  "token_valid w now st t \<longleftrightarrow> elapsed now (issued_at t) \<le> max_token_ttl st \<and>
     (case validate_session st of None \<Rightarrow> True | Some f \<Rightarrow> f w (tok_session t))"

lemma validate_eq:
  "validate w now later i st =
     (case token_get st i of None \<Rightarrow> (False, st)
      | Some t \<Rightarrow> if token_valid w now st t
          then (True, st\<lparr>ts_tokens := (ts_tokens st)(i \<mapsto> t\<lparr>tok_created_at := later\<rparr>)\<rparr>)
          else (False, token_remove i st))"
  by (auto simp: validate_def token_valid_def split: option.splits)

lemma validate_config [simp]:
  "max_token_ttl (snd (validate w now later i st)) = max_token_ttl st"
  "validate_session (snd (validate w now later i st)) = validate_session st"
  by (auto simp: validate_eq split: option.splits)

lemma validate_inv: "token_inv st \<Longrightarrow> token_inv (snd (validate w now later i st))"
  by (auto simp: validate_eq ts.inv_del split: option.splits)
    (auto simp: token_defs)

section \<open>Properties\<close>

text \<open>
  What may happen to a token store apart from issuing a given identifier \<open>i\<close> (the identifiers
  are 16 random bytes): issues of others, validations against any state, collections.
\<close>

inductive token_step :: "bytes \<Rightarrow> 'w token_store \<Rightarrow> 'w token_store \<Rightarrow> bool" for i where
  step_issue: "j \<noteq> i \<Longrightarrow> token_step i st (snd (issue_with_hls j now sid track hls st))"
| step_validate: "token_step i st (snd (validate w now later j st))"
| step_gc: "token_step i st (token_gc now st)"

abbreviation token_steps :: "bytes \<Rightarrow> 'w token_store \<Rightarrow> 'w token_store \<Rightarrow> bool" where
  "token_steps i \<equiv> (token_step i)\<^sup>*\<^sup>*"

text \<open>The part of a token that is fixed when it is issued.\<close>

definition token_core :: "token \<Rightarrow> token" where
  "token_core t = t\<lparr>tok_created_at := 0\<rparr>"

lemma token_gc_get: "token_get (token_gc now st) i =
    (case token_get st i of None \<Rightarrow> None
     | Some t \<Rightarrow> if elapsed now (issued_at t) \<le> max_token_ttl st then Some t else None)"
  by (simp add: token_gc_def token_retain_def token_get_def map_retain_def)

lemma token_gc_config [simp]:
  "max_token_ttl (token_gc now st) = max_token_ttl st"
  "validate_session (token_gc now st) = validate_session st"
  by (simp_all add: token_gc_def)

lemma token_step_core:
  assumes "token_step i st st'" and "token_get st' i = Some t'"
  shows "max_token_ttl st' = max_token_ttl st \<and> (\<exists>t. token_get st i = Some t \<and> token_core t' = token_core t)"
  using assms(1)
proof cases
  case (step_issue j now sid track hls)
  then show ?thesis
    using assms(2) by (simp add: issue_with_hls_def Let_def token_insert_def token_get_def)
next
  case (step_validate w now later j)
  then show ?thesis
    using assms(2)
    by (cases "j = i")
      (auto simp: validate_eq token_get_def token_remove_def token_core_def split: option.splits if_splits)
next
  case (step_gc now)
  then show ?thesis
    using assms(2) by (auto simp: token_gc_get split: option.splits if_splits)
qed

lemma token_steps_core:
  "token_steps i st st' \<Longrightarrow> token_get st' i = Some t' \<Longrightarrow>
     max_token_ttl st' = max_token_ttl st \<and> (\<exists>t. token_get st i = Some t \<and> token_core t' = token_core t)"
proof (induction arbitrary: t' rule: rtranclp_induct)
  case (step st' st'')
  then show ?case using token_step_core [OF step.hyps(2) step.prems] by fastforce
qed blast

text \<open>
  A token is valid exactly when the store has it, it is not older than \<open>max_token_ttl\<close> and the
  session it is bound to passes the validator; validation never touches another token, a
  token that fails is gone, and one that passes keeps everything but \<open>created_at\<close>.
\<close>

theorem validate_spec:
  "(fst (validate w now later i st) \<longleftrightarrow>
      (\<exists>t. token_get st i = Some t \<and> elapsed now (issued_at t) \<le> max_token_ttl st \<and>
         (\<forall>f. validate_session st = Some f \<longrightarrow> f w (tok_session t)))) \<and>
   (\<forall>j. j \<noteq> i \<longrightarrow> token_get (snd (validate w now later i st)) j = token_get st j) \<and>
   (\<not> fst (validate w now later i st) \<longrightarrow> \<not> token_exists i (snd (validate w now later i st))) \<and>
   (fst (validate w now later i st) \<longrightarrow>
      map_option token_core (token_get (snd (validate w now later i st)) i) = map_option token_core (token_get st i))"
  by (auto simp: validate_eq token_valid_def token_exists_def token_core_def token_get_def
      token_remove_def split: option.splits)

theorem validate_spec_witness:
  "\<not> token_exists [1] (snd (validate () (from_secs 7201) 0 [1] (snd (issue [1] 0 7 ''t'' token_store_new)))) \<and>
   fst (validate () (from_secs 7200) 0 [1] (snd (issue [1] 0 7 ''t'' token_store_new)))"
  using validate_spec [of "()" "from_secs 7201" 0 "[1]" "snd (issue [1] 0 7 ''t'' token_store_new)"]
    validate_spec [of "()" "from_secs 7200" 0 "[1]" "snd (issue [1] 0 7 ''t'' token_store_new)"]
  by (simp add: issue_def issue_with_hls_def Let_def token_defs elapsed_def from_secs_def
      DEFAULT_MAX_TOKEN_TTL_def)

text \<open>
  C39. No sliding expiry. Whatever validations, collections and issues of other identifiers come in
  between, a token still in the store has the session, the track, the URL and the issue time it
  was issued with; so it validates at no time later than \<open>max_token_ttl\<close> after it was issued,
  however often it is used.
\<close>

theorem token_lifetime_bounded:
  assumes "issue_with_hls i issued sid track hls st = (tok, st1)" and "token_steps i st1 st2"
    and "fst (validate w now later i st2)"
  shows "elapsed now issued \<le> max_token_ttl st \<and>
    (\<exists>t. token_get st2 i = Some t \<and> token_core t = token_core tok) \<and>
    (\<forall>f. validate_session st2 = Some f \<longrightarrow> f w sid)"
proof -
  have tok: "token_get st1 i = Some tok" "max_token_ttl st1 = max_token_ttl st"
    "issued_at tok = issued" "tok_session tok = sid"
    using assms(1) by (auto simp: issue_with_hls_def Let_def token_insert_def token_get_def)
  obtain t where t: "token_get st2 i = Some t" "token_valid w now st2 t"
    using assms(3) by (auto simp: validate_eq split: option.splits if_splits)
  have core: "max_token_ttl st2 = max_token_ttl st1" "token_core t = token_core tok"
    using token_steps_core [OF assms(2) t(1)] tok(1) by auto
  then have "issued_at t = issued" "tok_session t = sid"
    using tok(3,4) by (cases t, cases tok, simp add: token_core_def)+
  then show ?thesis using t core tok(2) by (auto simp: token_valid_def split: option.splits)
qed

theorem token_lifetime_bounded_witness:
  "elapsed 5 3 \<le> max_token_ttl (token_store_new :: unit token_store)"
proof -
  let ?new = "token_store_new :: unit token_store"
  obtain tok st where i: "issue_with_hls [1] 3 7 ''t'' [] ?new = (tok, st)" by fastforce
  have st: "st = snd (issue_with_hls [1] 3 7 ''t'' [] ?new)" using i by simp
  have "token_steps [1] st (token_gc 4 st)" by (blast intro: token_step.step_gc)
  moreover have "fst (validate () 5 6 [1] (token_gc 4 st))"
    by (simp add: st issue_with_hls_def Let_def token_defs token_gc_def map_retain_def validate_eq
        token_valid_def elapsed_def DEFAULT_MAX_TOKEN_TTL_def from_secs_def)
  ultimately show ?thesis using token_lifetime_bounded [OF i] by blast
qed

text \<open>
  Collection is invisible to validation: at the time of a collection or later, a token
  validates in the collected store exactly when it would have in the store itself, and what the
  collection keeps, it keeps unchanged.
\<close>

theorem token_gc_invisible:
  assumes "gc_time \<le> now"
  shows "fst (validate w now later i (token_gc gc_time st)) = fst (validate w now later i st) \<and>
    (\<forall>t. token_get (token_gc gc_time st) i = Some t \<longrightarrow> token_get st i = Some t)"
  using assms
  by (cases "token_get st i")
    (auto simp: validate_eq token_gc_get token_valid_def elapsed_def split: option.splits if_splits)

theorem token_gc_invisible_witness:
  "fst (validate () 6 7 [1] (token_gc 5 (snd (issue [1] 3 7 ''t'' token_store_new)))) =
   fst (validate () 6 7 [1] (snd (issue [1] 3 7 ''t'' token_store_new)))"
  using token_gc_invisible [of 5 6 "()" 7 "[1]" "snd (issue [1] 3 7 ''t'' token_store_new)"] by simp

end
