(* ===== verification/Hush_Server.thy ===== *)
theory Hush_Server
  imports Hush_Middleware Hush_Media
begin

text \<open>
  \<open>src/server.rs\<close>: the server value with its builders and handler registration, the handshake it
  runs on QUIC and on TCP, the service of one request on a QUIC stream, and the TCP connection
  with its request loop. Several tasks share the session store and the application's state; what
  the others do between two rounds of a connection's loop is an argument (\<open>ob_env\<close>), and so are
  the clock readings and the random nonces. Log output is not modelled.
\<close>

section \<open>The server value\<close>

datatype server_error =
    SvConfig string
  | SvSession session_error
  | SvIo io_error
  | SvQuinn
  | SvTransport string

text \<open>
  A streaming handler gets the request, the stream and the session key, and runs to completion;
  whether its future returns or panics makes no difference to the code around it.
\<close>

type_synonym 's stream_handler = "server_request \<Rightarrow> conn \<Rightarrow> bytes \<Rightarrow> 's \<Rightarrow> conn \<times> 's"

datatype 's handler_type = SyncH "'s sync_handler" | StreamH "'s stream_handler"

text \<open>
  \<open>FrameStream\<close>'s two operations.
\<close>

definition stream_write_response ::
    "crypto \<Rightarrow> bytes \<Rightarrow> conn \<Rightarrow> bytes \<Rightarrow> u32 \<Rightarrow> response \<Rightarrow> (request_error + unit) \<times> conn" where
  "stream_write_response cr nonce c key seq resp =
     (case encode_response_body cr nonce (Some key) resp of
        Err e \<Rightarrow> (Err e, c)
      | Ok body \<Rightarrow> let (r, c') = write_frame_async c seq body in (map_err RFrame r, c'))"

definition stream_read_request ::
    "crypto \<Rightarrow> conn \<Rightarrow> bytes \<Rightarrow> (request_error + (request \<times> u32)) \<times> conn" where
  "stream_read_request cr c key = read_request_async cr c (Some key)"

text \<open>
  The heap of session stores: \<open>Arc<SessionStore>\<close> is an address in it.
\<close>

record heap =
  hp_stores :: "nat \<rightharpoonup> session_store"
  hp_fresh :: nat

definition heap_alloc :: "session_store \<Rightarrow> heap \<Rightarrow> nat \<times> heap" where
  "heap_alloc st h =
     (hp_fresh h, h\<lparr>hp_stores := (hp_stores h)(hp_fresh h \<mapsto> st), hp_fresh := hp_fresh h + 1\<rparr>)"

definition heap_set :: "nat \<Rightarrow> session_store \<Rightarrow> heap \<Rightarrow> heap" where
  "heap_set a st h = h\<lparr>hp_stores := (hp_stores h)(a \<mapsto> st)\<rparr>"

record ('s, 'tls) server =
  sv_handlers :: "u16 \<rightharpoonup> 's handler_type"
  sv_key_store :: "string \<Rightarrow> bytes option"
  sv_sessions :: nat
  sv_next_id :: u64
  sv_priv :: bytes
  sv_pub :: bytes
  sv_tls_config :: "'tls option"
  sv_media_store :: "heap token_store option"
  sv_logger :: "string option"
  sv_session_cfg :: session_config
  sv_middlewares :: "'s middleware list"
  sv_stream_middlewares :: "('s stream_handler \<Rightarrow> 's stream_handler) list"

definition server_new ::
    "crypto \<Rightarrow> bytes \<Rightarrow> (string \<Rightarrow> bytes option) \<Rightarrow> heap \<Rightarrow> ('s, 'tls) server \<times> heap" where
  "server_new cr random key_store h =
     (let server_priv = generate_static_key random;
          server_pub = x25519_public cr server_priv;
          cfg = config_fill default_config;
          (a, h') = heap_alloc (store_new (config_clone cfg)) h
      in (\<lparr>sv_handlers = Map.empty, sv_key_store = key_store, sv_sessions = a, sv_next_id = 1,
           sv_priv = server_priv, sv_pub = server_pub, sv_tls_config = None,
           sv_media_store = None, sv_logger = None, sv_session_cfg = cfg,
           sv_middlewares = [], sv_stream_middlewares = []\<rparr>, h'))"

definition with_tls :: "'tls \<Rightarrow> ('s, 'tls) server \<Rightarrow> ('s, 'tls) server" where
  "with_tls tls sv = sv\<lparr>sv_tls_config := Some tls\<rparr>"

text \<open>\<open>with_media\<close>: the closure captures the address the server has at that moment.\<close>

definition session_known :: "nat \<Rightarrow> heap \<Rightarrow> u64 \<Rightarrow> bool" where
  "session_known a h sid \<longleftrightarrow> (case hp_stores h a of None \<Rightarrow> False | Some st \<Rightarrow> store_get st sid \<noteq> None)"

definition with_media :: "string \<Rightarrow> ('s, 'tls) server \<Rightarrow> ('s, 'tls) server" where
  "with_media base sv =
     (let sessions = sv_sessions sv in sv\<lparr>sv_media_store := Some (with_validator (session_known sessions))\<rparr>)"

definition with_logger :: "string \<Rightarrow> ('s, 'tls) server \<Rightarrow> ('s, 'tls) server" where
  "with_logger logger sv = sv\<lparr>sv_logger := Some logger\<rparr>"

definition with_session_config ::
    "session_config \<Rightarrow> ('s, 'tls) server \<Rightarrow> heap \<Rightarrow> ('s, 'tls) server \<times> heap" where
  "with_session_config cfg sv h =
     (let (a, h') = heap_alloc (store_new (config_clone (config_fill cfg))) h
      in (sv\<lparr>sv_session_cfg := config_fill cfg, sv_sessions := a\<rparr>, h'))"

definition use_middleware :: "'s middleware \<Rightarrow> ('s, 'tls) server \<Rightarrow> ('s, 'tls) server" where
  "use_middleware mw sv = sv\<lparr>sv_middlewares := sv_middlewares sv @ [mw]\<rparr>"

definition use_stream_middleware ::
    "('s stream_handler \<Rightarrow> 's stream_handler) \<Rightarrow> ('s, 'tls) server \<Rightarrow> ('s, 'tls) server" where
  "use_stream_middleware mw sv = sv\<lparr>sv_stream_middlewares := sv_stream_middlewares sv @ [mw]\<rparr>"

definition handle :: "u16 \<Rightarrow> 's sync_handler \<Rightarrow> ('s, 'tls) server \<Rightarrow> ('s, 'tls) server" where
  "handle opcode handler sv =
     sv\<lparr>sv_handlers := (sv_handlers sv)(opcode \<mapsto> SyncH (wrap_handler (sv_middlewares sv) handler))\<rparr>"

definition handle_stream :: "u16 \<Rightarrow> 's stream_handler \<Rightarrow> ('s, 'tls) server \<Rightarrow> ('s, 'tls) server" where
  "handle_stream opcode handler sv =
     sv\<lparr>sv_handlers := (sv_handlers sv)
         (opcode \<mapsto> StreamH (wrap_handler (sv_stream_middlewares sv) handler))\<rparr>"

definition issue_media_token ::
    "bytes \<Rightarrow> instant \<Rightarrow> u64 \<Rightarrow> string \<Rightarrow> ('s, 'tls) server \<Rightarrow> (server_error + token) \<times> ('s, 'tls) server" where
  "issue_media_token random_id now session_id track sv =
     (case sv_media_store sv of
        None \<Rightarrow> (Err (SvConfig ''media support not enabled''), sv)
      | Some store \<Rightarrow>
          let (tok, store') = issue random_id now session_id track store
          in (Ok tok, sv\<lparr>sv_media_store := Some store'\<rparr>))"

definition server_session_store :: "('s, 'tls) server \<Rightarrow> nat" where
  "server_session_store sv = sv_sessions sv"

definition server_media_store :: "('s, 'tls) server \<Rightarrow> heap token_store option" where
  "server_media_store sv = sv_media_store sv"

text \<open>The accept loops draw the session id of a connection with \<open>fetch_add\<close>.\<close>

definition fetch_next_id :: "u64 \<Rightarrow> u64 \<times> u64" where
  "fetch_next_id next_id = (next_id, next_id + 1)"

definition accept_session_id :: "('s, 'tls) server \<Rightarrow> u64 \<times> ('s, 'tls) server" where
  "accept_session_id sv =
     (let (sid, next) = fetch_next_id (sv_next_id sv) in (sid, sv\<lparr>sv_next_id := next\<rparr>))"

section \<open>Handshake\<close>

text \<open>
  Both transports run the same steps and differ in what \<open>?\<close> turns a failed read or write into:
  \<open>read_err\<close> and \<open>write_err\<close>. The tail after the client's key is known is shared by the anonymous
  and the named branch.
\<close>

definition unknown_key :: "string \<Rightarrow> server_error" where
  "unknown_key aid = SvConfig (''unknown api key '' @ [CHR 0x27] @ aid @ [CHR 0x27])"

definition answer_handshake ::
    "(io_error \<Rightarrow> server_error) \<Rightarrow> crypto \<Rightarrow> bytes \<Rightarrow> bytes \<Rightarrow> u64 \<Rightarrow> bytes \<Rightarrow> bytes \<Rightarrow> string \<Rightarrow> conn \<Rightarrow>
       (server_error + (string \<times> bytes)) \<times> conn" where
  "answer_handshake write_err cr server_priv server_pub session_id client_pub api_key_secret aid c =
     (let shared = shared_secret_static cr server_priv client_pub
      in case derive_session_key cr shared api_key_secret of
           Err e \<Rightarrow> (Err (SvSession e), c)
         | Ok session_key \<Rightarrow>
             let resp = server_pub @ u64_to_be session_id;
                 (w, c') = write_all resp c
             in (and_then (map_err write_err w) (\<lambda>_. Ok (aid, session_key)), c'))"

definition server_handshake ::
    "(io_error \<Rightarrow> server_error) \<Rightarrow> (io_error \<Rightarrow> server_error) \<Rightarrow> crypto \<Rightarrow> bytes \<Rightarrow> bytes \<Rightarrow>
       (string \<Rightarrow> bytes option) \<Rightarrow> u64 \<Rightarrow> conn \<Rightarrow> (server_error + (string \<times> bytes)) \<times> conn" where
  "server_handshake read_err write_err cr server_priv server_pub key_store session_id c =
     (case read_exact 2 c of
        (Err e, c1) \<Rightarrow> (Err (read_err e), c1)
      | (Ok header, c1) \<Rightarrow>
          let key_len = unat (u16_from_be header)
          in if key_len > 256 then (Err (SvConfig ''invalid key length''), c1)
             else if key_len = 0 then
               (case read_exact 32 c1 of
                  (Err e, c2) \<Rightarrow> (Err (read_err e), c2)
                | (Ok client_pub, c2) \<Rightarrow>
                    answer_handshake write_err cr server_priv server_pub session_id client_pub
                      (as_bytes ''hush-anonymous'') [] c2)
             else
               (case read_exact (key_len + 32) c1 of
                  (Err e, c2) \<Rightarrow> (Err (read_err e), c2)
                | (Ok key_buf, c2) \<Rightarrow>
                    let aid = from_utf8_lossy (take key_len key_buf)
                    in case to_array32 (SvConfig ''invalid client pubkey'') (drop key_len key_buf) of
                         Err e \<Rightarrow> (Err e, c2)
                       | Ok client_pub \<Rightarrow>
                           (case key_store aid of
                              None \<Rightarrow> (Err (unknown_key aid), c2)
                            | Some api_key_secret \<Rightarrow>
                                answer_handshake write_err cr server_priv server_pub session_id
                                  client_pub api_key_secret aid c2)))"

text \<open>\<open>From<quinn::ReadExactError>\<close> and \<open>From<quinn::WriteError>\<close>; TCP keeps the I/O error.\<close>

definition quic_handshake ::
    "crypto \<Rightarrow> bytes \<Rightarrow> bytes \<Rightarrow> (string \<Rightarrow> bytes option) \<Rightarrow> u64 \<Rightarrow> conn \<Rightarrow>
       (server_error + (string \<times> bytes)) \<times> conn" where
  "quic_handshake = server_handshake (\<lambda>_. SvIo UnexpectedEof) (\<lambda>_. SvIo BrokenPipe)"

definition tcp_handshake ::
    "crypto \<Rightarrow> bytes \<Rightarrow> bytes \<Rightarrow> (string \<Rightarrow> bytes option) \<Rightarrow> u64 \<Rightarrow> conn \<Rightarrow>
       (server_error + (string \<times> bytes)) \<times> conn" where
  "tcp_handshake = server_handshake SvIo SvIo"

text \<open>\<open>Session::new\<close> and \<open>sessions.insert\<close>, once the handshake is done, on both transports.\<close>

definition open_session :: "instant \<Rightarrow> u64 \<Rightarrow> string \<Rightarrow> bytes \<Rightarrow> session_store \<Rightarrow> session_store" where
  "open_session now session_id aid session_key st = store_insert (session_new now session_id aid session_key) st"

section \<open>Serving requests\<close>

text \<open>
  Every reply is written the same way: \<open>if let Ok(body) = encode_response_body(..) { let _ =
  write_frame_async(..) }\<close>; an encoding or a write error is dropped.
\<close>

definition send_response :: "crypto \<Rightarrow> bytes \<Rightarrow> bytes \<Rightarrow> u32 \<Rightarrow> response \<Rightarrow> conn \<Rightarrow> conn" where
  "send_response cr nonce key seq resp c =
     (case encode_response_body cr nonce (Some key) resp of
        Err e \<Rightarrow> c
      | Ok body \<Rightarrow> snd (write_frame_async c seq body))"

definition server_error_response :: "status_code \<Rightarrow> string \<Rightarrow> response" where
  "server_error_response code message =
     \<lparr>resp_status = code, resp_payload = Some (map_set ''error'' (String message) map_new), resp_seq = 0\<rparr>"

definition server_new_response :: "tlv_map \<Rightarrow> response" where
  "server_new_response payload = \<lparr>resp_status = Success, resp_payload = Some payload, resp_seq = 0\<rparr>"

definition expired_response :: response where
  "expired_response = \<lparr>resp_status = SessionExpired, resp_payload = None, resp_seq = 0\<rparr>"

definition not_found_response :: "u16 \<Rightarrow> u32 \<Rightarrow> response" where
  "not_found_response opcode seq =
     \<lparr>resp_status = NotFound, resp_payload = Some (map_set ''opcode'' (Uint16 opcode) map_new), resp_seq = seq\<rparr>"

definition no_streaming_response :: "u32 \<Rightarrow> response" where
  "no_streaming_response seq =
     \<lparr>resp_status = BadRequest,
      resp_payload = Some (map_set ''error'' (String ''streaming not supported over TCP'') map_new),
      resp_seq = seq\<rparr>"

definition request_of :: "request \<Rightarrow> u64 \<Rightarrow> string \<Rightarrow> server_request" where
  "request_of freq session_id api_key =
     \<lparr>sr_opcode = req_opcode freq,
      sr_payload = (case req_payload freq of None \<Rightarrow> map_new | Some m \<Rightarrow> m),
      sr_session_id = session_id, sr_api_key_id = api_key\<rparr>"

text \<open>\<open>is_expired(&sess) || is_idle_dead(&sess)\<close>, which reads the clock twice.\<close>

definition session_dead :: "session_store \<Rightarrow> instant \<Rightarrow> instant \<Rightarrow> session \<Rightarrow> bool" where
  "session_dead st now later sess \<longleftrightarrow> is_expired st now sess \<or> is_idle_dead st later sess"

text \<open>
  \<open>if let Some(mut sess) = sessions.get(session_id) { sess.touch(); }\<close>: \<open>get\<close> returns a clone, so
  the touched session is dropped and the store stays as it is.
\<close>

definition server_touch :: "instant \<Rightarrow> u64 \<Rightarrow> session_store \<Rightarrow> session_store" where
  "server_touch now session_id st =
     (case store_get st session_id of
        None \<Rightarrow> st
      | Some sess \<Rightarrow> let touched = session_touch now sess in st)"

text \<open>How a handler's result is answered, on both transports.\<close>

definition reply_of :: "string + response \<Rightarrow> response" where
  "reply_of result =
     (case result of Ok resp \<Rightarrow> resp
      | Err e \<Rightarrow> server_error_response InternalError ''internal error'')"

subsection \<open>QUIC: one request on its own stream\<close>

text \<open>\<open>sessions.get(session_id).map(|s| s.key.clone()).unwrap_or_default()\<close>\<close>

definition stream_key :: "session_store \<Rightarrow> u64 \<Rightarrow> bytes" where
  "stream_key st session_id = (case store_get st session_id of Some sess \<Rightarrow> sess_key sess | None \<Rightarrow> [])"

text \<open>The part after the key is known: the request, its handler and the answer.\<close>

definition serve_request_stream ::
    "crypto \<Rightarrow> (u16 \<rightharpoonup> 's handler_type) \<Rightarrow> u64 \<Rightarrow> string \<Rightarrow> bytes \<Rightarrow> bytes \<Rightarrow> conn \<Rightarrow> 's \<Rightarrow> conn \<times> 's" where
  "serve_request_stream cr handlers session_id api_key nonce session_key c s =
     (case read_request_async cr c (Some session_key) of
        (Err e, c1) \<Rightarrow>
          (send_response cr nonce session_key 0 (server_error_response BadRequest ''bad request'') c1, s)
      | (Ok (freq, seq), c1) \<Rightarrow>
          (case handlers (req_opcode freq) of
             None \<Rightarrow>
               (send_response cr nonce session_key seq (not_found_response (req_opcode freq) seq) c1, s)
           | Some (StreamH h) \<Rightarrow> h (request_of freq session_id api_key) c1 session_key s
           | Some (SyncH h) \<Rightarrow>
               (case h (request_of freq session_id api_key) s of
                  (Panics, s') \<Rightarrow> (c1, s')
                | (Returns result, s') \<Rightarrow>
                    (send_response cr nonce session_key seq (reply_of result) c1, s'))))"

text \<open>The expiry check, on both transports: the session it refuses.\<close>

definition refused_session :: "session_store \<Rightarrow> instant \<Rightarrow> instant \<Rightarrow> u64 \<Rightarrow> session option" where
  "refused_session st now later session_id =
     (case store_get st session_id of
        Some sess \<Rightarrow> if session_dead st now later sess then Some sess else None
      | None \<Rightarrow> None)"

text \<open>
  \<open>handle_request_stream\<close>. The session store is read at three moments: \<open>st\<close> by the expiry check,
  \<open>st_key\<close> when the key is taken, and a third time by the touch, which has no effect.
\<close>

definition handle_request_stream ::
    "crypto \<Rightarrow> (u16 \<rightharpoonup> 's handler_type) \<Rightarrow> u64 \<Rightarrow> string \<Rightarrow> bytes \<Rightarrow> instant \<Rightarrow> instant \<Rightarrow>
       session_store \<Rightarrow> session_store \<Rightarrow> conn \<Rightarrow> 's \<Rightarrow> conn \<times> 's" where
  "handle_request_stream cr handlers session_id api_key nonce now later st st_key c s =
     (case refused_session st now later session_id of
        Some sess \<Rightarrow> (send_response cr nonce (sess_key sess) 0 expired_response c, s)
      | None \<Rightarrow> serve_request_stream cr handlers session_id api_key nonce (stream_key st_key session_id) c s)"

lemmas handle_request_stream_eq =
  handle_request_stream_def [unfolded refused_session_def stream_key_def serve_request_stream_def]

subsection \<open>TCP: the request loop\<close>

datatype flow = Continue | Break | Unwind

definition tcp_serve ::
    "crypto \<Rightarrow> (u16 \<rightharpoonup> 's handler_type) \<Rightarrow> u64 \<Rightarrow> string \<Rightarrow> bytes \<Rightarrow> bytes \<Rightarrow> conn \<Rightarrow> 's \<Rightarrow>
       flow \<times> conn \<times> 's" where
  "tcp_serve cr handlers session_id api_key session_key nonce c s =
     (case read_request_async cr c (Some session_key) of
        (Err e, c1) \<Rightarrow> (Break, c1, s)
      | (Ok (freq, seq), c1) \<Rightarrow>
          (case handlers (req_opcode freq) of
             None \<Rightarrow>
               (Continue, send_response cr nonce session_key seq (not_found_response (req_opcode freq) seq) c1, s)
           | Some (StreamH h) \<Rightarrow>
               (Continue, send_response cr nonce session_key seq (no_streaming_response seq) c1, s)
           | Some (SyncH h) \<Rightarrow>
               (case h (request_of freq session_id api_key) s of
                  (Panics, s') \<Rightarrow> (Unwind, c1, s')
                | (Returns result, s') \<Rightarrow>
                    (Continue, send_response cr nonce session_key seq (reply_of result) c1, s'))))"

text \<open>
  One round of the loop, with what it observes: the clock, a nonce, and what other tasks did to
  the session store and the application's state since the previous round.
\<close>

record 's observation =
  ob_now :: instant
  ob_later :: instant
  ob_nonce :: bytes
  ob_env :: "session_store \<times> 's \<Rightarrow> session_store \<times> 's"

text \<open>The head of a round: the expiry check, and the touch.\<close>

definition tcp_check ::
    "crypto \<Rightarrow> u64 \<Rightarrow> bytes \<Rightarrow> bytes \<Rightarrow> instant \<Rightarrow> instant \<Rightarrow> session_store \<Rightarrow> conn \<Rightarrow>
       flow \<times> conn \<times> session_store" where
  "tcp_check cr session_id session_key nonce now later st c =
     (case refused_session st now later session_id of
        Some sess \<Rightarrow> (Break, send_response cr nonce session_key 0 expired_response c, st)
      | None \<Rightarrow> (Continue, c, server_touch later session_id st))"

definition tcp_round ::
    "crypto \<Rightarrow> (u16 \<rightharpoonup> 's handler_type) \<Rightarrow> u64 \<Rightarrow> string \<Rightarrow> bytes \<Rightarrow> 's observation \<Rightarrow>
       session_store \<Rightarrow> conn \<Rightarrow> 's \<Rightarrow> flow \<times> conn \<times> session_store \<times> 's" where
  "tcp_round cr handlers session_id api_key session_key ob st0 c s0 =
     (let (st, s) = ob_env ob (st0, s0)
      in case tcp_check cr session_id session_key (ob_nonce ob) (ob_now ob) (ob_later ob) st c of
           (Continue, c1, st1) \<Rightarrow>
             let (fl, c', s') = tcp_serve cr handlers session_id api_key session_key (ob_nonce ob) c1 s
             in (fl, c', st1, s')
         | (fl, c1, st1) \<Rightarrow> (fl, c1, st1, s))"

lemma tcp_round_eq:
  "tcp_round cr handlers session_id api_key session_key ob st0 c s0 =
     (let (st, s) = ob_env ob (st0, s0)
      in case (case store_get st session_id of
                 Some sess \<Rightarrow> session_dead st (ob_now ob) (ob_later ob) sess
               | None \<Rightarrow> False)
         of True \<Rightarrow> (Break, send_response cr (ob_nonce ob) session_key 0 expired_response c, st, s)
          | False \<Rightarrow>
              let st' = server_touch (ob_later ob) session_id st;
                  (fl, c', s') = tcp_serve cr handlers session_id api_key session_key (ob_nonce ob) c s
              in (fl, c', st', s'))"
  by (simp add: tcp_round_def tcp_check_def refused_session_def Let_def split: prod.split option.split)

lemma send_response_in [simp]: "c_in (send_response cr nonce key seq resp c) = c_in c"
  by (auto simp: send_response_def write_frame_async_def Let_def write_all_def
      split: sum.split option.split prod.split)

lemma tcp_serve_consumes:
  assumes "tcp_serve cr handlers sid aid key nonce c s = (Continue, c', s')"
  shows "length (c_in c') < length (c_in c)"
proof -
  obtain freq seq c1 where r: "read_request_async cr c (Some key) = (Ok (freq, seq), c1)"
    and c': "c_in c' = c_in c1"
    using assms
    by (auto simp: tcp_serve_def split: prod.splits sum.splits option.splits handler_type.splits outcome.splits)
  obtain f where "read_frame_async c = (Ok f, c1)"
    using r by (auto simp: read_request_async_def Let_def split: prod.splits sum.splits)
  moreover have "length (c_in c1) < length (c_in c)"
    using calculation by (auto simp: read_frame_async_def Let_def read_exact_def split: if_splits)
  ultimately show ?thesis using c' by simp
qed

lemma tcp_round_consumes:
  "tcp_round cr handlers sid aid key ob st c s = (Continue, c', st', s') \<Longrightarrow> length (c_in c') < length (c_in c)"
  by (auto simp: tcp_round_eq Let_def dest: tcp_serve_consumes split: prod.splits option.splits bool.splits if_splits)

text \<open>The loop ends because a round that continues has read a frame.\<close>

function tcp_loop ::
    "crypto \<Rightarrow> (u16 \<rightharpoonup> 's handler_type) \<Rightarrow> u64 \<Rightarrow> string \<Rightarrow> bytes \<Rightarrow> (nat \<Rightarrow> 's observation) \<Rightarrow> nat \<Rightarrow>
       conn \<Rightarrow> session_store \<Rightarrow> 's \<Rightarrow> flow \<times> conn \<times> session_store \<times> 's" where
  "tcp_loop cr handlers session_id api_key session_key obs n c st s =
     (case tcp_round cr handlers session_id api_key session_key (obs n) st c s of
        (Continue, c', st', s') \<Rightarrow> tcp_loop cr handlers session_id api_key session_key obs (n + 1) c' st' s'
      | (fl, c', st', s') \<Rightarrow> (fl, c', st', s'))"
  by pat_completeness auto

termination tcp_loop
  by (relation "measure (\<lambda>(_, _, _, _, _, _, _, c, _, _). length (c_in c))")
    (auto dest!: tcp_round_consumes [OF sym])

declare tcp_loop.simps [simp del]

text \<open>
  After the loop: \<open>sessions.delete\<close> and \<open>Ok(())\<close>. \<open>None\<close> stands for a task that unwinds from a
  handler's panic: the code after the loop, with its \<open>delete\<close>, does not run.
\<close>

definition tcp_finish ::
    "flow \<Rightarrow> u64 \<Rightarrow> conn \<Rightarrow> session_store \<Rightarrow> 's \<Rightarrow> (server_error + unit) option \<times> conn \<times> session_store \<times> 's" where
  "tcp_finish fl session_id c st s =
     (case fl of
        Unwind \<Rightarrow> (None, c, st, s)
      | _ \<Rightarrow> (Some (Ok ()), c, store_delete session_id st, s))"

definition handle_tcp_connection ::
    "crypto \<Rightarrow> (u16 \<rightharpoonup> 's handler_type) \<Rightarrow> (string \<Rightarrow> bytes option) \<Rightarrow> bytes \<Rightarrow> bytes \<Rightarrow> u64 \<Rightarrow> instant \<Rightarrow>
       (nat \<Rightarrow> 's observation) \<Rightarrow> conn \<Rightarrow> session_store \<Rightarrow> 's \<Rightarrow>
       (server_error + unit) option \<times> conn \<times> session_store \<times> 's" where
  "handle_tcp_connection cr handlers key_store server_priv server_pub session_id now obs c st s =
     (case tcp_handshake cr server_priv server_pub key_store session_id c of
        (Err e, c1) \<Rightarrow> (Some (Err e), c1, st, s)
      | (Ok (aid, session_key), c1) \<Rightarrow>
          let st1 = open_session now session_id aid session_key st
          in case tcp_loop cr handlers session_id aid session_key obs 0 c1 st1 s of
               (fl, c2, st2, s2) \<Rightarrow> tcp_finish fl session_id c2 st2 s2)"

lemma handle_tcp_connection_eq:
  "handle_tcp_connection cr handlers key_store server_priv server_pub session_id now obs c st s =
     (case tcp_handshake cr server_priv server_pub key_store session_id c of
        (Err e, c1) \<Rightarrow> (Some (Err e), c1, st, s)
      | (Ok (aid, session_key), c1) \<Rightarrow>
          let st1 = store_insert (session_new now session_id aid session_key) st
          in case tcp_loop cr handlers session_id aid session_key obs 0 c1 st1 s of
               (Unwind, c2, st2, s2) \<Rightarrow> (None, c2, st2, s2)
             | (_, c2, st2, s2) \<Rightarrow> (Some (Ok ()), c2, store_delete session_id st2, s2))"
  by (simp add: handle_tcp_connection_def tcp_finish_def open_session_def Let_def split: sum.split prod.split flow.split)

end
