(* ===== verification/Hush_Client.thy ===== *)
theory Hush_Client
  imports Hush_Frame
begin

text \<open>
  \<open>src/client.rs\<close>: the client's side of the handshake on QUIC and TCP, its request/response
  exchange and the start of a stream. The connection dialled is an argument (dialling is the
  transport's), as are the random bytes and the clock. The exchange of \<open>do_\<close> holds the stream
  from the write to the end of the read, so it is one step.
\<close>

datatype client_error =
    ClTransport string
  | ClSession session_error
  | ClFrame frame_error
  | ClRequest request_error
  | ClQuinn
  | ClNegotiate string
  | ClNegotiateIo string io_error  \<comment> \<open>\<open>Negotiate(format!("<what>: {}", e))\<close>\<close>
  | ClIo io_error

record client =
  cl_session :: session
  cl_seq :: u32
  cl_session_key :: bytes

section \<open>Dialling\<close>

text \<open>
  The handshake. QUIC and TCP send the same bytes and differ in the error of a failed write
  (\<open>write_err\<close>) and the text of a failed read (\<open>read_what\<close>).
\<close>

definition client_finish ::
    "string \<Rightarrow> crypto \<Rightarrow> bytes \<Rightarrow> bytes \<Rightarrow> string \<Rightarrow> conn \<Rightarrow> (client_error + (bytes \<times> u64 \<times> string)) \<times> conn" where
  "client_finish read_what cr secret api_key_secret kid c =
     (case read_exact (32 + 8) c of
        (Err e, c') \<Rightarrow> (Err (ClNegotiateIo read_what e), c')
      | (Ok resp, c') \<Rightarrow>
          (and_then (to_array32 (ClNegotiate ''invalid server pubkey'') (take 32 resp)) (\<lambda>server_pub.
             let sid = u64_from_be (drop 32 resp);
                 shared = shared_secret cr secret server_pub
             in and_then (map_err ClSession (derive_session_key cr shared api_key_secret)) (\<lambda>key.
                  Ok (key, sid, kid))), c'))"

definition client_handshake ::
    "(io_error \<Rightarrow> client_error) \<Rightarrow> string \<Rightarrow> crypto \<Rightarrow> bytes \<Rightarrow> api_key \<Rightarrow> conn \<Rightarrow>
       (client_error + (bytes \<times> u64 \<times> string)) \<times> conn" where
  "client_handshake write_err read_what cr random key c =
     (let (secret, pub_bytes) = generate_key_pair cr random
      in if ak_id key = [] then
           let buf = u16_to_be 0 @ pub_bytes
           in case write_all buf c of
                (Err e, c1) \<Rightarrow> (Err (write_err e), c1)
              | (Ok _, c1) \<Rightarrow> client_finish read_what cr secret (as_bytes ''hush-anonymous'') [] c1
         else
           let key_id_bytes = as_bytes (ak_id key);
               buf = u16_to_be (word_of_nat (length key_id_bytes)) @ key_id_bytes @ pub_bytes
           in case write_all buf c of
                (Err e, c1) \<Rightarrow> (Err (write_err e), c1)
              | (Ok _, c1) \<Rightarrow> client_finish read_what cr secret (ak_secret key) (ak_id key) c1)"

definition dialled :: "instant \<Rightarrow> bytes \<times> u64 \<times> string \<Rightarrow> client" where
  "dialled now r = (case r of (session_key, session_id, kid) \<Rightarrow>
     \<lparr>cl_session = session_new now session_id kid session_key, cl_seq = 0, cl_session_key = session_key\<rparr>)"

definition client_dial ::
    "crypto \<Rightarrow> bytes \<Rightarrow> instant \<Rightarrow> api_key \<Rightarrow> conn \<Rightarrow> (client_error + client) \<times> conn" where
  "client_dial cr random now key c =
     (let (r, c') = client_handshake (\<lambda>e. ClNegotiateIo ''write'' e) ''read handshake resp'' cr random key c
      in (and_then r (\<lambda>x. Ok (dialled now x)), c'))"

definition client_dial_tcp ::
    "crypto \<Rightarrow> bytes \<Rightarrow> instant \<Rightarrow> api_key \<Rightarrow> conn \<Rightarrow> (client_error + client) \<times> conn" where
  "client_dial_tcp cr random now key c =
     (let (r, c') = client_handshake ClIo ''read tcp handshake'' cr random key c
      in (and_then r (\<lambda>x. Ok (dialled now x)), c'))"

section \<open>Requests\<close>

text \<open>\<open>seq.fetch_add(1)\<close> returns the old value and wraps around.\<close>

definition next_seq :: "client \<Rightarrow> u32 \<times> client" where
  "next_seq cl = (cl_seq cl, cl\<lparr>cl_seq := cl_seq cl + 1\<rparr>)"

definition encode_call ::
    "crypto \<Rightarrow> bytes \<Rightarrow> client \<Rightarrow> u32 \<Rightarrow> u16 \<Rightarrow> tlv_map option \<Rightarrow> client_error + bytes" where
  "encode_call cr nonce cl seq opcode payload =
     and_then (map_err ClRequest (encode_request_body cr nonce (Some (cl_session_key cl))
        \<lparr>req_opcode = opcode, req_payload = payload\<rparr>)) (\<lambda>req_body.
       map_err ClFrame (encode_frame seq req_body))"

text \<open>The reading half: a frame's length, the rest of it, and the response in it.\<close>

definition read_reply :: "crypto \<Rightarrow> client \<Rightarrow> conn \<Rightarrow> (client_error + response) \<times> conn" where
  "read_reply cr cl c =
     (case read_exact 4 c of
        (Err e, c1) \<Rightarrow> (Err (ClIo UnexpectedEof), c1)
      | (Ok len_buf, c1) \<Rightarrow>
          let frame_len = u32_from_be len_buf
          in if frame_len > MAX_FRAME_SIZE
             then (Err (ClFrame (FTooLarge frame_len MAX_FRAME_SIZE)), c1)
             else case read_exact (unat frame_len) c1 of
                    (Err e, c2) \<Rightarrow> (Err (ClIo UnexpectedEof), c2)
                  | (Ok rest, c2) \<Rightarrow>
                      (map_err ClRequest (decode_response cr (Some (cl_session_key cl)) rest), c2))"

text \<open>\<open>do_tcp\<close> on the connection's stream; \<open>do_quinn\<close> on a stream opened for the request.\<close>

definition do_tcp ::
    "crypto \<Rightarrow> bytes \<Rightarrow> u16 \<Rightarrow> tlv_map option \<Rightarrow> client \<Rightarrow> conn \<Rightarrow> (client_error + response) \<times> client \<times> conn" where
  "do_tcp cr nonce opcode payload cl c =
     (let (seq, cl') = next_seq cl
      in case encode_call cr nonce cl seq opcode payload of
           Err e \<Rightarrow> (Err e, cl', c)
         | Ok frame_bytes \<Rightarrow>
             (case write_all frame_bytes c of
                (Err e, c1) \<Rightarrow> (Err (ClIo e), cl', c1)
              | (Ok _, c1) \<Rightarrow> let (r, c2) = read_reply cr cl c1 in (r, cl', c2)))"

definition do_quinn ::
    "crypto \<Rightarrow> bytes \<Rightarrow> u16 \<Rightarrow> tlv_map option \<Rightarrow> client \<Rightarrow> conn option \<Rightarrow>
       (client_error + response) \<times> client \<times> conn option" where
  "do_quinn cr nonce opcode payload cl opened =
     (let (seq, cl') = next_seq cl
      in case opened of
           None \<Rightarrow> (Err ClQuinn, cl', None)
         | Some c \<Rightarrow>
             (case encode_call cr nonce cl seq opcode payload of
                Err e \<Rightarrow> (Err e, cl', Some c)
              | Ok frame_bytes \<Rightarrow>
                  (case write_all frame_bytes c of
                     (Err e, c1) \<Rightarrow> (Err (ClNegotiateIo ''write'' e), cl', Some c1)
                   | (Ok _, c1) \<Rightarrow> let (r, c2) = read_reply cr cl c1 in (r, cl', Some c2))))"

datatype transport = Quinn "conn option" | Tcp conn

definition client_do ::
    "crypto \<Rightarrow> bytes \<Rightarrow> u16 \<Rightarrow> tlv_map option \<Rightarrow> client \<Rightarrow> transport \<Rightarrow>
       (client_error + response) \<times> client \<times> transport" where
  "client_do cr nonce opcode payload cl t =
     (case t of
        Quinn opened \<Rightarrow> (case do_quinn cr nonce opcode payload cl opened of (r, cl', c') \<Rightarrow> (r, cl', Quinn c'))
      | Tcp c \<Rightarrow> (case do_tcp cr nonce opcode payload cl c of (r, cl', c') \<Rightarrow> (r, cl', Tcp c')))"

definition client_session_id :: "client \<Rightarrow> u64" where
  "client_session_id cl = sess_id (cl_session cl)"

text \<open>
  \<open>start_stream\<close>: the request is written and the reading side is handed to the caller.
\<close>

definition start_stream ::
    "crypto \<Rightarrow> bytes \<Rightarrow> u16 \<Rightarrow> tlv_map option \<Rightarrow> client \<Rightarrow> transport \<Rightarrow>
       (client_error + conn) \<times> client \<times> transport" where
  "start_stream cr nonce opcode payload cl t =
     (let (seq, cl') = next_seq cl
      in case encode_call cr nonce cl seq opcode payload of
           Err e \<Rightarrow> (Err e, cl', t)
         | Ok frame_bytes \<Rightarrow>
             (case t of
                Quinn None \<Rightarrow> (Err ClQuinn, cl', t)
              | Quinn (Some c) \<Rightarrow>
                  (case write_all frame_bytes c of
                     (Err e, c1) \<Rightarrow> (Err (ClNegotiateIo ''write'' e), cl', Quinn (Some c1))
                   | (Ok _, c1) \<Rightarrow> (Ok c1, cl', Quinn (Some c1)))
              | Tcp c \<Rightarrow>
                  (case write_all frame_bytes c of
                     (Err e, c1) \<Rightarrow> (Err (ClIo e), cl', Tcp c1)
                   | (Ok _, c1) \<Rightarrow> (Ok c1, cl', Tcp c1))))"

text \<open>The accessors for manual frame I/O.\<close>

definition get_session_key :: "client \<Rightarrow> bytes" where
  "get_session_key cl = cl_session_key cl"

definition get_quinn_connection :: "transport \<Rightarrow> conn option option" where
  "get_quinn_connection t = (case t of Quinn conn \<Rightarrow> Some conn | Tcp c \<Rightarrow> None)"

definition open_bi_stream :: "transport \<Rightarrow> client_error + conn" where
  "open_bi_stream t =
     (case t of
        Quinn None \<Rightarrow> Err ClQuinn
      | Quinn (Some c) \<Rightarrow> Ok c
      | Tcp c \<Rightarrow> Err (ClNegotiate ''use start_stream() for TCP streaming''))"

end
