(* ===== verification/Hush_Session_Facts.thy ===== *)
theory Hush_Session_Facts
  imports Hush_Session
begin

text \<open>
  Facts about \<open>src/session.rs\<close>: the session and key stores as instances of the store
  interfaces, the frame cipher under the documented behaviour of the primitives, expiry and
  collection, and the agreement of the two sides of the handshake. \<open>toy_crypto\<close> is a concrete
  \<open>crypto\<close> satisfying the assumptions, used to show that they can hold.
\<close>

section \<open>The stores\<close>

text \<open>The invariant of the session store: every session is filed under its own id.\<close>

definition store_inv :: "session_store \<Rightarrow> bool" where
  "store_inv st \<longleftrightarrow> (\<forall>i s. ss_sessions st i = Some s \<longrightarrow> sess_id s = i)"

lemmas store_defs = store_new_def store_insert_def store_get_def store_delete_def store_retain_def
  store_gc_def store_inv_def

interpretation ss: keyed_gc_store store_get "store_new cfg" store_inv sess_id store_insert
    store_delete store_retain
  for cfg
  by unfold_locales
    (auto simp: store_defs fun_eq_iff map_retain_def split: option.splits if_splits)

interpretation ks: kv_store key_store_get key_store_new "\<lambda>_. True" key_store_insert
  by unfold_locales (auto simp: key_store_get_def key_store_new_def key_store_insert_def)

lemma store_config [simp]:
  "ss_config (store_insert s st) = ss_config st"
  "ss_config (store_delete i st) = ss_config st"
  "ss_config (store_retain P st) = ss_config st"
  "ss_config (store_gc now st) = ss_config st"
  "ss_config (store_new cfg) = cfg"
  by (simp_all add: store_defs)

lemma store_gc_get:
  "store_inv st \<Longrightarrow> store_get (store_gc now st) i =
     (case store_get st i of None \<Rightarrow> None
      | Some s \<Rightarrow> if is_expired st now s then None else Some s)"
  by (auto simp: store_gc_def ss.lookup_retain is_expired_def not_less split: option.splits)

lemma store_gc_inv: "store_inv st \<Longrightarrow> store_inv (store_gc now st)"
  by (simp add: store_gc_def ss.inv_retain)

section \<open>The frame cipher\<close>

definition good_key :: "bytes \<Rightarrow> bool" where
  "good_key k \<longleftrightarrow> length k = KEY_SIZE"

definition good_nonce :: "bytes \<Rightarrow> bool" where
  "good_nonce n \<longleftrightarrow> length n = NONCE_SIZE"

text \<open>The assumptions on the cipher, one by one.\<close>

lemma aead_new: "aead_ok cr \<Longrightarrow> aes_new cr k \<longleftrightarrow> good_key k"
  unfolding aead_ok_def good_key_def by blast

lemma aead_total:
  "aead_ok cr \<Longrightarrow> good_key k \<Longrightarrow> good_nonce n \<Longrightarrow> length p \<le> 2 ^ 36 \<Longrightarrow> \<exists>c. aes_seal cr k n p = Some c"
  unfolding aead_ok_def good_key_def good_nonce_def by blast

lemma aead_seal_open:
  "aead_ok cr \<Longrightarrow> good_key k \<Longrightarrow> good_nonce n \<Longrightarrow> aes_seal cr k n p = Some c \<Longrightarrow>
     length c = length p + 16 \<and> aes_open cr k n c = Some p"
  unfolding aead_ok_def good_key_def good_nonce_def TAG_SIZE_def by blast

lemma aead_open_seal:
  "aead_ok cr \<Longrightarrow> good_key k \<Longrightarrow> good_nonce n \<Longrightarrow> aes_open cr k n c = Some p \<Longrightarrow>
     aes_seal cr k n p = Some c"
  unfolding aead_ok_def good_key_def good_nonce_def by blast

lemma encrypt_Ok:
  assumes "aead_ok cr" "good_key k" "good_nonce n" "encrypt cr n k p = Ok c"
  shows "length c = length p + 28" "take 12 c = n" "decrypt cr k c = Ok p"
proof -
  obtain ct where ct: "aes_seal cr k n p = Some ct" "c = n @ ct"
    using assms(4) by (auto simp: encrypt_def split: if_splits option.splits)
  have n: "length n = 12" using assms(3) by (simp add: good_nonce_def)
  note o = aead_seal_open [OF assms(1-3) ct(1)]
  show "length c = length p + 28" "take 12 c = n" using o ct(2) n by simp_all
  show "decrypt cr k c = Ok p"
    using o ct(2) n aead_new [OF assms(1), of k] assms(2) by (simp add: decrypt_def)
qed

lemma encrypt_total:
  assumes "aead_ok cr" "good_key k" "good_nonce n" "length p \<le> 2 ^ 36"
  shows "\<exists>c. encrypt cr n k p = Ok c"
  using aead_total [OF assms] aead_new [OF assms(1), of k] assms(2) by (auto simp: encrypt_def)

lemma decrypt_genuine:
  assumes "aead_ok cr" "good_key k" "decrypt cr k d = Ok p"
  shows "good_nonce (take 12 d) \<and> encrypt cr (take 12 d) k p = Ok d"
proof -
  have len: "28 \<le> length d" and o: "aes_open cr k (take 12 d) (drop 12 d) = Some p"
    using assms(3) by (auto simp: decrypt_def split: if_splits)
  then have n: "good_nonce (take 12 d)" by (simp add: good_nonce_def)
  show ?thesis
    using aead_open_seal [OF assms(1,2) n o] aead_new [OF assms(1), of k] assms(2) n
    by (simp add: encrypt_def)
qed

lemma bad_key_length:
  assumes "aead_ok cr" "\<not> good_key k"
  shows "encrypt cr n k p = Err (Aes ''invalid key length'')" "\<not> is_ok (decrypt cr k d)"
  using aead_new [OF assms(1), of k] assms(2) by (auto simp: encrypt_def decrypt_def)

lemma derive_session_key_Ok: "hkdf_ok cr \<Longrightarrow> \<exists>k. derive_session_key cr s a = Ok k \<and> good_key k"
  unfolding hkdf_ok_def derive_session_key_def good_key_def
  by (erule allE [of _ s], erule allE [of _ a], erule allE [of _ "as_bytes ''hush-v1-key''"],
      erule allE [of _ KEY_SIZE]) auto

section \<open>Handshake\<close>

text \<open>The client's first message, as either handshake sends it.\<close>

definition hello :: "string \<Rightarrow> bytes \<Rightarrow> bytes" where
  "hello kid pub = u16_to_be (word_of_nat (length kid)) @ as_bytes kid @ pub"

lemma negotiate_client_writes:
  "c_cap c = None \<Longrightarrow> c_out (snd (negotiate_client cr r now key c)) =
     c_out c @ hello (ak_id key) (x25519_public cr r)"
  by (auto simp: negotiate_client_def generate_key_pair_def write_all_def hello_def Let_def
      read_exact_def split: prod.splits sum.splits)

lemma negotiate_client_reads:
  assumes "c_cap c = None" "c_in c = pub @ u64_to_be sid @ rest" "length pub = 32"
    and "derive_session_key cr (x25519 cr r pub) (ak_secret key) = Ok k"
  shows "fst (negotiate_client cr r now key c) = Ok (session_new now sid (ak_id key) k)"
  using assms
  by (simp add: negotiate_client_def generate_key_pair_def write_all_def Let_def read_exact_def
      to_array32_def shared_secret_def)

lemma unat_key_len: "length kid \<le> 256 \<Longrightarrow> unat (word_of_nat (length kid) :: u16) = length kid"
  by (simp only: unat_of_nat) simp

lemma negotiate_server_hello:
  assumes "c_in c = hello kid pub @ rest" and "length pub = 32" "kid \<noteq> []" "length kid \<le> 256"
    and "rust_string kid" "key_store kid = Some secret" "c_cap c = None"
    and "derive_session_key cr (x25519 cr priv pub) secret = Ok k"
  shows "negotiate_server cr priv spub key_store sid now c =
    (Ok (session_new now sid kid k), c\<lparr>c_in := rest, c_out := c_out c @ spub @ u64_to_be sid\<rparr>)"
  using assms
  by (simp add: negotiate_server_def hello_def read_exact_def Let_def unat_key_len
      to_array32_def shared_secret_def write_all_def)

text \<open>The bytes of a hello, recovered from what the server has read.\<close>

lemma hello_read:
  assumes "2 \<le> length b" "n = unat (u16_from_be (take 2 b))" "n + 32 \<le> length (drop 2 b)"
    and "as_bytes kid = take n (drop 2 b)"
  shows "b = hello kid (take 32 (drop n (drop 2 b))) @ drop (n + 32) (drop 2 b)"
    and "length kid = n" "length (take 32 (drop n (drop 2 b))) = 32"
proof -
  have "length (as_bytes kid) = n" using assms(3,4) by simp
  then show n: "length kid = n" by simp
  have h: "u16_to_be (word_of_nat n) = take 2 b"
    using assms(1,2) be16.enc_dec [of "take 2 b"] by simp
  have "drop 2 b = take n (drop 2 b) @ take 32 (drop n (drop 2 b)) @ drop (n + 32) (drop 2 b)"
    by (metis append_take_drop_id drop_drop add.commute)
  then show "b = hello kid (take 32 (drop n (drop 2 b))) @ drop (n + 32) (drop 2 b)"
    unfolding hello_def n h assms(4) by (metis append_assoc append_take_drop_id)
  show "length (take 32 (drop n (drop 2 b))) = 32" using assms(3) by simp
qed

section \<open>A concrete instance of the primitives\<close>

definition toy_public :: "bytes \<Rightarrow> bytes" where
  "toy_public s = take 32 (s @ replicate 32 0)"

definition toy_crypto :: crypto where
  "toy_crypto =
     \<lparr>aes_new = (\<lambda>k. length k = 32),
      aes_seal = (\<lambda>k n p. Some (p @ take 16 k)),
      aes_open = (\<lambda>k n c. if 16 \<le> length c \<and> drop (length c - 16) c = take 16 k
                          then Some (take (length c - 16) c) else None),
      hkdf_sha256 = (\<lambda>salt ikm info n. if n \<le> 255 * 32
                          then Some (take n (salt @ ikm @ info @ replicate n 0)) else None),
      x25519_public = toy_public,
      x25519 = (\<lambda>a p. map2 (XOR) (toy_public a) p)\<rparr>"

lemma length_toy_public [simp]: "length (toy_public s) = 32"
  by (simp add: toy_public_def)

lemma toy_public_nonempty [simp]: "toy_public s \<noteq> []"
  using length_toy_public [of s] by (metis list.size(3) zero_neq_numeral)

lemma toy_aead_ok: "aead_ok toy_crypto"
  by (auto simp: aead_ok_def toy_crypto_def split: if_splits) (metis append_take_drop_id)

lemma toy_hkdf_ok: "hkdf_ok toy_crypto"
  by (auto simp: hkdf_ok_def toy_crypto_def)

lemma map2_xor_commute: "map2 (XOR) a b = map2 (XOR) b (a :: u8 list)"
  by (induction a b rule: list_induct2') (auto simp: xor.commute)

lemma toy_dh_ok: "dh_ok toy_crypto"
  by (auto simp: dh_ok_def toy_crypto_def map2_xor_commute)

end
