(* ===== verification/Hush_Frame_Facts.thy ===== *)
theory Hush_Frame_Facts
  imports Hush_Frame Hush_Session_Facts
begin

text \<open>
  Facts about \<open>src/frame.rs\<close>. The message layer is stated over two interfaces: a payload codec
  (which the TLV map provides) and a body cipher (which the optional encryption provides); the
  round trip of a message is proved once over both, and used for requests and responses.
\<close>

section \<open>Interfaces\<close>

locale payload_codec =
  fixes enc :: "'m \<Rightarrow> bytes"
    and dec :: "bytes \<Rightarrow> 'm option"
    and sendable :: "'m \<Rightarrow> bool"
  assumes dec_enc: "sendable m \<Longrightarrow> dec (enc m) = Some m"
    and enc_nonempty: "enc m \<noteq> []"
begin

abbreviation enc_opt :: "'m option \<Rightarrow> bytes" where
  "enc_opt x \<equiv> (case x of None \<Rightarrow> [] | Some m \<Rightarrow> enc m)"

abbreviation dec_opt :: "bytes \<Rightarrow> 'm option" where
  "dec_opt b \<equiv> (if b = [] then None else dec b)"

lemma dec_opt_enc_opt: "(\<And>m. x = Some m \<Longrightarrow> sendable m) \<Longrightarrow> dec_opt (enc_opt x) = x"
  by (cases x) (auto simp: dec_enc enc_nonempty)

lemma enc_inject: "sendable m \<Longrightarrow> sendable n \<Longrightarrow> enc m = enc n \<Longrightarrow> m = n"
  by (metis dec_enc option.inject)

end

locale body_cipher =
  fixes seal :: "'n \<Rightarrow> 'k \<Rightarrow> bytes \<Rightarrow> 'e + bytes"
    and unseal :: "'k \<Rightarrow> bytes \<Rightarrow> 'e + bytes"
    and good :: "'n \<Rightarrow> 'k \<Rightarrow> bool"
  assumes unseal_seal: "good n k \<Longrightarrow> seal n k p = Ok c \<Longrightarrow> unseal k c = Ok p"
begin

lemma seal_inject:
  "good n k \<Longrightarrow> good n' k \<Longrightarrow> seal n k p = Ok c \<Longrightarrow> seal n' k p' = Ok c \<Longrightarrow> p = p'"
  using unseal_seal by (metis sum.inject(2))

end

text \<open>A message is a header of fixed length, then an optional payload, sealed.\<close>

locale message_layer =
  payload_codec enc dec sendable + body_cipher seal unseal good
  for enc :: "'m \<Rightarrow> bytes" and dec sendable
    and seal :: "'n \<Rightarrow> 'k \<Rightarrow> bytes \<Rightarrow> 'e + bytes" and unseal good
begin

lemma message_opens:
  assumes "good n k" "\<And>m. x = Some m \<Longrightarrow> sendable m" "seal n k (hdr @ enc_opt x) = Ok c"
  shows "unseal k c = Ok (hdr @ enc_opt x)" and "dec_opt (enc_opt x) = x"
  using unseal_seal [OF assms(1,3)] dec_opt_enc_opt [OF assms(2)] by blast+

end

section \<open>The providers\<close>

definition map_fits :: "tlv_map \<Rightarrow> bool" where
  "map_fits m \<longleftrightarrow> wf_map m \<and> ms_exact (Map m) \<and> fits 0 (Map m)"

text \<open>A bound on the encoded length that the simplifier computes, and so a way to show \<open>map_fits\<close>.\<close>

fun tlv_cost :: "tlv_value \<Rightarrow> nat" where
  "tlv_cost (String s) = length s"
| "tlv_cost (Bytes b) = length b"
| "tlv_cost (Array vs) = sum_list (map (\<lambda>v. tlv_cost v + 11) vs)"
| "tlv_cost (Map m) = sum_list (map (\<lambda>(k, v). length k + tlv_cost v + 22) m)"
| "tlv_cost v = 8"

lemma length_tlv_body_le: "length (tlv_body v) \<le> tlv_cost v"
proof (induction v rule: tlv_cost.induct)
  case (3 vs)
  have "length (tlv v) \<le> tlv_cost v + 11" if "v \<in> set vs" for v
    using 3 [OF that] length_tlv_le [of v] by linarith
  then show ?case by (induction vs) (auto intro: add_mono)
next
  case (4 m)
  have e: "length (tlv (String k)) + length (tlv v) \<le> length k + tlv_cost v + 22" if "(k, v) \<in> set m" for k v
    using 4 [OF that refl] length_tlv_le [of v] length_tlv_le [of "String k"] by simp
  have "length (tlv_body (Map n)) \<le> sum_list (map (\<lambda>(k, v). length k + tlv_cost v + 22) n)" if "set n \<subseteq> set m" for n
    using that
  proof (induction n)
    case (Cons x n)
    then show ?case using e [of "fst x" "snd x"] by (cases x) simp
  qed simp
  then show ?case by simp
qed simp_all

lemma map_fitsI:
  assumes "wf_value (Map m)" "ms_exact (Map m)" "vdepth (Map m) \<le> 64" "tlv_cost (Map m) \<le> 524288"
  shows "map_fits m"
  using assms length_tlv_body_le [of "Map m"] by (simp add: map_fits_def wf_map_def fits_def MAX_DECODE_DEPTH_def del: wf_value.simps)

text \<open>Encryption is off, or the primitives, the key and the nonce are as documented.\<close>

definition sealing_ok :: "crypto \<Rightarrow> bytes \<Rightarrow> bytes option \<Rightarrow> bool" where
  "sealing_ok cr nonce key \<longleftrightarrow>
     (case key of None \<Rightarrow> True | Some k \<Rightarrow> aead_ok cr \<and> good_key k \<and> good_nonce nonce)"

interpretation tlv_payload: payload_codec encode_map decode_map_opt map_fits
proof unfold_locales
  fix m
  show "encode_map m \<noteq> []" by (simp add: encode_map_eq)
  then show "decode_map_opt (encode_map m) = Some m" if "map_fits m"
    using that decode_encode_fits [of "Map m" "[]"]
    by (simp add: decode_map_opt_def decode_map_def map_fits_def wf_map_def encode_map_def)
qed

interpretation cipher: body_cipher "seal_body cr" "open_body cr" "sealing_ok cr" for cr
  by unfold_locales
    (auto simp: seal_body_def open_body_def sealing_ok_def dest: encrypt_Ok(3) split: option.splits)

interpretation msg: message_layer encode_map decode_map_opt map_fits
    "seal_body cr" "open_body cr" "sealing_ok cr" for cr
  by unfold_locales

lemma seal_body_length:
  "sealing_ok cr n key \<Longrightarrow> seal_body cr n key p = Ok c \<Longrightarrow> length c \<le> length p + 28"
  by (auto simp: seal_body_def sealing_ok_def dest: encrypt_Ok(1) split: option.splits)

lemma seal_body_total:
  "sealing_ok cr n key \<Longrightarrow> length p \<le> 2 ^ 36 \<Longrightarrow> \<exists>c. seal_body cr n key p = Ok c"
  using encrypt_total [of cr _ n p]
  by (auto simp: seal_body_def sealing_ok_def split: option.splits)

section \<open>Frames\<close>

lemma unat_MAX_FRAME [simp]: "unat MAX_FRAME_SIZE = 1048576"
  by (simp add: MAX_FRAME_SIZE_def push_bit_eq_mult)

lemma unat_FRAME_MIN [simp]: "unat FRAME_MIN_DATA = 4"
  by (simp add: FRAME_MIN_DATA_def)

lemma total_len:
  assumes "length d + 4 < 2 ^ 32"
  shows "unat (4 + word_of_nat (length d) :: u32) = length d + 4"
proof -
  have "4 + word_of_nat (length d) = (word_of_nat (length d + 4) :: u32)" by simp
  then show ?thesis using assms by (simp only: unat_of_nat) simp
qed

definition frame_bytes :: "u32 \<Rightarrow> bytes \<Rightarrow> bytes" where
  "frame_bytes seq d = u32_to_be (4 + word_of_nat (length d)) @ u32_to_be seq @ d"

text \<open>All three writers write this frame, under the same bound.\<close>

lemma encode_frame_eq:
  "encode_frame seq d =
     (if 4 + word_of_nat (length d) > MAX_FRAME_SIZE
      then Err (FTooLarge (4 + word_of_nat (length d)) MAX_FRAME_SIZE)
      else Ok (frame_bytes seq d))"
  by (simp add: encode_frame_def frame_bytes_def Let_def)

lemma write_frame_eq:
  "write_frame_async w seq d =
     (case encode_frame seq d of Err e \<Rightarrow> (Err e, w)
      | Ok b \<Rightarrow> let (r, w') = write_all b w in (map_err FIo r, w'))"
  "write_frame w seq d = write_frame_async w seq d"
  by (simp_all add: write_frame_async_def write_frame_def encode_frame_def Let_def)

lemma read_frame_eq: "read_frame r = read_frame_async r"
  by (simp add: read_frame_def read_frame_async_def)

lemma encode_frame_Ok_iff:
  assumes "length d + 4 < 2 ^ 32"
  shows "encode_frame seq d = Ok b \<longleftrightarrow> length d + 4 \<le> 1048576 \<and> b = frame_bytes seq d"
  using total_len [OF assms] by (auto simp: encode_frame_eq word_less_nat_alt)

lemma length_frame_bytes [hush_len]: "length (frame_bytes seq d) = length d + 8"
  by (simp add: frame_bytes_def)

lemma read_frame_bytes:
  assumes "length d + 4 \<le> 1048576" and "c_in r = frame_bytes seq d @ rest"
  shows "read_frame_async r = (Ok \<lparr>frame_seq = seq, frame_data = d\<rparr>, r\<lparr>c_in := rest\<rparr>)"
proof -
  have t: "unat (4 + word_of_nat (length d) :: u32) = length d + 4"
    using assms(1) by (intro total_len) simp
  then have "\<not> 4 + word_of_nat (length d) > MAX_FRAME_SIZE" "\<not> 4 + word_of_nat (length d) < FRAME_MIN_DATA"
    using assms(1) by (simp_all add: word_less_nat_alt FRAME_MIN_DATA_def)
  then show ?thesis
    using assms(2) t by (simp add: read_frame_async_def frame_bytes_def read_exact_def Let_def)
qed

lemma frame_bytes_split:
  assumes "4 \<le> length b" "n = u32_from_be (take 4 b)" "4 \<le> unat n" "unat n \<le> length (drop 4 b)"
  shows "b = frame_bytes (u32_from_be (take 4 (drop 4 b))) (drop 4 (take (unat n) (drop 4 b))) @
    drop (unat n) (drop 4 b)"
    and "length (drop 4 (take (unat n) (drop 4 b))) + 4 = unat n"
proof -
  let ?d = "drop 4 (take (unat n) (drop 4 b))"
  show l: "length ?d + 4 = unat n" using assms(3,4) by simp
  have "4 + word_of_nat (length ?d) = (word_of_nat (length ?d + 4) :: u32)" by simp
  then have n: "4 + word_of_nat (length ?d) = n" unfolding l by simp
  have "u32_to_be n @ drop 4 b = b" using assms(1,2) be32.split_eq [of b] by simp
  moreover have "take 4 c @ drop 4 (take m c) @ drop m c = c" if "4 \<le> m" for c :: bytes and m
  proof -
    have "take 4 (take m c) @ drop 4 (take m c) = take m c" by (rule append_take_drop_id)
    then have "take 4 c @ drop 4 (take m c) = take m c" using that by (simp only: take_take min_absorb1)
    then show ?thesis by (simp only: append_assoc [symmetric] append_take_drop_id)
  qed
  note this [OF assms(3), of "drop 4 b"]
  moreover have "u32_to_be (u32_from_be (take 4 (drop 4 b))) = take 4 (drop 4 b)"
    using assms(3,4) be32.enc_dec [of "take 4 (drop 4 b)"] by simp
  ultimately show "b = frame_bytes (u32_from_be (take 4 (drop 4 b))) ?d @ drop (unat n) (drop 4 b)"
    unfolding frame_bytes_def n by simp
qed

text \<open>What a successful read has seen.\<close>

lemma read_frame_Ok_iff:
  "read_frame_async r = (Ok f, r') \<longleftrightarrow>
    length (frame_data f) + 4 \<le> 1048576 \<and>
    (\<exists>rest. c_in r = frame_bytes (frame_seq f) (frame_data f) @ rest \<and> r' = r\<lparr>c_in := rest\<rparr>)"
proof
  assume ok: "read_frame_async r = (Ok f, r')"
  let ?n = "u32_from_be (take 4 (c_in r))"
  have l: "4 \<le> length (c_in r)" "unat ?n \<le> 1048576" "4 \<le> unat ?n" "unat ?n \<le> length (drop 4 (c_in r))"
    and f: "f = \<lparr>frame_seq = u32_from_be (take 4 (drop 4 (c_in r))), frame_data = drop 4 (take (unat ?n) (drop 4 (c_in r)))\<rparr>"
    and r': "r' = r\<lparr>c_in := drop (unat ?n) (drop 4 (c_in r))\<rparr>"
    using ok
    by (auto simp: read_frame_async_def Let_def read_exact_def word_less_nat_alt not_less
        min_absorb1 add.commute split: if_splits)
  note s = frame_bytes_split [OF l(1) refl l(3,4)]
  show "length (frame_data f) + 4 \<le> 1048576 \<and>
      (\<exists>rest. c_in r = frame_bytes (frame_seq f) (frame_data f) @ rest \<and> r' = r\<lparr>c_in := rest\<rparr>)"
    using s l(2) unfolding f r' frame.simps by auto
next
  assume "length (frame_data f) + 4 \<le> 1048576 \<and>
      (\<exists>rest. c_in r = frame_bytes (frame_seq f) (frame_data f) @ rest \<and> r' = r\<lparr>c_in := rest\<rparr>)"
  then show "read_frame_async r = (Ok f, r')" by (auto simp: read_frame_bytes)
qed

lemma parse_frame_bytes [simp]:
  "parse_frame_data (u32_to_be seq @ d) = Ok \<lparr>frame_seq = seq, frame_data = d\<rparr>"
  by (simp add: parse_frame_data_def)

lemma drop_frame_bytes [simp]: "drop 4 (frame_bytes seq d) = u32_to_be seq @ d"
  by (simp add: frame_bytes_def)

text \<open>A successful read consumes at least the eight bytes of length and sequence number.\<close>

lemma read_frame_consumes:
  assumes "read_frame_async r = (Ok f, r')"
  shows "length (c_in r') + 8 \<le> length (c_in r)"
    "c_out r' = c_out r" "c_cap r' = c_cap r" "c_end r' = c_end r"
  using assms
  by (auto simp: read_frame_async_def Let_def read_exact_Ok FRAME_MIN_DATA_def word_less_nat_alt
      not_less split: prod.splits sum.splits if_splits)

section \<open>Requests and responses\<close>

lemma status_roundtrip [simp]: "status_from_u8 (status_to_u8 s) = Some s"
  by (cases s) (simp_all add: status_from_u8_def)

lemma status_from_u8_Some: "status_from_u8 b = Some s \<longleftrightarrow> b = status_to_u8 s"
proof
  show "status_from_u8 b = Some s \<Longrightarrow> b = status_to_u8 s"
    by (auto simp: status_from_u8_def split: if_splits)
qed simp

lemma decode_request_seal:
  assumes "sealing_ok cr n key" "\<And>m. req_payload req = Some m \<Longrightarrow> map_fits m"
    and "encode_request_body cr n key req = Ok b"
  shows "decode_request cr key (u32_to_be seq @ b) = Ok (req, seq)"
proof -
  let ?p = "case req_payload req of None \<Rightarrow> [] | Some m \<Rightarrow> encode_map m"
  have "seal_body cr n key (u16_to_be (req_opcode req) @ ?p) = Ok b"
    using assms(3) by (simp add: encode_request_body_def Let_def)
  note m = msg.message_opens [OF assms(1,2) this]
  have "?p = [] \<Longrightarrow> req_payload req = None" "?p \<noteq> [] \<Longrightarrow> decode_map_opt ?p = req_payload req"
    using m(2) by (auto split: if_splits)
  then show ?thesis
    using m(1) by (cases "?p = []"; cases req) (simp_all add: decode_request_def Let_def)
qed

lemma decode_response_seal:
  assumes "sealing_ok cr n key" "\<And>m. resp_payload resp = Some m \<Longrightarrow> map_fits m"
    and "encode_response_body cr n key resp = Ok b"
  shows "decode_response cr key (u32_to_be seq @ b) = Ok (resp\<lparr>resp_seq := seq\<rparr>)"
proof -
  let ?p = "case resp_payload resp of None \<Rightarrow> [] | Some m \<Rightarrow> encode_map m"
  have "seal_body cr n key ([status_to_u8 (resp_status resp)] @ ?p) = Ok b"
    using assms(3) by (simp add: encode_response_body_def Let_def)
  note m = msg.message_opens [OF assms(1,2) this]
  have "?p = [] \<Longrightarrow> resp_payload resp = None" "?p \<noteq> [] \<Longrightarrow> decode_map_opt ?p = resp_payload resp"
    using m(2) by (auto split: if_splits)
  then show ?thesis
    using m(1) by (cases "?p = []"; cases resp) (simp_all add: decode_response_def Let_def)
qed

lemma read_request_bytes:
  assumes "length d + 4 \<le> 1048576" and "c_in r = frame_bytes seq d @ rest"
  shows "read_request_async cr r key = (decode_request cr key (u32_to_be seq @ d), r\<lparr>c_in := rest\<rparr>)"
  using read_frame_bytes [OF assms] by (simp add: read_request_async_def)

end
