(* ===== verification/Hush_Wire_Props.thy ===== *)
theory Hush_Wire_Props
  imports Hush_Frame_Facts
begin

text \<open>
  What \<open>src/session.rs\<close> and \<open>src/frame.rs\<close> guarantee: the agreement of the two sides of the
  handshake, the frame cipher, expiry, frames as a stream format with its bounds, and requests
  and responses on the wire, with what is and what is not authenticated.
\<close>

section \<open>Messages always fit a frame\<close>

lemma map_fits_length: "map_fits m \<Longrightarrow> length (encode_map m) \<le> 524299"
  using length_tlv_le [of "Map m"] by (simp add: map_fits_def fits_def encode_map_eq)

lemma request_frame:
  assumes "sealing_ok cr nonce key" "\<And>m. req_payload req = Some m \<Longrightarrow> map_fits m"
  obtains b where "encode_request_body cr nonce key req = Ok b" "length b + 4 \<le> 1048576"
    "encode_frame seq b = Ok (frame_bytes seq b)"
proof -
  let ?p = "u16_to_be (req_opcode req) @ (case req_payload req of None \<Rightarrow> [] | Some m \<Rightarrow> encode_map m)"
  have p: "length ?p \<le> 524301"
    using assms(2) map_fits_length by (auto split: option.splits)
  then obtain b where b: "seal_body cr nonce key ?p = Ok b"
    using seal_body_total [OF assms(1), of ?p] by auto
  have "length b + 4 \<le> 1048576" using seal_body_length [OF assms(1) b] p by simp
  then show thesis
    using b encode_frame_Ok_iff [of b seq] by (intro that [of b]) (simp_all add: encode_request_body_def Let_def)
qed

lemma response_frame:
  assumes "sealing_ok cr nonce key" "\<And>m. resp_payload resp = Some m \<Longrightarrow> map_fits m"
  obtains b where "encode_response_body cr nonce key resp = Ok b" "length b + 4 \<le> 1048576"
    "encode_frame seq b = Ok (frame_bytes seq b)"
proof -
  let ?p = "[status_to_u8 (resp_status resp)] @ (case resp_payload resp of None \<Rightarrow> [] | Some m \<Rightarrow> encode_map m)"
  have p: "length ?p \<le> 524300"
    using assms(2) map_fits_length by (auto split: option.splits)
  then obtain b where b: "seal_body cr nonce key ?p = Ok b"
    using seal_body_total [OF assms(1), of ?p] by auto
  have "length b + 4 \<le> 1048576" using seal_body_length [OF assms(1) b] p by simp
  then show thesis
    using b encode_frame_Ok_iff [of b seq] by (intro that [of b]) (simp_all add: encode_response_body_def Let_def)
qed

text \<open>A sealing setup and a payload for the witnesses.\<close>

definition toy_key :: bytes where "toy_key = replicate 32 7"
definition toy_nonce :: bytes where "toy_nonce = replicate 12 9"
definition toy_map :: tlv_map where "toy_map = [(''id'', Uint64 7)]"

lemma toy_sealing: "sealing_ok toy_crypto toy_nonce (Some toy_key)" "good_key toy_key" "good_nonce toy_nonce"
  by (simp_all add: sealing_ok_def toy_aead_ok good_key_def good_nonce_def toy_key_def toy_nonce_def)

lemma rust_id: "rust_string ''id''" "rust_string ''alice''"
  by (rule rust_string_ascii; simp)+

lemma toy_map_fits: "map_fits toy_map"
proof -
  have l: "length (tlv v) \<le> length (tlv_body v) + 11" for v by (rule length_tlv_le)
  show ?thesis
    using l [of "String ''id''"] l [of "Uint64 7"] vdepth_Map_le [of 1]
    by (simp add: map_fits_def toy_map_def wf_map_def rust_id fits_def MAX_DECODE_DEPTH_def vdepth.simps)
qed

section \<open>Handshake\<close>

text \<open>
  Agreement. When the server reads what the client wrote and the client reads what the server
  answered, for a key id of 1 to 256 bytes that the server knows with the client's secret, both
  sides end with the same session id, key id and 32-byte session key.
\<close>

theorem handshake_agreement:
  assumes "dh_ok cr" and "hkdf_ok cr"
    and "ak_id key \<noteq> []" and "length (ak_id key) \<le> 256" and "rust_string (ak_id key)"
    and "key_store (ak_id key) = Some (ak_secret key)"
    and "c_cap cc = None" and "c_cap sc = None" and "c_out cc = []" and "c_out sc = []"
    and "c_in sc = c_out (snd (negotiate_client cr client_random tc key cc))"
    and "c_in cc = c_out (snd (negotiate_server cr server_secret
                     (snd (generate_key_pair cr server_secret)) key_store next_id ts sc))"
  shows "\<exists>k. length k = KEY_SIZE \<and>
    fst (negotiate_client cr client_random tc key cc) = Ok (session_new tc next_id (ak_id key) k) \<and>
    fst (negotiate_server cr server_secret (snd (generate_key_pair cr server_secret)) key_store next_id ts sc) =
      Ok (session_new ts next_id (ak_id key) k)"
proof -
  define cpub where "cpub = x25519_public cr client_random"
  define spub where "spub = x25519_public cr server_secret"
  have len: "length cpub = 32" "length spub = 32" and
    dh: "x25519 cr client_random spub = x25519 cr server_secret cpub"
    using assms(1) by (simp_all add: dh_ok_def cpub_def spub_def)
  obtain k where k: "derive_session_key cr (x25519 cr server_secret cpub) (ak_secret key) = Ok k" "good_key k"
    using derive_session_key_Ok [OF assms(2)] by blast
  have hello: "c_in sc = hello (ak_id key) cpub @ []"
    using assms(11) negotiate_client_writes [OF assms(7)] assms(9) by (simp add: cpub_def)
  have server: "negotiate_server cr server_secret spub key_store next_id ts sc =
      (Ok (session_new ts next_id (ak_id key) k), sc\<lparr>c_in := [], c_out := c_out sc @ spub @ u64_to_be next_id\<rparr>)"
    by (rule negotiate_server_hello [where key_store = key_store, OF hello len(1) assms(3-6) assms(8) k(1)])
  have "c_in cc = spub @ u64_to_be next_id @ []"
    using assms(12) server assms(10) by (simp add: generate_key_pair_def spub_def)
  from negotiate_client_reads [OF assms(7) this len(2) k(1) [folded dh]] server k(2) show ?thesis
    by (intro exI [of _ k]) (simp add: good_key_def generate_key_pair_def spub_def)
qed

theorem handshake_agreement_witness:
  "\<exists>k. length k = KEY_SIZE \<and>
    fst (negotiate_client toy_crypto [1] 5 \<lparr>ak_id = ''alice'', ak_secret = [3]\<rparr>
      \<lparr>c_in = toy_public [2] @ u64_to_be 9, c_end = UnexpectedEof, c_out = [], c_cap = None\<rparr>) =
      Ok (session_new 5 9 ''alice'' k) \<and>
    fst (negotiate_server toy_crypto [2] (toy_public [2]) [''alice'' \<mapsto> [3]] 9 6
      \<lparr>c_in = hello ''alice'' (toy_public [1]), c_end = UnexpectedEof, c_out = [], c_cap = None\<rparr>) =
      Ok (session_new 6 9 ''alice'' k)"
proof -
  let ?key = "\<lparr>ak_id = ''alice'', ak_secret = [3]\<rparr> :: api_key"
  let ?cc = "\<lparr>c_in = toy_public [2] @ u64_to_be 9, c_end = UnexpectedEof, c_out = [], c_cap = None\<rparr>"
  let ?sc = "\<lparr>c_in = hello ''alice'' (toy_public [1]), c_end = UnexpectedEof, c_out = [], c_cap = None\<rparr>"
  have pub: "x25519_public toy_crypto = toy_public" by (simp add: toy_crypto_def)
  obtain k where k: "derive_session_key toy_crypto (x25519 toy_crypto [2] (toy_public [1])) [3] = Ok k"
    using derive_session_key_Ok [OF toy_hkdf_ok] by blast
  have s: "c_out (snd (negotiate_server toy_crypto [2] (toy_public [2]) [''alice'' \<mapsto> [3]] 9 6 ?sc)) =
      toy_public [2] @ u64_to_be 9"
    using negotiate_server_hello [of ?sc "''alice''" "toy_public [1]" "[]" "[''alice'' \<mapsto> [3]]" "[3]"
        toy_crypto "[2]" k "toy_public [2]" 9 6] k by (simp add: rust_id)
  have c: "c_out (snd (negotiate_client toy_crypto [1] 5 ?key ?cc)) = hello ''alice'' (toy_public [1])"
    using negotiate_client_writes [of ?cc toy_crypto "[1]" 5 ?key] by (simp add: pub)
  show ?thesis
    using handshake_agreement [OF toy_dh_ok toy_hkdf_ok, of ?key "[''alice'' \<mapsto> [3]]" ?cc ?sc "[1]" 5 "[2]" 9 6]
      s c by (simp add: pub generate_key_pair_def rust_id)
qed

text \<open>
  What the server admits. The synchronous server side succeeds exactly when its input begins
  with a hello naming a key id of 1 to 256 bytes of valid UTF-8 that the key store knows; when it
  fails it has written nothing.
\<close>

theorem negotiate_server_admits:
  assumes "hkdf_ok cr" and "c_cap c = None"
  shows "(is_ok (fst (negotiate_server cr priv spub key_store next_id now c)) \<longleftrightarrow>
      (\<exists>kid pub rest. c_in c = hello kid pub @ rest \<and> kid \<noteq> [] \<and> length kid \<le> 256 \<and>
         rust_string kid \<and> length pub = PUB_KEY_SIZE \<and> key_store kid \<noteq> None)) \<and>
    (\<not> is_ok (fst (negotiate_server cr priv spub key_store next_id now c)) \<longrightarrow>
      c_out (snd (negotiate_server cr priv spub key_store next_id now c)) = c_out c)"
proof (intro conjI impI iffI)
  let ?r = "negotiate_server cr priv spub key_store next_id now c"
  {
    assume ok: "is_ok (fst ?r)"
    let ?b = "c_in c" and ?n = "unat (u16_from_be (take 2 (c_in c)))"
    obtain kid where len: "2 \<le> length ?b" "?n \<noteq> 0" "?n \<le> 256" "?n + 32 \<le> length (drop 2 ?b)"
      and kid: "from_utf8 (take ?n (take (?n + 32) (drop 2 ?b))) = Some kid" "key_store kid \<noteq> None"
      using ok
      by (auto simp: negotiate_server_def Let_def read_exact_def is_ok_iff and_then_eq_Inr
          split: if_splits sum.splits prod.splits)
    have "rust_string kid" "as_bytes kid = take ?n (drop 2 ?b)"
      using kid(1) len by (auto simp: from_utf8_Some rust_string_def)
    note h = hello_read [OF len(1) refl len(4) this(2)] this(1)
    show "\<exists>kid pub rest. c_in c = hello kid pub @ rest \<and> kid \<noteq> [] \<and> length kid \<le> 256 \<and>
        rust_string kid \<and> length pub = PUB_KEY_SIZE \<and> key_store kid \<noteq> None"
      by (rule exI, rule exI, rule exI, rule conjI, rule h(1)) (use h(2-4) len kid(2) in auto)
  }
  assume "\<exists>kid pub rest. c_in c = hello kid pub @ rest \<and> kid \<noteq> [] \<and> length kid \<le> 256 \<and>
    rust_string kid \<and> length pub = PUB_KEY_SIZE \<and> key_store kid \<noteq> None"
  then obtain kid pub rest secret where "c_in c = hello kid pub @ rest" "length pub = 32" "kid \<noteq> []"
    "length kid \<le> 256" "rust_string kid" "key_store kid = Some secret" by auto
  then show "is_ok (fst ?r)"
    using negotiate_server_hello [of c kid pub rest key_store secret cr priv _ spub next_id now]
      derive_session_key_Ok [OF assms(1), of "x25519 cr priv pub" secret] assms(2) by auto
next
  let ?r = "negotiate_server cr priv spub key_store next_id now c"
  assume "\<not> is_ok (fst ?r)"
  then show "c_out (snd ?r) = c_out c"
    using assms(2)
    by (auto simp: negotiate_server_def Let_def read_exact_def write_all_def
        split: if_splits sum.splits prod.splits)
qed

theorem negotiate_server_admits_witness:
  "\<not> is_ok (fst (negotiate_server toy_crypto [2] (toy_public [2]) [''alice'' \<mapsto> [3]] 9 6
      \<lparr>c_in = [0, 1, 97], c_end = UnexpectedEof, c_out = [], c_cap = None\<rparr>)) \<and>
   is_ok (fst (negotiate_server toy_crypto [2] (toy_public [2]) [''alice'' \<mapsto> [3]] 9 6
      \<lparr>c_in = hello ''alice'' (toy_public [1]), c_end = UnexpectedEof, c_out = [], c_cap = None\<rparr>))"
proof
  let ?c = "\<lambda>b. \<lparr>c_in = b, c_end = UnexpectedEof, c_out = [], c_cap = None\<rparr>"
  note adm = negotiate_server_admits [OF toy_hkdf_ok, where c = "?c b" for b]
  show "\<not> is_ok (fst (negotiate_server toy_crypto [2] (toy_public [2]) [''alice'' \<mapsto> [3]] 9 6 (?c [0, 1, 97])))"
    by (subst conjunct1 [OF adm]) (auto simp: hello_def dest: arg_cong [of _ _ length])
  show "is_ok (fst (negotiate_server toy_crypto [2] (toy_public [2]) [''alice'' \<mapsto> [3]] 9 6
      (?c (hello ''alice'' (toy_public [1])))))"
    by (subst conjunct1 [OF adm])
      (simp, rule exI [of _ "''alice''"], rule exI [of _ "toy_public [1]"], rule exI [of _ "[]"], simp add: rust_id)
qed

section \<open>The frame cipher and the stores\<close>

text \<open>
  The cipher accepts exactly what was sealed under the key: \<open>decrypt\<close> returns a plaintext if and
  only if the data is \<open>encrypt\<close> of it under the nonce in its first 12 bytes; sealing adds 28 bytes.
\<close>

theorem decrypt_iff_sealed:
  assumes "aead_ok cr" and "length key = KEY_SIZE"
  shows "decrypt cr key d = Ok p \<longleftrightarrow>
    length d = length p + NONCE_SIZE + TAG_SIZE \<and> encrypt cr (take NONCE_SIZE d) key p = Ok d"
proof -
  have k: "good_key key" using assms(2) by (simp add: good_key_def)
  show ?thesis
  proof
    assume "decrypt cr key d = Ok p"
    note g = decrypt_genuine [OF assms(1) k this]
    then show "length d = length p + NONCE_SIZE + TAG_SIZE \<and> encrypt cr (take NONCE_SIZE d) key p = Ok d"
      using encrypt_Ok(1) [OF assms(1) k conjunct1 [OF g] conjunct2 [OF g]] by simp
  next
    assume e: "length d = length p + NONCE_SIZE + TAG_SIZE \<and> encrypt cr (take NONCE_SIZE d) key p = Ok d"
    then have "good_nonce (take NONCE_SIZE d)" by (simp add: good_nonce_def)
    then show "decrypt cr key d = Ok p" using encrypt_Ok(3) [OF assms(1) k] e by blast
  qed
qed

theorem decrypt_iff_sealed_witness:
  "decrypt toy_crypto toy_key (toy_nonce @ [1, 2] @ replicate 16 7) = Ok [1, 2] \<and>
   encrypt toy_crypto toy_nonce toy_key [1, 2] = Ok (toy_nonce @ [1, 2] @ replicate 16 7)"
proof -
  have d: "decrypt toy_crypto toy_key (toy_nonce @ [1, 2] @ replicate 16 7) = Ok [1, 2]" by code_simp
  have n: "length toy_nonce = 12" by (simp add: toy_nonce_def)
  have "encrypt toy_crypto (take NONCE_SIZE (toy_nonce @ [1, 2] @ replicate 16 7)) toy_key [1, 2] =
      Ok (toy_nonce @ [1, 2] @ replicate 16 7)"
    using decrypt_iff_sealed [OF toy_aead_ok, of toy_key "toy_nonce @ [1, 2] @ replicate 16 7" "[1, 2]"] d
    by (simp add: n) (simp add: toy_key_def)
  then show ?thesis using d n by simp
qed

text \<open>
  Collection. From any store reached by inserts and deletes, \<open>gc\<close> keeps exactly the sessions
  that have not outlived \<open>max_lifetime\<close>, unchanged; collecting again at the same time changes
  nothing. Idleness plays no part in it.
\<close>

inductive store_reach :: "session_config \<Rightarrow> session_store \<Rightarrow> bool" for cfg where
  store_init: "store_reach cfg (store_new cfg)"
| store_ins: "store_reach cfg st \<Longrightarrow> store_reach cfg (store_insert s st)"
| store_del: "store_reach cfg st \<Longrightarrow> store_reach cfg (store_delete i st)"
| store_collect: "store_reach cfg st \<Longrightarrow> store_reach cfg (store_gc now st)"
| store_id: "store_reach cfg st \<Longrightarrow> store_reach cfg (snd (next_session_id st))"

lemma store_reach_inv: "store_reach cfg st \<Longrightarrow> store_inv st \<and> ss_config st = cfg"
proof (induction rule: store_reach.induct)
  case store_init
  show ?case using ss.inv_empty [of cfg] by simp
next
  case (store_id st)
  then show ?case by (simp add: next_session_id_def store_inv_def)
qed (simp_all add: ss.inv_put ss.inv_del store_gc_inv)

theorem gc_keeps_unexpired:
  assumes "store_reach cfg st"
  shows "(\<forall>i s. store_get (store_gc now st) i = Some s \<longleftrightarrow>
      store_get st i = Some s \<and> sess_id s = i \<and> elapsed now (created_at s) \<le> max_lifetime cfg) \<and>
    store_gc now (store_gc now st) = store_gc now st"
proof -
  have inv: "store_inv st" "ss_config st = cfg" using store_reach_inv [OF assms] by auto
  have "store_get (store_gc now st) i = Some s \<longleftrightarrow>
      store_get st i = Some s \<and> sess_id s = i \<and> elapsed now (created_at s) \<le> max_lifetime cfg" for i s
  proof (cases "store_get st i")
    case (Some t)
    then show ?thesis
      using ss.inv_key [OF inv(1) Some] inv(2) by (auto simp: store_gc_get [OF inv(1)] is_expired_def)
  qed (simp add: store_gc_get [OF inv(1)])
  moreover have "store_gc now (store_gc now st) = store_gc now st"
    by (auto simp: store_gc_def store_retain_def map_retain_def fun_eq_iff split: option.splits)
  ultimately show ?thesis by blast
qed

theorem gc_keeps_unexpired_witness:
  "store_get (store_gc (from_secs 86401) (store_insert (session_new 5 1 ''a'' [])
     (store_insert (session_new (from_secs 2) 2 ''b'' []) (store_new default_config)))) 1 = None"
proof -
  have "store_reach default_config (store_insert (session_new 5 1 ''a'' [])
     (store_insert (session_new (from_secs 2) 2 ''b'' []) (store_new default_config)))"
    by (intro store_reach.intros)
  note conjunct1 [OF gc_keeps_unexpired [OF this, of "from_secs 86401"], rule_format, of 1]
  then show ?thesis
    by (auto simp: store_defs session_new_def elapsed_def default_config_def DEFAULT_MAX_LIFETIME_def
        from_secs_def map_retain_def)
qed

text \<open>
  \<open>SessionConfig::fill\<close> leaves no zero timeout: every positive field is kept and every zero field
  becomes the default, so that the GC ticker's interval is never zero; filling again changes
  nothing.
\<close>

theorem config_fill_positive:
  "idle_timeout (config_fill c) > 0 \<and> max_lifetime (config_fill c) > 0 \<and> gc_interval (config_fill c) > 0 \<and>
   config_fill (config_fill c) = config_fill c \<and>
   (idle_timeout c > 0 \<and> max_lifetime c > 0 \<and> gc_interval c > 0 \<longleftrightarrow> config_fill c = c)"
  by (cases c) (simp add: config_fill_def DEFAULT_IDLE_TIMEOUT_def DEFAULT_MAX_LIFETIME_def
      DEFAULT_GC_INTERVAL_def from_secs_def split: if_splits)

section \<open>Frames\<close>

text \<open>
  What is read as a frame. \<open>read_frame_async\<close> returns a frame exactly when the stream begins
  with the bytes of that frame and its length field is at most 1 MiB; it then consumes those bytes
  and nothing else.
\<close>

theorem read_frame_iff:
  "read_frame_async r = (Ok f, r') \<longleftrightarrow>
    length (frame_data f) + 4 \<le> 1048576 \<and>
    (\<exists>rest. c_in r = frame_bytes (frame_seq f) (frame_data f) @ rest \<and> r' = r\<lparr>c_in := rest\<rparr>)"
  by (rule read_frame_Ok_iff)

text \<open>
  A stream of frames. Frames written one after the other on a connection that takes them are
  read back in the same order with the same sequence numbers, and the bytes that follow are left
  unread.
\<close>

fun write_frames :: "frame list \<Rightarrow> conn \<Rightarrow> (frame_error + unit) \<times> conn" where
  "write_frames [] w = (Ok (), w)"
| "write_frames (f # fs) w =
     (case write_frame_async w (frame_seq f) (frame_data f) of
        (Err e, w') \<Rightarrow> (Err e, w')
      | (Ok _, w') \<Rightarrow> write_frames fs w')"

fun read_frames :: "nat \<Rightarrow> conn \<Rightarrow> (frame_error + frame list) \<times> conn" where
  "read_frames 0 r = (Ok [], r)"
| "read_frames (Suc n) r =
     (case read_frame_async r of
        (Err e, r') \<Rightarrow> (Err e, r')
      | (Ok f, r') \<Rightarrow> (case read_frames n r' of
           (Err e, r'') \<Rightarrow> (Err e, r'') | (Ok fs, r'') \<Rightarrow> (Ok (f # fs), r'')))"

lemma write_frames_bytes:
  assumes "\<forall>f \<in> set fs. length (frame_data f) + 4 \<le> 1048576" and "c_cap w = None"
  shows "write_frames fs w =
    (Ok (), w\<lparr>c_out := c_out w @ concat (map (\<lambda>f. frame_bytes (frame_seq f) (frame_data f)) fs)\<rparr>)"
  using assms
proof (induction fs arbitrary: w)
  case (Cons f fs)
  have "encode_frame (frame_seq f) (frame_data f) = Ok (frame_bytes (frame_seq f) (frame_data f))"
    using Cons.prems(1) encode_frame_Ok_iff [of "frame_data f"] by simp
  then show ?case using Cons by (simp add: write_frame_eq write_all_def)
qed simp

theorem frame_stream_roundtrip:
  assumes "\<forall>f \<in> set fs. length (frame_data f) + 4 \<le> 1048576" and "c_cap w = None"
    and "c_in r = drop (length (c_out w)) (c_out (snd (write_frames fs w))) @ rest"
  shows "fst (write_frames fs w) = Ok () \<and> read_frames (length fs) r = (Ok fs, r\<lparr>c_in := rest\<rparr>)"
proof -
  have "c_in r = concat (map (\<lambda>f. frame_bytes (frame_seq f) (frame_data f)) fs) @ rest"
    using assms(3) write_frames_bytes [OF assms(1,2)] by simp
  then have "read_frames (length fs) r = (Ok fs, r\<lparr>c_in := rest\<rparr>)"
    using assms(1)
  proof (induction fs arbitrary: r)
    case (Cons f fs)
    note IH = Cons.IH [of "r\<lparr>c_in := concat (map (\<lambda>f. frame_bytes (frame_seq f) (frame_data f)) fs) @ rest\<rparr>"]
    show ?case
      using Cons.prems IH read_frame_bytes [of "frame_data f" r "frame_seq f"] by simp
  qed simp
  then show ?thesis using write_frames_bytes [OF assms(1,2)] by simp
qed

theorem frame_stream_roundtrip_witness:
  "read_frames 2 \<lparr>c_in = drop 1 (c_out (snd (write_frames [\<lparr>frame_seq = 1, frame_data = [5]\<rparr>, \<lparr>frame_seq = 2, frame_data = []\<rparr>]
      \<lparr>c_in = [], c_end = UnexpectedEof, c_out = [8], c_cap = None\<rparr>))) @ [9], c_end = UnexpectedEof, c_out = [], c_cap = None\<rparr> =
    (Ok [\<lparr>frame_seq = 1, frame_data = [5]\<rparr>, \<lparr>frame_seq = 2, frame_data = []\<rparr>],
     \<lparr>c_in = [9], c_end = UnexpectedEof, c_out = [], c_cap = None\<rparr>)"
  using frame_stream_roundtrip [of "[\<lparr>frame_seq = 1, frame_data = [5]\<rparr>, \<lparr>frame_seq = 2, frame_data = []\<rparr>]"
      "\<lparr>c_in = [], c_end = UnexpectedEof, c_out = [8], c_cap = None\<rparr>"
      "\<lparr>c_in = drop 1 (c_out (snd (write_frames [\<lparr>frame_seq = 1, frame_data = [5]\<rparr>, \<lparr>frame_seq = 2, frame_data = []\<rparr>]
        \<lparr>c_in = [], c_end = UnexpectedEof, c_out = [8], c_cap = None\<rparr>))) @ [9], c_end = UnexpectedEof, c_out = [], c_cap = None\<rparr>" "[9]"]
  by (simp del: write_frames.simps read_frames.simps add: numeral_2_eq_2)

text \<open>
  C36. The size check of the writers, each with a copy of its own, as a release build computes it: the
  32-bit sum of the data length and 4 wraps around, so \<open>encode_frame\<close>, \<open>write_frame\<close> and
  \<open>write_frame_async\<close> accept data when its length plus 4, modulo \<open>2^32\<close>, is at most 1 MiB. What they
  accept they encode, or write to a stream that takes it, under that sum as the length field; data of
  4 GiB passes, under a length field that does not describe it. What they refuse is not written.
\<close>

theorem encode_frame_wraps:
  "(is_ok (encode_frame seq d) \<longleftrightarrow> (length d + 4) mod 2 ^ 32 \<le> 1048576) \<and>
   (\<forall>b. encode_frame seq d = Ok b \<longrightarrow> length b = length d + 8 \<and>
      unat (u32_from_be (take 4 b)) = (length d + 4) mod 2 ^ 32) \<and>
   (\<forall>write \<in> {write_frame, write_frame_async}.
      if (length d + 4) mod 2 ^ 32 \<le> 1048576
      then c_cap w = None \<longrightarrow> (\<exists>b. write w seq d = (Ok (), w\<lparr>c_out := c_out w @ b\<rparr>) \<and>
        length b = length d + 8 \<and> drop 8 b = d \<and> unat (u32_from_be (take 4 b)) = (length d + 4) mod 2 ^ 32)
      else write w seq d = (Err (FTooLarge (word_of_nat (length d + 4)) MAX_FRAME_SIZE), w))"
proof -
  have sum: "4 + word_of_nat (length d) = (word_of_nat (length d + 4) :: u32)" by simp
  then have val: "unat (4 + word_of_nat (length d) :: u32) = (length d + 4) mod 2 ^ 32"
    by (simp only: unat_of_nat) simp
  then have big: "4 + word_of_nat (length d) > MAX_FRAME_SIZE \<longleftrightarrow> \<not> (length d + 4) mod 2 ^ 32 \<le> 1048576"
    by (simp add: word_less_nat_alt not_le)
  have field: "unat (u32_from_be (take 4 (frame_bytes seq d))) = (length d + 4) mod 2 ^ 32"
    "length (frame_bytes seq d) = length d + 8" "drop 8 (frame_bytes seq d) = d"
    using val by (simp_all add: frame_bytes_def hush_len)
  have enc: "encode_frame seq d = (if (length d + 4) mod 2 ^ 32 \<le> 1048576 then Ok (frame_bytes seq d)
      else Err (FTooLarge (word_of_nat (length d + 4)) MAX_FRAME_SIZE))"
    unfolding encode_frame_eq big unfolding sum by simp
  show ?thesis
    using field by (auto simp: write_frame_eq enc write_all_def)
qed

theorem encode_frame_wraps_witness:
  "(\<exists>d. length d = 4294967292 \<and> is_ok (encode_frame 0 d) \<and> fst (write_frame \<lparr>c_in = [], c_end = UnexpectedEof, c_out = [], c_cap = None\<rparr> 0 d) = Ok ()) \<and>
   (\<exists>d. length d = 1048573 \<and> \<not> is_ok (encode_frame 0 d) \<and>
      fst (write_frame_async \<lparr>c_in = [], c_end = UnexpectedEof, c_out = [], c_cap = None\<rparr> 0 d) = Err (FTooLarge 1048577 MAX_FRAME_SIZE))"
proof -
  have "\<exists>d :: bytes. length d = n" for n by (rule exI [of _ "replicate n 0"]) simp
  then obtain d e :: bytes where d: "length d = 4294967292" and e: "length e = 1048573" by metis
  let ?w = "\<lparr>c_in = [], c_end = UnexpectedEof, c_out = [], c_cap = None\<rparr>"
  from encode_frame_wraps [of 0 d ?w] encode_frame_wraps [of 0 e ?w] show ?thesis
    by (intro conjI exI [of _ d] exI [of _ e]) (auto simp: d e)
qed

section \<open>Requests and responses\<close>

text \<open>
  Requests. A request whose payload is within the TLV limits can always be sent: its body is
  encoded (and sealed, with a key), it fits a frame, and the server that reads the frame gets the
  same opcode and payload with the sequence number, and leaves the following bytes unread.
\<close>

theorem request_roundtrip:
  assumes "sealing_ok cr nonce key" and "\<forall>m. req_payload req = Some m \<longrightarrow> map_fits m"
  shows "\<exists>b. and_then (encode_request_body cr nonce key req)
        (\<lambda>body. map_err RFrame (encode_frame seq body)) = Ok b \<and>
    (\<forall>r rest. c_in r = b @ rest \<longrightarrow>
       read_request_async cr r key = (Ok (req, seq), r\<lparr>c_in := rest\<rparr>))"
proof -
  obtain body where b: "encode_request_body cr nonce key req = Ok body" "length body + 4 \<le> 1048576"
    "encode_frame seq body = Ok (frame_bytes seq body)"
    using request_frame [OF assms(1), of req seq] assms(2) by blast
  then show ?thesis
    using decode_request_seal [OF assms(1) _ b(1), of seq] assms(2) read_request_bytes [OF b(2)]
    by (intro exI [of _ "frame_bytes seq body"]) simp
qed

theorem request_roundtrip_witness:
  "\<exists>b. and_then (encode_request_body toy_crypto toy_nonce (Some toy_key) \<lparr>req_opcode = 3, req_payload = Some toy_map\<rparr>)
        (\<lambda>body. map_err RFrame (encode_frame 5 body)) = Ok b \<and>
    (\<forall>r rest. c_in r = b @ rest \<longrightarrow> read_request_async toy_crypto r (Some toy_key) =
       (Ok (\<lparr>req_opcode = 3, req_payload = Some toy_map\<rparr>, 5), r\<lparr>c_in := rest\<rparr>))"
  by (rule request_roundtrip) (simp_all add: toy_sealing toy_map_fits)

text \<open>
  Responses. A response whose payload is within the TLV limits can always be written, and
  whoever decodes the frame's data under the same key gets its status and payload, with the
  frame's sequence number in place of the one in the \<open>Response\<close>.
\<close>

theorem response_roundtrip:
  assumes "sealing_ok cr nonce key" and "\<forall>m. resp_payload resp = Some m \<longrightarrow> map_fits m"
    and "c_cap w = None"
  shows "\<exists>b. write_response_async cr nonce w key seq resp = (Ok (), w\<lparr>c_out := c_out w @ b\<rparr>) \<and>
    unat (u32_from_be (take 4 b)) = length (drop 4 b) \<and> length (drop 4 b) \<le> unat MAX_FRAME_SIZE \<and>
    decode_response cr key (drop 4 b) = Ok (resp\<lparr>resp_seq := seq\<rparr>)"
proof -
  obtain body where b: "encode_response_body cr nonce key resp = Ok body" "length body + 4 \<le> 1048576"
    "encode_frame seq body = Ok (frame_bytes seq body)"
    using response_frame [OF assms(1), of resp seq] assms(2) by blast
  have "unat (u32_from_be (take 4 (frame_bytes seq body))) = length body + 4"
    using b(2) total_len [of body] by (simp add: frame_bytes_def)
  then show ?thesis
    using b decode_response_seal [OF assms(1) _ b(1), of seq] assms(2,3)
    by (intro exI [of _ "frame_bytes seq body"])
      (simp add: write_response_async_def write_frame_eq write_all_def hush_len)
qed

theorem response_roundtrip_witness:
  "\<exists>b. write_response_async toy_crypto toy_nonce \<lparr>c_in = [], c_end = UnexpectedEof, c_out = [1], c_cap = None\<rparr>
      (Some toy_key) 5 (new_response toy_map) =
      (Ok (), \<lparr>c_in = [], c_end = UnexpectedEof, c_out = [1] @ b, c_cap = None\<rparr>) \<and>
    decode_response toy_crypto (Some toy_key) (drop 4 b) = Ok \<lparr>resp_status = Success, resp_payload = Some toy_map, resp_seq = 5\<rparr>"
  using response_roundtrip [of toy_crypto toy_nonce "Some toy_key" "new_response toy_map"
      "\<lparr>c_in = [], c_end = UnexpectedEof, c_out = [1], c_cap = None\<rparr>" 5]
  by (auto simp: toy_sealing toy_map_fits new_response_def)

text \<open>
  C35. What is authenticated. With a key, every request the server accepts has a body that was
  sealed under that key, from a plaintext beginning with the request's opcode; but the sequence
  number is outside the seal: the same body is accepted under any other sequence number, so the
  number neither orders requests nor stops a replay.
\<close>

theorem request_authentic:
  assumes "aead_ok cr" and "length k = KEY_SIZE" and "decode_request cr (Some k) wire = Ok (req, seq)"
  shows "(\<exists>nonce p. length nonce = NONCE_SIZE \<and> encrypt cr nonce k (u16_to_be (req_opcode req) @ p) = Ok (drop 4 wire) \<and>
      req_payload req = decode_map_opt p) \<and>
    (\<forall>seq'. decode_request cr (Some k) (u32_to_be seq' @ drop 4 wire) = Ok (req, seq'))"
proof -
  obtain plain where o: "decrypt cr k (drop 4 wire) = Ok plain" "2 \<le> length plain"
    and r: "req = \<lparr>req_opcode = u16_from_be (take 2 plain),
      req_payload = (if length plain > 2 then decode_map_opt (drop 2 plain) else None)\<rparr>"
    using assms(3)
    by (auto simp: decode_request_def parse_frame_data_def open_body_def and_then_eq_Inr Let_def
        split: if_splits)
  have g: "good_nonce (take 12 (drop 4 wire))" "encrypt cr (take 12 (drop 4 wire)) k plain = Ok (drop 4 wire)"
    using decrypt_genuine [OF assms(1) _ o(1)] assms(2) by (simp_all add: good_key_def)
  have p: "plain = u16_to_be (req_opcode req) @ drop 2 plain"
    using be16.split_eq [OF o(2)] r by simp
  have "req_payload req = decode_map_opt (drop 2 plain)" using r o(2) by (simp add: decode_map_opt_def)
  moreover have "encrypt cr (take 12 (drop 4 wire)) k (u16_to_be (req_opcode req) @ drop 2 plain) = Ok (drop 4 wire)"
    using g(2) p by simp
  moreover have "decode_request cr (Some k) (u32_to_be seq' @ drop 4 wire) = Ok (req, seq')" for seq'
    using o r by (simp add: decode_request_def open_body_def Let_def)
  ultimately show ?thesis
    using g(1) unfolding good_nonce_def NONCE_SIZE_def by blast
qed

theorem request_authentic_witness:
  "decode_request toy_crypto (Some toy_key) (u32_to_be 1 @ toy_nonce @ [0, 3] @ replicate 16 7) =
     Ok (\<lparr>req_opcode = 3, req_payload = None\<rparr>, 1) \<and>
   decode_request toy_crypto (Some toy_key) (u32_to_be 99 @ toy_nonce @ [0, 3] @ replicate 16 7) =
     Ok (\<lparr>req_opcode = 3, req_payload = None\<rparr>, 99)"
proof -
  have d: "decode_request toy_crypto (Some toy_key) (u32_to_be 1 @ toy_nonce @ [0, 3] @ replicate 16 7) =
     Ok (\<lparr>req_opcode = 3, req_payload = None\<rparr>, 1)" by code_simp
  show ?thesis
    using d conjunct2 [OF request_authentic [OF toy_aead_ok _ d], rule_format, of 99]
    by (simp add: toy_key_def)
qed

text \<open>
  C37. Malformed payloads. A request whose payload bytes are not the encoding of a map is not
  rejected: the TLV error is dropped and the request is delivered as if it had no payload.
\<close>

theorem malformed_payload_dropped:
  assumes "sealing_ok cr nonce key" and "decode_map p = Err e"
    and "seal_body cr nonce key (u16_to_be opcode @ p) = Ok body"
  shows "decode_request cr key (u32_to_be seq @ body) = Ok (\<lparr>req_opcode = opcode, req_payload = None\<rparr>, seq)"
  using cipher.unseal_seal [OF assms(1,3)] assms(2)
  by (simp add: decode_request_def decode_map_opt_def Let_def)

theorem malformed_payload_dropped_witness:
  "decode_request toy_crypto None (u32_to_be 4 @ u16_to_be 3 @ [0x0D, 0x01, 0xFF]) =
     Ok (\<lparr>req_opcode = 3, req_payload = None\<rparr>, 4)"
proof -
  have d: "decode_map [0x0D, 0x01, 0xFF] = Err (UnknownType 0xFF)" by code_simp
  show ?thesis
    by (rule malformed_payload_dropped [OF _ d, where nonce = "[]"]) (simp_all add: sealing_ok_def seal_body_def)
qed

text \<open>
  Status codes. The status byte of a response determines the status and is determined by it;
  the bytes from 8 on, the application-defined ones included, are no status, and a response that
  carries one is rejected with the byte.
\<close>

theorem status_bytes:
  "(status_from_u8 b = Some s \<longleftrightarrow> b = status_to_u8 s) \<and> (status_from_u8 b = None \<longleftrightarrow> 8 \<le> b) \<and>
   (8 \<le> b \<longrightarrow> decode_response cr None (u32_to_be seq @ b # p) = Err (RUnknownStatus b))"
proof -
  have none: "status_from_u8 b = None \<longleftrightarrow> 8 \<le> b"
  proof -
    have "b < 8 \<longleftrightarrow> b \<in> {0, 1, 2, 3, 4, 5, 6, 7}"
    proof
      assume "b < 8"
      then have "unat b < 8" by (simp add: word_less_nat_alt)
      then have "unat b \<in> {0, 1, 2, 3, 4, 5, 6, 7}" by auto
      then have "word_of_nat (unat b) \<in> (word_of_nat ` {0, 1, 2, 3, 4, 5, 6, 7} :: u8 set)" by (rule imageI)
      then show "b \<in> {0, 1, 2, 3, 4, 5, 6, 7}" by simp
    qed auto
    then show ?thesis by (auto simp: status_from_u8_def not_less [symmetric])
  qed
  then show ?thesis
    by (auto simp: status_from_u8_Some decode_response_def open_body_def Let_def)
qed

theorem status_bytes_witness:
  "decode_response toy_crypto None (u32_to_be 4 @ 0x80 # []) = Err (RUnknownStatus 0x80) \<and>
   status_from_u8 5 = Some SessionExpired"
  using status_bytes [of "0x80" Success toy_crypto 4 "[]"] status_bytes [of 5 SessionExpired toy_crypto 4 "[]"]
  by simp

end
