(* ===== verification/Hush_Link.thy ===== *)
theory Hush_Link
  imports Hush_Server Hush_Client Hush_Wire_Props
begin

text \<open>
  Client and server together: the handshake as \<open>src/client.rs\<close> and \<open>src/server.rs\<close> run it, for
  named and anonymous clients on both transports, and requests from the client's call through the
  server's loop and back.
\<close>

section \<open>Handshake\<close>

text \<open>The secret that both sides mix in for a key id: the API key's, or the constant of anonymous
  sessions.\<close>

definition secret_of :: "(string \<Rightarrow> bytes option) \<Rightarrow> string \<Rightarrow> bytes option" where
  "secret_of key_store kid = (if kid = [] then Some (as_bytes ''hush-anonymous'') else key_store kid)"

lemma server_handshake_hello:
  assumes "c_in c = hello kid pub @ rest" and "length pub = 32" "length kid \<le> 256" "rust_string kid"
    and "secret_of key_store kid = Some secret" "c_cap c = None"
    and "derive_session_key cr (x25519 cr priv pub) secret = Ok k"
  shows "server_handshake re we cr priv spub key_store sid c =
    (Ok (kid, k), c\<lparr>c_in := rest, c_out := c_out c @ spub @ u64_to_be sid\<rparr>)"
proof (cases "kid = []")
  case True
  have "unat (0 :: u16) = 0" by simp
  then show ?thesis
    using assms True
    by (simp add: server_handshake_def answer_handshake_def secret_of_def hello_def read_exact_def
        write_all_def shared_secret_static_def Let_def)
next
  case False
  then show ?thesis
    using assms
    by (simp add: server_handshake_def answer_handshake_def secret_of_def hello_def read_exact_def
        write_all_def shared_secret_static_def Let_def unat_key_len to_array32_def)
qed

lemma client_handshake_writes:
  assumes "c_cap c = None"
  shows "c_out (snd (client_handshake we rw cr r key c)) = c_out c @ hello (ak_id key) (x25519_public cr r)"
  using assms
  by (auto simp: client_handshake_def client_finish_def generate_key_pair_def write_all_def hello_def Let_def
      read_exact_def split: prod.splits sum.splits)

lemma client_handshake_reads:
  assumes "c_cap c = None" "c_in c = pub @ u64_to_be sid @ rest" "length pub = 32"
    and "secret = (if ak_id key = [] then as_bytes ''hush-anonymous'' else ak_secret key)"
    and "derive_session_key cr (x25519 cr r pub) secret = Ok k"
  shows "fst (client_handshake we rw cr r key c) = Ok (k, sid, ak_id key)"
  using assms
  by (cases "ak_id key = []") (simp_all add: client_handshake_def client_finish_def
      generate_key_pair_def write_all_def Let_def read_exact_def to_array32_def shared_secret_def)

lemma dial_handshake_ok:
  assumes "dh_ok cr" and "hkdf_ok cr"
    and "length (ak_id key) \<le> 256" and "rust_string (ak_id key)"
    and "ak_id key \<noteq> [] \<longrightarrow> key_store (ak_id key) = Some (ak_secret key)"
    and "c_cap cc = None" and "c_cap sc = None" and "c_out cc = []" and "c_out sc = []"
    and "(dial, handshake) \<in> {(client_dial, quic_handshake), (client_dial_tcp, tcp_handshake)}"
    and "c_in sc = c_out (snd (dial cr random now key cc))"
    and "c_in cc = c_out (snd (handshake cr server_secret (snd (generate_key_pair cr server_secret)) key_store sid sc))"
  shows "\<exists>k cl. length k = KEY_SIZE \<and> fst (dial cr random now key cc) = Ok cl \<and>
    cl_session_key cl = k \<and> client_session_id cl = sid \<and> cl_seq cl = 0 \<and>
    fst (handshake cr server_secret (snd (generate_key_pair cr server_secret)) key_store sid sc) = Ok (ak_id key, k)"
proof -
  define cpub where "cpub = x25519_public cr random"
  define spub where "spub = x25519_public cr server_secret"
  define secret where "secret = (if ak_id key = [] then as_bytes ''hush-anonymous'' else ak_secret key)"
  have len: "length cpub = 32" "length spub = 32" and
    dh: "x25519 cr random spub = x25519 cr server_secret cpub"
    using assms(1) by (simp_all add: dh_ok_def cpub_def spub_def)
  have sec: "secret_of key_store (ak_id key) = Some secret"
    using assms(5) by (simp add: secret_of_def secret_def)
  obtain k where k: "derive_session_key cr (x25519 cr server_secret cpub) secret = Ok k" "good_key k"
    using derive_session_key_Ok [OF assms(2)] by blast
  obtain we rw re we' where d: "dial cr random now key cc =
        (let (r, c') = client_handshake we rw cr random key cc in (and_then r (\<lambda>x. Ok (dialled now x)), c'))"
    and h: "handshake = server_handshake re we'"
    using assms(10) by (auto simp: client_dial_def client_dial_tcp_def quic_handshake_def tcp_handshake_def)
  have hello: "c_in sc = hello (ak_id key) cpub @ []"
    using assms(11) client_handshake_writes [OF assms(6)] assms(8)
    by (simp add: d cpub_def Let_def case_prod_beta)
  have server: "handshake cr server_secret spub key_store sid sc =
      (Ok (ak_id key, k), sc\<lparr>c_in := [], c_out := c_out sc @ spub @ u64_to_be sid\<rparr>)"
    unfolding h by (rule server_handshake_hello [OF hello len(1) assms(3,4) sec assms(7) k(1)])
  have "c_in cc = spub @ u64_to_be sid @ []"
    using assms(12) server assms(9) by (simp add: generate_key_pair_def spub_def)
  from client_handshake_reads [OF assms(6) this len(2) secret_def k(1) [folded dh], of we rw]
  have "fst (dial cr random now key cc) = Ok (dialled now (k, sid, ak_id key))"
    by (simp add: d Let_def case_prod_beta)
  then show ?thesis
    using server k(2)
    by (intro exI [of _ k] exI [of _ "dialled now (k, sid, ak_id key)"])
      (simp add: good_key_def generate_key_pair_def spub_def dialled_def client_session_id_def session_new_def)
qed

text \<open>
  C1. Establishing a session. On either transport, when each side reads what the other wrote, a
  client with no key id, or with one of at most 256 bytes whose secret the server has, ends up with
  the session id the server drew for the connection and the very key the server keeps, of 32
  bytes, and the server knows the client under its key id.
\<close>

theorem dial_agreement:
  assumes "dh_ok cr" and "hkdf_ok cr"
    and "length (ak_id key) \<le> 256" and "rust_string (ak_id key)"
    and "ak_id key \<noteq> [] \<longrightarrow> key_store (ak_id key) = Some (ak_secret key)"
    and "c_cap cc = None" and "c_cap sc = None" and "c_out cc = []" and "c_out sc = []"
    and "(dial, handshake) \<in> {(client_dial, quic_handshake), (client_dial_tcp, tcp_handshake)}"
    and "c_in sc = c_out (snd (dial cr random now key cc))"
    and "c_in cc = c_out (snd (handshake cr server_secret (snd (generate_key_pair cr server_secret)) key_store sid sc))"
  shows "\<exists>k cl. length k = KEY_SIZE \<and> fst (dial cr random now key cc) = Ok cl \<and>
    cl_session_key cl = k \<and> client_session_id cl = sid \<and> cl_seq cl = 0 \<and>
    fst (handshake cr server_secret (snd (generate_key_pair cr server_secret)) key_store sid sc) = Ok (ak_id key, k)"
  using dial_handshake_ok [OF assms] .

theorem dial_agreement_witness:
  "\<exists>k cl. length k = KEY_SIZE \<and>
    fst (client_dial_tcp toy_crypto [1] 5 \<lparr>ak_id = [], ak_secret = []\<rparr>
      \<lparr>c_in = toy_public [2] @ u64_to_be 9, c_end = UnexpectedEof, c_out = [], c_cap = None\<rparr>) = Ok cl \<and>
    cl_session_key cl = k \<and> client_session_id cl = 9 \<and> cl_seq cl = 0 \<and>
    fst (tcp_handshake toy_crypto [2] (toy_public [2]) Map.empty 9
      \<lparr>c_in = hello [] (toy_public [1]), c_end = UnexpectedEof, c_out = [], c_cap = None\<rparr>) = Ok ([], k)"
proof -
  let ?key = "\<lparr>ak_id = [], ak_secret = []\<rparr> :: api_key"
  let ?cc = "\<lparr>c_in = toy_public [2] @ u64_to_be 9, c_end = UnexpectedEof, c_out = [], c_cap = None\<rparr>"
  let ?sc = "\<lparr>c_in = hello [] (toy_public [1]), c_end = UnexpectedEof, c_out = [], c_cap = None\<rparr>"
  have pub: "x25519_public toy_crypto = toy_public" by (simp add: toy_crypto_def)
  obtain k where k: "derive_session_key toy_crypto (x25519 toy_crypto [2] (toy_public [1]))
      (as_bytes ''hush-anonymous'') = Ok k"
    using derive_session_key_Ok [OF toy_hkdf_ok] by blast
  have s: "c_out (snd (tcp_handshake toy_crypto [2] (toy_public [2]) Map.empty 9 ?sc)) = toy_public [2] @ u64_to_be 9"
    unfolding tcp_handshake_def
    using server_handshake_hello [of ?sc "[]" "toy_public [1]" "[]" Map.empty "as_bytes ''hush-anonymous''"
        toy_crypto "[2]" k SvIo SvIo "toy_public [2]" 9] k by (simp add: secret_of_def rust_string_Nil)
  have c: "c_out (snd (client_dial_tcp toy_crypto [1] 5 ?key ?cc)) = hello [] (toy_public [1])"
    using client_handshake_writes [of ?cc ClIo "''read tcp handshake''" toy_crypto "[1]" ?key]
    by (simp add: client_dial_tcp_def pub Let_def case_prod_beta)
  show ?thesis
    using dial_agreement [OF toy_dh_ok toy_hkdf_ok, of ?key Map.empty ?cc ?sc client_dial_tcp tcp_handshake
        "[1]" 5 "[2]" 9] s c
    by (simp add: pub generate_key_pair_def rust_string_Nil)
qed

section \<open>Calls\<close>

text \<open>The bytes of a reply: a frame under \<open>seq\<close> that decodes, under the key, to the response.\<close>

definition reply_bytes :: "crypto \<Rightarrow> bytes \<Rightarrow> u32 \<Rightarrow> response \<Rightarrow> bytes \<Rightarrow> bool" where
  "reply_bytes cr key seq resp b \<longleftrightarrow> (\<exists>body. b = frame_bytes seq body \<and> length body + 4 \<le> 1048576 \<and>
     decode_response cr (Some key) (u32_to_be seq @ body) = Ok (resp\<lparr>resp_seq := seq\<rparr>))"

definition response_fits :: "response \<Rightarrow> bool" where
  "response_fits resp \<longleftrightarrow> (\<forall>m. resp_payload resp = Some m \<longrightarrow> map_fits m)"

lemma reply_frame:
  assumes "aead_ok cr" "good_key key" "good_nonce nonce" "response_fits resp"
  obtains body where "encode_response_body cr nonce (Some key) resp = Ok body"
    "encode_frame seq body = Ok (frame_bytes seq body)" "reply_bytes cr key seq resp (frame_bytes seq body)"
proof -
  have s: "sealing_ok cr nonce (Some key)" using assms(1-3) by (simp add: sealing_ok_def)
  have f: "\<And>m. resp_payload resp = Some m \<Longrightarrow> map_fits m" using assms(4) by (simp add: response_fits_def)
  obtain body where b: "encode_response_body cr nonce (Some key) resp = Ok body" "length body + 4 \<le> 1048576"
    "encode_frame seq body = Ok (frame_bytes seq body)"
    using response_frame [OF s, of resp seq] f by blast
  have "decode_response cr (Some key) (u32_to_be seq @ body) = Ok (resp\<lparr>resp_seq := seq\<rparr>)"
    using decode_response_seal [OF s _ b(1)] f by blast
  then show thesis using b by (intro that [of body]) (auto simp: reply_bytes_def)
qed

lemma send_frame_eq:
  assumes "encode_response_body cr nonce (Some key) resp = Ok body" "encode_frame seq body = Ok b" "c_cap c = None"
  shows "send_response cr nonce key seq resp c = c\<lparr>c_out := c_out c @ b\<rparr>"
    and "stream_write_response cr nonce c key seq resp = (Ok (), c\<lparr>c_out := c_out c @ b\<rparr>)"
  using assms by (simp_all add: send_response_def stream_write_response_def write_frame_eq write_all_def)

lemma send_response_ok:
  assumes "aead_ok cr" "good_key key" "good_nonce nonce" "response_fits resp" "c_cap c = None"
  obtains b where "send_response cr nonce key seq resp c = c\<lparr>c_out := c_out c @ b\<rparr>" "reply_bytes cr key seq resp b"
  using reply_frame [OF assms(1-4), of seq] assms(5)
  by (metis (no_types, lifting) send_frame_eq(1))

lemma read_reply_ok:
  assumes "reply_bytes cr (cl_session_key cl) seq resp b" and "c_in c = b @ rest"
  shows "read_reply cr cl c = (Ok (resp\<lparr>resp_seq := seq\<rparr>), c\<lparr>c_in := rest\<rparr>)"
proof -
  obtain body where b: "b = frame_bytes seq body" "length body + 4 \<le> 1048576"
    "decode_response cr (Some (cl_session_key cl)) (u32_to_be seq @ body) = Ok (resp\<lparr>resp_seq := seq\<rparr>)"
    using assms(1) by (auto simp: reply_bytes_def)
  have t: "unat (4 + word_of_nat (length body) :: u32) = length body + 4"
    using b(2) by (intro total_len) simp
  have "\<not> 4 + word_of_nat (length body) > MAX_FRAME_SIZE"
    using b(2) by (simp add: word_less_nat_alt t)
  then show ?thesis
    using assms(2) b t by (simp add: read_reply_def frame_bytes_def read_exact_def Let_def)
qed

text \<open>The bytes a call sends: a frame the server reads back as the request.\<close>

definition call_bytes :: "crypto \<Rightarrow> bytes \<Rightarrow> u32 \<Rightarrow> request \<Rightarrow> bytes \<Rightarrow> bool" where
  "call_bytes cr key seq req b \<longleftrightarrow> (\<forall>r rest. c_in r = b @ rest \<longrightarrow>
     read_request_async cr r (Some key) = (Ok (req, seq), r\<lparr>c_in := rest\<rparr>))"

lemma encode_call_ok:
  assumes "aead_ok cr" "good_key (cl_session_key cl)" "good_nonce nonce" "\<And>m. payload = Some m \<Longrightarrow> map_fits m"
  obtains b where "encode_call cr nonce cl seq opcode payload = Ok b"
    "call_bytes cr (cl_session_key cl) seq \<lparr>req_opcode = opcode, req_payload = payload\<rparr> b"
proof -
  let ?req = "\<lparr>req_opcode = opcode, req_payload = payload\<rparr>"
  have s: "sealing_ok cr nonce (Some (cl_session_key cl))" using assms(1-3) by (simp add: sealing_ok_def)
  have f: "\<And>m. req_payload ?req = Some m \<Longrightarrow> map_fits m" using assms(4) by simp
  obtain body where b: "encode_request_body cr nonce (Some (cl_session_key cl)) ?req = Ok body"
    "length body + 4 \<le> 1048576" "encode_frame seq body = Ok (frame_bytes seq body)"
    using request_frame [OF s, of ?req seq] f by blast
  show thesis
    using b decode_request_seal [OF s _ b(1), of seq] f read_request_bytes [OF b(2)]
    by (intro that [of "frame_bytes seq body"]) (auto simp: encode_call_def call_bytes_def)
qed

text \<open>What one request does to the application, and the response to it; \<open>None\<close> when the handler
  panics.\<close>

definition serve_one ::
    "(u16 \<rightharpoonup> 's handler_type) \<Rightarrow> u64 \<Rightarrow> string \<Rightarrow> request \<times> u32 \<Rightarrow> 's \<Rightarrow> (response \<times> 's) option" where
  "serve_one handlers sid aid r s = (case r of (req, seq) \<Rightarrow>
     (case handlers (req_opcode req) of
        None \<Rightarrow> Some (not_found_response (req_opcode req) seq, s)
      | Some (StreamH h) \<Rightarrow> Some (no_streaming_response seq, s)
      | Some (SyncH h) \<Rightarrow>
          (case h (request_of req sid aid) s of
             (Panics, s') \<Rightarrow> None
           | (Returns result, s') \<Rightarrow> Some (reply_of result, s'))))"

definition session_alive :: "session_store \<Rightarrow> u64 \<Rightarrow> 's observation \<Rightarrow> bool" where
  "session_alive st sid ob \<longleftrightarrow> (\<forall>sess. store_get st sid = Some sess \<longrightarrow>
     \<not> session_dead st (ob_now ob) (ob_later ob) sess)"

lemma server_touch_id [simp]: "server_touch now sid st = st"
  by (simp add: server_touch_def split: option.split)

lemma tcp_serve_ok:
  assumes "aead_ok cr" "good_key key" "good_nonce nonce"
    and "call_bytes cr key seq req b" and "c_in c = b @ rest" and "c_cap c = None"
    and "serve_one handlers sid aid (req, seq) s = Some (resp, s')" and "response_fits resp"
  obtains out where "tcp_serve cr handlers sid aid key nonce c s =
      (Continue, c\<lparr>c_in := rest, c_out := c_out c @ out\<rparr>, s')" "reply_bytes cr key seq resp out"
proof -
  let ?c = "c\<lparr>c_in := rest\<rparr>"
  have r: "read_request_async cr c (Some key) = (Ok (req, seq), ?c)"
    using assms(4,5) by (simp add: call_bytes_def)
  obtain out where out: "send_response cr nonce key seq resp ?c = ?c\<lparr>c_out := c_out c @ out\<rparr>"
    "reply_bytes cr key seq resp out"
    using send_response_ok [OF assms(1-3,8), of ?c seq] assms(6) by auto
  have "tcp_serve cr handlers sid aid key nonce c s =
      (Continue, send_response cr nonce key seq resp ?c, s')"
    using assms(7)
    by (auto simp: tcp_serve_def r serve_one_def split: option.splits handler_type.splits prod.splits outcome.splits)
  then show thesis using out by (intro that [of out]) simp_all
qed

lemma tcp_round_serves:
  assumes "aead_ok cr" "good_key key" "good_nonce (ob_nonce ob)"
    and "ob_env ob (st0, s0) = (st, s)" and "session_alive st sid ob"
    and "call_bytes cr key seq req b" and "c_in c = b @ rest" and "c_cap c = None"
    and "serve_one handlers sid aid (req, seq) s = Some (resp, s')" and "response_fits resp"
  obtains out where "tcp_round cr handlers sid aid key ob st0 c s0 =
      (Continue, c\<lparr>c_in := rest, c_out := c_out c @ out\<rparr>, st, s')" "reply_bytes cr key seq resp out"
proof -
  obtain out where "tcp_serve cr handlers sid aid key (ob_nonce ob) c s =
      (Continue, c\<lparr>c_in := rest, c_out := c_out c @ out\<rparr>, s')" "reply_bytes cr key seq resp out"
    using tcp_serve_ok [OF assms(1-3,6-10)] .
  then show thesis
    using assms(4,5)
    by (intro that [of out]) (simp_all add: tcp_round_eq session_alive_def Let_def split: option.split bool.split)
qed

lemma read_reply_keeps:
  "c_out (snd (read_reply cr cl c)) = c_out c" "c_cap (snd (read_reply cr cl c)) = c_cap c"
  by (auto simp: read_reply_def Let_def read_exact_def)

text \<open>
  C4. A call. With the session key on both sides and the session alive, a request made with \<open>do_\<close>
  over TCP, whose payload is within the TLV limits, reaches the handler registered for its opcode
  exactly once, with its payload, the session id and the key id; what the handler answers (or the
  \<open>InternalError\<close> that stands for its error) is what the client gets, under the sequence number of
  the call, and the sequence number advances by one, modulo \<open>2^32\<close>.
\<close>

theorem call_roundtrip:
  assumes "aead_ok cr" and "length (cl_session_key cl) = KEY_SIZE"
    and "length client_nonce = NONCE_SIZE" and "length (ob_nonce ob) = NONCE_SIZE"
    and "\<forall>m. payload = Some m \<longrightarrow> map_fits m"
    and "ob_env ob (stp, sp) = (st, s)" and "session_alive st sid ob"
    and "handlers opcode = Some (SyncH h)"
    and "h (request_of \<lparr>req_opcode = opcode, req_payload = payload\<rparr> sid aid) s = (Returns result, s')"
    and "response_fits (reply_of result)"
    and "c_cap cc = None" and "c_cap sc = None" and "c_out cc = []" and "c_out sc = []"
    and "c_in sc = c_out (snd (snd (do_tcp cr client_nonce opcode payload cl cc)))"
    and "tcp_round cr handlers sid aid (cl_session_key cl) ob stp sc sp = (fl, sc', st', s1)"
    and "c_in cc = c_out sc'"
  shows "fl = Continue \<and> st' = st \<and> s1 = s' \<and> c_in sc' = [] \<and>
    (\<exists>cc'. do_tcp cr client_nonce opcode payload cl cc =
       (Ok ((reply_of result)\<lparr>resp_seq := cl_seq cl\<rparr>), cl\<lparr>cl_seq := cl_seq cl + 1\<rparr>, cc') \<and> c_in cc' = [])"
proof -
  let ?key = "cl_session_key cl" and ?seq = "cl_seq cl" and ?req = "\<lparr>req_opcode = opcode, req_payload = payload\<rparr>"
  have good: "good_key ?key" "good_nonce client_nonce" "good_nonce (ob_nonce ob)"
    using assms(2-4) by (simp_all add: good_key_def good_nonce_def)
  obtain b where b: "encode_call cr client_nonce cl ?seq opcode payload = Ok b" "call_bytes cr ?key ?seq ?req b"
    using encode_call_ok [OF assms(1) good(1,2), of payload ?seq opcode] assms(5) by blast
  have call: "do_tcp cr client_nonce opcode payload cl cc =
      (let (r, c2) = read_reply cr cl (cc\<lparr>c_out := b\<rparr>) in (r, cl\<lparr>cl_seq := ?seq + 1\<rparr>, c2))"
    using b(1) assms(11,13) by (simp add: do_tcp_def next_seq_def write_all_def)
  then have "c_in sc = b @ []"
    using assms(15) read_reply_keeps(1) [of cr cl "cc\<lparr>c_out := b\<rparr>"] by (simp add: case_prod_beta)
  moreover have "serve_one handlers sid aid (?req, ?seq) s = Some (reply_of result, s')"
    using assms(8,9) by (simp add: serve_one_def)
  ultimately obtain out where out: "tcp_round cr handlers sid aid ?key ob stp sc sp =
      (Continue, sc\<lparr>c_in := [], c_out := c_out sc @ out\<rparr>, st, s')" "reply_bytes cr ?key ?seq (reply_of result) out"
    using tcp_round_serves [OF assms(1) good(1,3) assms(6,7) b(2) _ assms(12) _ assms(10)] by metis
  then have "c_in (cc\<lparr>c_out := b\<rparr>) = out @ []" using assms(14,16,17) by simp
  then have "read_reply cr cl (cc\<lparr>c_out := b\<rparr>) = (Ok ((reply_of result)\<lparr>resp_seq := ?seq\<rparr>), cc\<lparr>c_in := [], c_out := b\<rparr>)"
    using read_reply_ok [OF out(2)] by simp
  then show ?thesis using call out(1) assms(16) by simp
qed

lemma do_tcp_writes:
  "c_cap c = None \<Longrightarrow> c_out (snd (snd (do_tcp cr nonce opcode payload cl c))) =
     c_out c @ (case encode_call cr nonce cl (cl_seq cl) opcode payload of Err e \<Rightarrow> [] | Ok b \<Rightarrow> b)"
  by (simp add: do_tcp_def next_seq_def write_all_def case_prod_beta read_reply_keeps Let_def split: sum.split)

text \<open>A client, an echoing handler that counts its calls, and an observation, for the witnesses.\<close>

definition toy_client :: client where
  "toy_client = \<lparr>cl_session = session_new 0 5 ''alice'' toy_key, cl_seq = 3, cl_session_key = toy_key\<rparr>"

definition toy_echo :: "nat sync_handler" where
  "toy_echo req n = (Returns (Ok (new_response (sr_payload req))), n + 1)"

definition toy_handlers :: "u16 \<rightharpoonup> nat handler_type" where
  "toy_handlers = [7 \<mapsto> SyncH toy_echo]"

definition toy_ob :: "nat observation" where
  "toy_ob = \<lparr>ob_now = 0, ob_later = 0, ob_nonce = toy_nonce, ob_env = (\<lambda>x. x)\<rparr>"

lemma toy_alive: "session_alive (store_new default_config) sid toy_ob"
  by (simp add: session_alive_def store_get_def store_new_def)

definition toy_conn :: "bytes \<Rightarrow> conn" where
  "toy_conn b = \<lparr>c_in = b, c_end = UnexpectedEof, c_out = [], c_cap = None\<rparr>"

lemma toy_conn_simps [simp]:
  "c_in (toy_conn b) = b" "c_out (toy_conn b) = []" "c_cap (toy_conn b) = None"
  by (simp_all add: toy_conn_def)

lemma toy_simps:
  "cl_session_key toy_client = toy_key" "cl_seq toy_client = 3" "ob_env toy_ob x = x"
  "ob_nonce toy_ob = toy_nonce" "toy_handlers 7 = Some (SyncH toy_echo)" "toy_handlers 9 = None"
  by (simp_all add: toy_client_def toy_ob_def toy_handlers_def)

lemma toy_echo_answer:
  "toy_echo (request_of \<lparr>req_opcode = 7, req_payload = Some toy_map\<rparr> sid aid) n =
     (Returns (Ok (new_response toy_map)), n + 1)"
  by (simp add: toy_echo_def request_of_def)

lemma toy_response_fits: "response_fits (new_response toy_map)" "response_fits (reply_of (Ok (new_response toy_map)))"
  by (simp_all add: response_fits_def reply_of_def new_response_def toy_map_fits)

lemma toy_lengths: "length toy_key = 32" "length toy_nonce = 12"
  by (simp_all add: toy_key_def toy_nonce_def)

theorem call_roundtrip_witness:
  "\<exists>replies cc'. do_tcp toy_crypto toy_nonce 7 (Some toy_map) toy_client (toy_conn replies) =
     (Ok ((new_response toy_map)\<lparr>resp_seq := 3\<rparr>), toy_client\<lparr>cl_seq := 4\<rparr>, cc') \<and> c_in cc' = []"
proof -
  define sent where "sent = c_out (snd (snd (do_tcp toy_crypto toy_nonce 7 (Some toy_map) toy_client (toy_conn []))))"
  obtain fl sc' st' n where round: "tcp_round toy_crypto toy_handlers 5 ''alice'' toy_key toy_ob
      (store_new default_config) (toy_conn sent) 0 = (fl, sc', st', n)" by (metis prod_cases4)
  have same: "sent = c_out (snd (snd (do_tcp toy_crypto toy_nonce 7 (Some toy_map) toy_client (toy_conn (c_out sc')))))"
    unfolding sent_def by (simp add: do_tcp_writes)
  have "fl = Continue \<and> st' = store_new default_config \<and> n = 1 \<and> c_in sc' = [] \<and>
    (\<exists>cc'. do_tcp toy_crypto toy_nonce 7 (Some toy_map) toy_client (toy_conn (c_out sc')) =
       (Ok ((reply_of (Ok (new_response toy_map)))\<lparr>resp_seq := cl_seq toy_client\<rparr>),
        toy_client\<lparr>cl_seq := cl_seq toy_client + 1\<rparr>, cc') \<and> c_in cc' = [])"
    by (intro call_roundtrip [OF toy_aead_ok, where ob = toy_ob and stp = "store_new default_config"
          and sp = 0 and s = 0 and handlers = toy_handlers and h = toy_echo and sid = 5 and aid = "''alice''"
          and sc = "toy_conn sent"])
      (simp_all add: toy_simps toy_lengths toy_map_fits toy_alive toy_echo_answer toy_response_fits round same [symmetric])
  then show ?thesis
    by (intro exI [of _ "c_out sc'"]) (auto simp: toy_simps reply_of_def)
qed

text \<open>
  What a sequence of calls does, the other tasks' changes of the application's state in between
  included; \<open>None\<close> when a handler panics.
\<close>

fun serve_all ::
    "(u16 \<rightharpoonup> 's handler_type) \<Rightarrow> u64 \<Rightarrow> string \<Rightarrow> (nat \<Rightarrow> 's observation) \<Rightarrow> nat \<Rightarrow> session_store \<Rightarrow>
       (request \<times> u32) list \<Rightarrow> 's \<Rightarrow> (response list \<times> 's) option" where
  "serve_all handlers sid aid obs n st [] s = Some ([], snd (ob_env (obs n) (st, s)))"
| "serve_all handlers sid aid obs n st (r # rs) s =
     (case serve_one handlers sid aid r (snd (ob_env (obs n) (st, s))) of
        None \<Rightarrow> None
      | Some (resp, s') \<Rightarrow>
          (case serve_all handlers sid aid obs (Suc n) st rs s' of
             None \<Rightarrow> None | Some (resps, s'') \<Rightarrow> Some (resp # resps, s'')))"

lemma tcp_loop_serves:
  assumes "aead_ok cr" "good_key key" "\<And>i. good_nonce (ob_nonce (obs i))"
    and "\<And>i s. fst (ob_env (obs i) (st, s)) = st" "\<And>i. session_alive st sid (obs i)"
    and "list_all2 (\<lambda>(req, seq) b. call_bytes cr key seq req b) calls bs"
    and "c_in c = concat bs" "c_cap c = None"
    and "serve_all handlers sid aid obs n st calls s = Some (resps, s')"
    and "\<forall>r \<in> set resps. response_fits r"
  shows "\<exists>outs. tcp_loop cr handlers sid aid key obs n c st s =
      (Break, c\<lparr>c_in := [], c_out := c_out c @ concat outs\<rparr>, st, s') \<and>
    list_all2 (\<lambda>((req, seq), resp) out. reply_bytes cr key seq resp out) (zip calls resps) outs"
  using assms(6-)
proof (induction calls arbitrary: bs c n s resps)
  case Nil
  have env: "ob_env (obs n) (st, s) = (st, s')"
    using Nil.prems(4) assms(4) [of n s] by (simp add: prod_eq_iff)
  have "tcp_serve cr handlers sid aid key (ob_nonce (obs n)) c s' = (Break, c, s')"
    using Nil.prems(1,2) by (simp add: tcp_serve_def read_request_async_def read_frame_async_def read_exact_def)
  then have "tcp_round cr handlers sid aid key (obs n) st c s = (Break, c, st, s')"
    using env assms(5) [of n] by (simp add: tcp_round_eq session_alive_def Let_def split: option.split bool.split)
  then show ?case
    using Nil.prems(1,2,4) by (intro exI [of _ "[]"]) (simp add: tcp_loop.simps [of _ _ _ _ _ _ n])
next
  case (Cons call calls)
  obtain req seq where call: "call = (req, seq)" by (cases call)
  obtain b bs' where bs: "bs = b # bs'" "call_bytes cr key seq req b"
    "list_all2 (\<lambda>(req, seq) b. call_bytes cr key seq req b) calls bs'"
    using Cons.prems(1) by (auto simp: list_all2_Cons1 call)
  let ?s = "snd (ob_env (obs n) (st, s))"
  obtain resp s1 resps' where one: "serve_one handlers sid aid (req, seq) ?s = Some (resp, s1)"
    and all: "serve_all handlers sid aid obs (Suc n) st calls s1 = Some (resps', s')" and resps: "resps = resp # resps'"
    using Cons.prems(4) by (auto simp: call split: option.splits)
  have env: "ob_env (obs n) (st, s) = (st, ?s)" using assms(4) [of n s] by (simp add: prod_eq_iff)
  obtain out where out: "tcp_round cr handlers sid aid key (obs n) st c s =
      (Continue, c\<lparr>c_in := concat bs', c_out := c_out c @ out\<rparr>, st, s1)" "reply_bytes cr key seq resp out"
  proof (rule tcp_round_serves [OF assms(1-3) env assms(5) bs(2) _ _ one])
    show "c_in c = b @ concat bs'" "c_cap c = None" "response_fits resp"
      using Cons.prems(2,3,5) bs(1) resps by simp_all
  qed
  let ?c = "c\<lparr>c_in := concat bs', c_out := c_out c @ out\<rparr>"
  obtain outs where outs: "tcp_loop cr handlers sid aid key obs (Suc n) ?c st s1 =
      (Break, ?c\<lparr>c_in := [], c_out := c_out ?c @ concat outs\<rparr>, st, s')"
    "list_all2 (\<lambda>((req, seq), resp) out. reply_bytes cr key seq resp out) (zip calls resps') outs"
    using Cons.IH [OF bs(3), of ?c "Suc n" s1 resps'] all Cons.prems(3,5) resps by auto
  show ?case
    using outs out by (intro exI [of _ "out # outs"])
      (simp add: tcp_loop.simps [of _ _ _ _ _ _ n] call resps)
qed

text \<open>
  C5. A TCP connection is served in order. While the session lives, a stream of requests gets one
  reply per request, in the order of the requests and each under its request's sequence number:
  the handler's response, \<open>InternalError\<close> for a handler's error, \<open>NotFound\<close> for an unknown opcode,
  \<open>BadRequest\<close> for a streaming handler; and the handlers run once per request, in that order, other
  tasks' changes of their shared state in between. When the stream ends, so does the loop.
\<close>

theorem tcp_serves_in_order:
  assumes "aead_ok cr" and "length key = KEY_SIZE" and "\<forall>i. length (ob_nonce (obs i)) = NONCE_SIZE"
    and "\<forall>i s. fst (ob_env (obs i) (st, s)) = st" and "\<forall>i. session_alive st sid (obs i)"
    and "list_all2 (\<lambda>(req, seq) b. call_bytes cr key seq req b) calls bs"
    and "c_in c = concat bs" and "c_cap c = None"
    and "serve_all handlers sid aid obs n st calls s = Some (resps, s')"
    and "\<forall>r \<in> set resps. response_fits r"
  shows "\<exists>outs. tcp_loop cr handlers sid aid key obs n c st s =
      (Break, c\<lparr>c_in := [], c_out := c_out c @ concat outs\<rparr>, st, s') \<and>
    list_all2 (\<lambda>((req, seq), resp) out. reply_bytes cr key seq resp out) (zip calls resps) outs"
  using assms by (intro tcp_loop_serves) (auto simp: good_key_def good_nonce_def)

theorem tcp_serves_in_order_witness:
  "\<exists>b1 b2 outs. tcp_loop toy_crypto toy_handlers 5 ''alice'' toy_key (\<lambda>_. toy_ob) 0
      (toy_conn (b1 @ b2)) (store_new default_config) 0 =
      (Break, (toy_conn [])\<lparr>c_out := concat outs\<rparr>, store_new default_config, 1) \<and>
    list_all2 (\<lambda>((req, seq), resp) out. reply_bytes toy_crypto toy_key seq resp out)
      [((\<lparr>req_opcode = 7, req_payload = Some toy_map\<rparr>, 3), new_response toy_map),
       ((\<lparr>req_opcode = 9, req_payload = None\<rparr>, 4), not_found_response 9 4)] outs"
proof -
  have good: "good_key (cl_session_key toy_client)" "good_nonce toy_nonce"
    by (simp_all add: toy_client_def toy_sealing)
  obtain b1 where b1: "call_bytes toy_crypto toy_key 3 \<lparr>req_opcode = 7, req_payload = Some toy_map\<rparr> b1"
    using encode_call_ok [OF toy_aead_ok good, of "Some toy_map" 3 7] toy_map_fits by (auto simp: toy_client_def)
  obtain b2 where b2: "call_bytes toy_crypto toy_key 4 \<lparr>req_opcode = 9, req_payload = None\<rparr> b2"
    using encode_call_ok [OF toy_aead_ok good, of None 4 9] by (auto simp: toy_client_def)
  have nf: "response_fits (not_found_response 9 4)"
    using length_tlv_le [of "String ''opcode''"] length_tlv_le [of "Uint16 9"] vdepth_Map_le [of 1]
    by (simp add: response_fits_def not_found_response_def map_new_def map_fits_def wf_map_def
        rust_string_ascii fits_def MAX_DECODE_DEPTH_def vdepth.simps)
  let ?calls = "[(\<lparr>req_opcode = 7, req_payload = Some toy_map\<rparr>, 3), (\<lparr>req_opcode = 9, req_payload = None\<rparr>, 4)]"
  have "\<exists>outs. tcp_loop toy_crypto toy_handlers 5 ''alice'' toy_key (\<lambda>_. toy_ob) 0
      (toy_conn (b1 @ b2)) (store_new default_config) 0 =
      (Break, (toy_conn (b1 @ b2))\<lparr>c_in := [], c_out := c_out (toy_conn (b1 @ b2)) @ concat outs\<rparr>, store_new default_config, 1) \<and>
    list_all2 (\<lambda>((req, seq), resp) out. reply_bytes toy_crypto toy_key seq resp out)
      (zip ?calls [new_response toy_map, not_found_response 9 4]) outs"
    by (rule tcp_serves_in_order [OF toy_aead_ok, where bs = "[b1, b2]"])
      (simp_all add: toy_lengths toy_simps toy_alive b1 b2 nf serve_one_def toy_echo_answer
        toy_response_fits, simp add: reply_of_def)
  then show ?thesis by (intro exI [of _ b1] exI [of _ b2]) (simp add: toy_conn_def)
qed

end
