(* ===== verification/Hush_Server_Props.thy ===== *)
theory Hush_Server_Props
  imports Hush_Link
begin

text \<open>
  What the server of \<open>src/server.rs\<close> guarantees for one connection: who reaches a handler, what
  happens to expired and to collected sessions, that a connection cleans up its session and when
  it does not, and how media tokens are tied to the server's sessions.
\<close>

section \<open>Only sealed requests reach a handler\<close>

lemma read_request_sealed:
  assumes "aead_ok cr" "good_key key" "read_request_async cr c (Some key) = (Ok (req, seq), c1)"
  shows "\<exists>nonce p body. length nonce = NONCE_SIZE \<and>
    encrypt cr nonce key (u16_to_be (req_opcode req) @ p) = Ok body \<and>
    c_in c = frame_bytes seq body @ c_in c1 \<and> req_payload req = decode_map_opt p"
proof -
  obtain f where f: "read_frame_async c = (Ok f, c1)"
    and d: "decode_request cr (Some key) (u32_to_be (frame_seq f) @ frame_data f) = Ok (req, seq)"
    using assms(3) by (auto simp: read_request_async_def Let_def split: prod.splits sum.splits)
  have seq: "seq = frame_seq f" using d by (auto simp: decode_request_def and_then_eq_Inr Let_def split: if_splits)
  obtain plain where o: "decrypt cr key (frame_data f) = Ok plain" "2 \<le> length plain"
    and r: "req = \<lparr>req_opcode = u16_from_be (take 2 plain),
      req_payload = (if length plain > 2 then decode_map_opt (drop 2 plain) else None)\<rparr>"
    using d by (auto simp: decode_request_def open_body_def and_then_eq_Inr Let_def split: if_splits)
  have "u16_to_be (req_opcode req) @ drop 2 plain = plain" using be16.split_eq [OF o(2)] r by simp
  then have "encrypt cr (take 12 (frame_data f)) key (u16_to_be (req_opcode req) @ drop 2 plain) = Ok (frame_data f)"
    "length (take 12 (frame_data f)) = NONCE_SIZE"
    using decrypt_genuine [OF assms(1,2) o(1)] by (simp_all add: good_nonce_def)
  moreover have "req_payload req = decode_map_opt (drop 2 plain)" using r o(2) by (simp add: decode_map_opt_def)
  moreover have "c_in c = frame_bytes seq (frame_data f) @ c_in c1"
    using f seq by (auto simp: read_frame_Ok_iff)
  ultimately show ?thesis by blast
qed

text \<open>With a bad key (the empty one of a session that is gone), nothing is read or answered.\<close>

lemma read_request_out: "c_out (snd (read_request_async cr c key)) = c_out c"
  by (auto simp: read_request_async_def read_frame_async_def read_exact_def Let_def split: sum.split prod.split)

lemma read_request_cap: "c_cap (snd (read_request_async cr c key)) = c_cap c"
  by (auto simp: read_request_async_def read_frame_async_def read_exact_def Let_def split: sum.split prod.split)

lemma read_request_bad_key:
  assumes "aead_ok cr" "\<not> good_key key"
  shows "\<exists>e c'. read_request_async cr c (Some key) = (Err e, c') \<and> c_out c' = c_out c"
proof -
  have "\<not> is_ok (decode_request cr (Some key) w)" for w
    using bad_key_length(2) [OF assms] by (auto simp: decode_request_def open_body_def is_ok_iff and_then_eq_Inr)
  then have "\<not> is_ok (fst (read_request_async cr c (Some key)))"
    by (auto simp: read_request_async_def Let_def split: prod.splits sum.splits)
  then show ?thesis using read_request_out [of cr c "Some key"] by (auto simp: not_is_ok_iff prod_eq_iff)
qed

lemma send_response_bad_key:
  "aead_ok cr \<Longrightarrow> \<not> good_key key \<Longrightarrow> send_response cr nonce key seq resp c = c"
  by (simp add: send_response_def encode_response_body_def seal_body_def bad_key_length Let_def)

text \<open>
  C8. No handler without the key. Whatever arrives on the stream, on TCP and on QUIC: unless the
  bytes at its front are a frame whose body was sealed, under the session key the server holds,
  from an opcode and a payload, no handler runs (the application's state is unchanged) and TCP
  closes the connection without an answer.
\<close>

definition sealed_request :: "crypto \<Rightarrow> bytes \<Rightarrow> bytes \<Rightarrow> bool" where
  "sealed_request cr key b \<longleftrightarrow> (\<exists>nonce opcode p body seq rest. length nonce = NONCE_SIZE \<and>
     encrypt cr nonce key (u16_to_be opcode @ p) = Ok body \<and> b = frame_bytes seq body @ rest)"

theorem handlers_need_sealed_request:
  assumes "aead_ok cr" and "\<not> sealed_request cr key (c_in c)"
  shows "(length key = KEY_SIZE \<longrightarrow> (\<exists>c'. tcp_serve cr handlers sid aid key nonce c s = (Break, c', s) \<and> c_out c' = c_out c)) \<and>
    ((\<forall>sess. store_get st_key sid = Some sess \<longrightarrow> sess_key sess = key \<and> length key = KEY_SIZE) \<longrightarrow>
       snd (handle_request_stream cr handlers sid aid nonce now later st st_key c s) = s)"
proof (intro conjI impI)
  have err: "\<exists>e c'. read_request_async cr c (Some key) = (Err e, c') \<and> c_out c' = c_out c" if "good_key key"
  proof (cases "fst (read_request_async cr c (Some key))")
    case (Inr x)
    then obtain req seq c' where "read_request_async cr c (Some key) = (Ok (req, seq), c')"
      by (metis prod.exhaust fst_conv)
    from read_request_sealed [OF assms(1) that this] assms(2) show ?thesis
      unfolding sealed_request_def by blast
  next
    case (Inl e)
    then show ?thesis using read_request_out [of cr c "Some key"] by (intro exI [of _ e] exI [of _ "snd (read_request_async cr c (Some key))"])
      (simp add: prod_eq_iff)
  qed
  {
    assume "length key = KEY_SIZE"
    then obtain e c' where "read_request_async cr c (Some key) = (Err e, c')" "c_out c' = c_out c"
      using err by (auto simp: good_key_def)
    then show "\<exists>c'. tcp_serve cr handlers sid aid key nonce c s = (Break, c', s) \<and> c_out c' = c_out c"
      by (simp add: tcp_serve_def)
  }
  assume k: "\<forall>sess. store_get st_key sid = Some sess \<longrightarrow> sess_key sess = key \<and> length key = KEY_SIZE"
  let ?k = "case store_get st_key sid of Some sess \<Rightarrow> sess_key sess | None \<Rightarrow> []"
  have "\<exists>e c'. read_request_async cr c (Some ?k) = (Err e, c')"
  proof (cases "store_get st_key sid")
    case None
    then show ?thesis using read_request_bad_key [OF assms(1), of "[]" c] by (auto simp: good_key_def)
  next
    case (Some sess)
    then show ?thesis using k err by (auto simp: good_key_def)
  qed
  then show "snd (handle_request_stream cr handlers sid aid nonce now later st st_key c s) = s"
    by (auto simp: handle_request_stream_eq Let_def split: option.splits)
qed

theorem handlers_need_sealed_request_witness:
  "\<exists>c'. tcp_serve toy_crypto toy_handlers 5 ''alice'' toy_key toy_nonce (toy_conn [0, 0, 0, 4, 1, 2, 3, 4]) 0 = (Break, c', 0) \<and>
     c_out c' = []"
proof -
  have "\<not> sealed_request toy_crypto toy_key (c_in (toy_conn [0, 0, 0, 4, 1, 2, 3, 4]))"
  proof
    assume "sealed_request toy_crypto toy_key (c_in (toy_conn [0, 0, 0, 4, 1, 2, 3, 4]))"
    then obtain nonce opcode p body seq rest where b: "length nonce = NONCE_SIZE"
      "encrypt toy_crypto nonce toy_key (u16_to_be opcode @ p) = Ok body"
      "[0, 0, 0, 4, 1, 2, 3, 4] = frame_bytes seq body @ rest"
      by (auto simp: sealed_request_def)
    have "length body = length (u16_to_be opcode @ p) + 28"
      using encrypt_Ok(1) [OF toy_aead_ok toy_sealing(2) _ b(2)] b(1) by (simp add: good_nonce_def)
    then show False using arg_cong [OF b(3), of length] by (simp add: hush_len)
  qed
  from handlers_need_sealed_request [OF toy_aead_ok this, of toy_handlers 5 "''alice''" toy_nonce 0]
  show ?thesis by (simp add: toy_lengths)
qed

section \<open>Expired and collected sessions\<close>

text \<open>
  C30. An expired session is refused. When the session is in the store and has outlived
  \<open>max_lifetime\<close> or \<open>idle_timeout\<close> at the time of the check, the request is not even read: the
  client gets \<open>SessionExpired\<close> under sequence number 0, no handler runs, and on TCP the
  connection ends.
\<close>

theorem expired_session_refused:
  assumes "aead_ok cr" and "length key = KEY_SIZE" and "length (ob_nonce ob) = NONCE_SIZE" and "c_cap c = None"
    and "ob_env ob (st0, s0) = (st, s)"
    and "store_get st sid = Some sess" and "sess_key sess = key"
    and "is_expired st (ob_now ob) sess \<or> is_idle_dead st (ob_later ob) sess"
  shows "\<exists>out. reply_bytes cr key 0 expired_response out \<and>
    tcp_round cr handlers sid aid key ob st0 c s0 = (Break, c\<lparr>c_out := c_out c @ out\<rparr>, st, s) \<and>
    handle_request_stream cr handlers sid aid (ob_nonce ob) (ob_now ob) (ob_later ob) st st_key c s =
      (c\<lparr>c_out := c_out c @ out\<rparr>, s)"
proof -
  have "good_key key" "good_nonce (ob_nonce ob)" "response_fits expired_response"
    using assms(2,3) by (simp_all add: good_key_def good_nonce_def response_fits_def expired_response_def)
  from send_response_ok [OF assms(1) this assms(4), of 0] obtain out where
    "send_response cr (ob_nonce ob) key 0 expired_response c = c\<lparr>c_out := c_out c @ out\<rparr>"
    "reply_bytes cr key 0 expired_response out" by blast
  then show ?thesis
    using assms(5-8)
    by (intro exI [of _ out]) (simp add: tcp_round_eq handle_request_stream_eq session_dead_def)
qed

theorem expired_session_refused_witness:
  "\<exists>out. reply_bytes toy_crypto toy_key 0 expired_response out \<and>
    tcp_round toy_crypto toy_handlers 5 ''alice'' toy_key (toy_ob\<lparr>ob_later := from_secs 301\<rparr>)
      (store_insert (session_new 0 5 ''alice'' toy_key) (store_new default_config)) (toy_conn []) 0 =
    (Break, (toy_conn [])\<lparr>c_out := out\<rparr>,
     store_insert (session_new 0 5 ''alice'' toy_key) (store_new default_config), 0)"
proof -
  let ?st = "store_insert (session_new 0 5 ''alice'' toy_key) (store_new default_config)"
  have "is_idle_dead ?st (from_secs 301) (session_new 0 5 ''alice'' toy_key)"
    by (simp add: is_idle_dead_def elapsed_def session_new_def default_config_def DEFAULT_IDLE_TIMEOUT_def from_secs_def)
  moreover have "store_get ?st 5 = Some (session_new 0 5 ''alice'' toy_key)"
    by (simp add: store_get_def store_insert_def session_new_def)
  ultimately show ?thesis
    using expired_session_refused [OF toy_aead_ok, of toy_key "toy_ob\<lparr>ob_later := from_secs 301\<rparr>" "toy_conn []"
        ?st 0 ?st 0 5 "session_new 0 5 ''alice'' toy_key" toy_handlers "''alice''" ?st]
    by (auto simp: toy_lengths toy_ob_def session_new_def)
qed

lemma gone_session_stream:
  assumes "aead_ok cr" and "store_get st sid = None"
  shows "\<exists>c'. handle_request_stream cr handlers sid aid nonce now later st st c s = (c', s) \<and> c_out c' = c_out c"
proof -
  obtain e c' where "read_request_async cr c (Some []) = (Err e, c')" "c_out c' = c_out c"
    using read_request_bad_key [OF assms(1), of "[]" c] by (auto simp: good_key_def)
  then show ?thesis
    using assms(2) send_response_bad_key [OF assms(1), of "[]"]
    by (simp add: handle_request_stream_eq good_key_def)
qed

text \<open>
  C31. A session that is no longer in the store. On QUIC its requests reach no handler and get no
  answer. A TCP connection goes on: its round no longer depends on the clock, so once the
  collector has removed the session at \<open>max_lifetime\<close> the connection is served without limit.
\<close>

theorem collected_session:
  assumes "aead_ok cr" and "store_get st sid = None" and "ob_env ob (st0, s0) = (st, s)"
  shows "(\<exists>c'. handle_request_stream cr handlers sid aid nonce now later st st c s = (c', s) \<and> c_out c' = c_out c) \<and>
    tcp_round cr handlers sid aid key ob st0 c s0 =
      tcp_round cr handlers sid aid key (ob\<lparr>ob_now := now, ob_later := later\<rparr>) st0 c s0 \<and>
    tcp_round cr handlers sid aid key ob st0 c s0 =
      (case tcp_serve cr handlers sid aid key (ob_nonce ob) c s of (fl, c', s') \<Rightarrow> (fl, c', st, s'))"
  using gone_session_stream [OF assms(1,2)] assms(2,3) by (simp add: tcp_round_eq Let_def)

theorem collected_session_witness:
  "tcp_round toy_crypto toy_handlers 5 ''alice'' toy_key toy_ob (store_new default_config) (toy_conn []) 0 =
   tcp_round toy_crypto toy_handlers 5 ''alice'' toy_key (toy_ob\<lparr>ob_now := from_secs 1000000, ob_later := 0\<rparr>)
     (store_new default_config) (toy_conn []) 0"
  using collected_session [OF toy_aead_ok, of "store_new default_config" 5 toy_ob "store_new default_config" 0 0]
  by (simp add: toy_simps store_get_def store_new_def)

lemma server_handshake_key:
  assumes "hkdf_ok cr" "server_handshake re we cr priv pub ks sid c = (Ok (aid, key), c')"
  shows "length key = KEY_SIZE"
proof -
  have "\<exists>sh secret. derive_session_key cr sh secret = Ok key"
    using assms(2)
    by (auto simp: server_handshake_def answer_handshake_def Let_def and_then_eq_Inr
        split: prod.splits sum.splits if_splits option.splits)
  then show ?thesis using derive_session_key_Ok [OF assms(1)] by (auto simp: good_key_def) (metis sum.inject(2))
qed

text \<open>A handshake of an anonymous client, for the witnesses.\<close>

lemma toy_handshake:
  obtains k where "good_key k" "server_handshake re we toy_crypto [2] (toy_public [2]) Map.empty 1
      (toy_conn (hello [] (toy_public [1]))) =
    (Ok ([], k), (toy_conn (hello [] (toy_public [1])))\<lparr>c_in := [],
      c_out := c_out (toy_conn (hello [] (toy_public [1]))) @ toy_public [2] @ u64_to_be 1\<rparr>)"
proof -
  obtain k where k: "derive_session_key toy_crypto (x25519 toy_crypto [2] (toy_public [1]))
      (as_bytes ''hush-anonymous'') = Ok k" "good_key k"
    using derive_session_key_Ok [OF toy_hkdf_ok] by blast
  show thesis
    using server_handshake_hello [of "toy_conn (hello [] (toy_public [1]))" "[]" "toy_public [1]" "[]" Map.empty
        "as_bytes ''hush-anonymous''" toy_crypto "[2]" k re we "toy_public [2]" 1] k
    by (intro that [of k]) (simp_all add: secret_of_def)
qed

section \<open>The end of a connection\<close>

lemma handle_tcp_connection_cases:
  assumes "handle_tcp_connection cr handlers ks priv pub sid now obs c st s = (r, c', st', s')"
  shows "(\<exists>e. r = Some (Err e) \<and> st' = st \<and> s' = s) \<or> (r = Some (Ok ()) \<and> (\<exists>st2. st' = store_delete sid st2)) \<or>
    (r = None \<and> (\<exists>aid key c1. tcp_loop cr handlers sid aid key obs 0 c1
       (store_insert (session_new now sid aid key) st) s = (Unwind, c', st', s')))"
  using assms
  by (auto simp: handle_tcp_connection_eq Let_def split: prod.splits sum.splits flow.splits)

text \<open>A loop unwinds only from a handler that panics.\<close>

lemma tcp_loop_unwinds:
  assumes "tcp_loop cr handlers sid aid key obs n c st s = (Unwind, c', st', s')"
  shows "\<exists>op h req t t'. handlers op = Some (SyncH h) \<and> h req t = (Panics, t')"
  using assms
proof (induction cr handlers sid aid key obs n c st s rule: tcp_loop.induct)
  case (1 cr handlers sid aid key obs n c st s)
  obtain fl c1 st1 s1 where r: "tcp_round cr handlers sid aid key (obs n) st c s = (fl, c1, st1, s1)"
    by (metis prod_cases4)
  show ?case
  proof (cases "fl = Continue")
    case True
    then show ?thesis using 1 r by (auto simp: tcp_loop.simps [of _ _ _ _ _ _ n])
  next
    case False
    then have "tcp_round cr handlers sid aid key (obs n) st c s = (Unwind, c', st', s')"
      using 1(2) r by (cases fl) (auto simp: tcp_loop.simps [of _ _ _ _ _ _ n])
    then show ?thesis
      by (fastforce simp: tcp_round_eq tcp_serve_def Let_def split: prod.splits bool.splits sum.splits
          option.splits handler_type.splits outcome.splits if_splits)
  qed
qed

text \<open>A server with a chain of middleware, and the handlers registered after it.\<close>

definition configured ::
    "'s middleware list \<Rightarrow> (u16 \<times> 's sync_handler) list \<Rightarrow> ('s, 'tls) server \<Rightarrow> ('s, 'tls) server" where
  "configured mws regs sv = fold (\<lambda>(op, h). handle op h) regs (fold use_middleware mws sv)"

lemma configured_middlewares:
  "sv_middlewares (fold use_middleware mws sv) = sv_middlewares sv @ mws"
  "sv_handlers (fold use_middleware mws sv) = sv_handlers sv"
  by (induction mws arbitrary: sv) (simp_all add: use_middleware_def)

lemma handle_fields:
  "sv_middlewares (handle op h sv) = sv_middlewares sv"
  "sv_handlers (handle op h sv) = (sv_handlers sv)(op \<mapsto> SyncH (wrap_handler (sv_middlewares sv) h))"
  by (simp_all add: handle_def)

lemma registered_handlers:
  "sv_handlers (fold (\<lambda>(op, h). handle op h) regs sv) =
     (\<lambda>op. case map_of (rev regs) op of
        Some h \<Rightarrow> Some (SyncH (wrap_handler (sv_middlewares sv) h)) | None \<Rightarrow> sv_handlers sv op)"
proof (induction regs arbitrary: sv)
  case (Cons r regs)
  obtain op h where r: "r = (op, h)" by (cases r)
  show ?case
  proof
    fix op'
    show "sv_handlers (fold (\<lambda>(op, h). handle op h) (r # regs) sv) op' =
        (case map_of (rev (r # regs)) op' of
           Some h \<Rightarrow> Some (SyncH (wrap_handler (sv_middlewares sv) h)) | None \<Rightarrow> sv_handlers sv op')"
      by (simp add: r Cons.IH handle_fields map_add_def split: option.split)
  qed
qed simp

lemma configured_handler:
  assumes "sv_middlewares sv = []" "sv_handlers sv = Map.empty"
  shows "sv_handlers (configured mws regs sv) op =
    map_option (\<lambda>h. SyncH (wrap_handler mws h)) (map_of (rev regs) op)"
  using assms by (simp add: configured_def registered_handlers configured_middlewares split: option.split)

lemma server_new_empty:
  "server_new cr secret ks h = (sv, h') \<Longrightarrow> sv_middlewares sv = [] \<and> sv_handlers sv = Map.empty"
  by (auto simp: server_new_def Let_def split: prod.splits)

lemma recovery_chain:
  "\<forall>mw \<in> set pre. calm mw \<Longrightarrow> fst (wrap_handler (pre @ recovery_middleware # post) h req s) \<noteq> Panics"
  unfolding wrap_handler_append wrap_handler_simps by (rule chain_no_new_panic, assumption, rule recovery_never_panics)

text \<open>For the witnesses: an anonymous client's connection with one request.\<close>

lemma toy_connection:
  obtains k b where "good_key k" "tcp_handshake toy_crypto [2] (toy_public [2]) Map.empty 1 (toy_conn (hello [] (toy_public [1]) @ b)) =
      (Ok ([], k), (toy_conn b)\<lparr>c_out := toy_public [2] @ u64_to_be 1\<rparr>)"
    "call_bytes toy_crypto k 3 \<lparr>req_opcode = 7, req_payload = None\<rparr> b"
proof -
  obtain k where k: "derive_session_key toy_crypto (x25519 toy_crypto [2] (toy_public [1]))
      (as_bytes ''hush-anonymous'') = Ok k" "good_key k"
    using derive_session_key_Ok [OF toy_hkdf_ok] by blast
  obtain b where b: "call_bytes toy_crypto k 3 \<lparr>req_opcode = 7, req_payload = None\<rparr> b"
    using encode_call_ok [OF toy_aead_ok, of "toy_client\<lparr>cl_session_key := k\<rparr>" toy_nonce None 3 7] k(2)
    by (auto simp: toy_sealing)
  have "tcp_handshake toy_crypto [2] (toy_public [2]) Map.empty 1 (toy_conn (hello [] (toy_public [1]) @ b)) =
      (Ok ([], k), (toy_conn b)\<lparr>c_out := toy_public [2] @ u64_to_be 1\<rparr>)"
    unfolding tcp_handshake_def
    using server_handshake_hello [of "toy_conn (hello [] (toy_public [1]) @ b)" "[]" "toy_public [1]" b Map.empty
        "as_bytes ''hush-anonymous''" toy_crypto "[2]" k SvIo SvIo "toy_public [2]" 1] k(1)
    by (simp add: secret_of_def rust_string_Nil toy_conn_def)
  then show thesis using that k(2) b by blast
qed

lemma toy_read:
  "call_bytes toy_crypto k 3 \<lparr>req_opcode = 7, req_payload = None\<rparr> b \<Longrightarrow>
     read_request_async toy_crypto ((toy_conn b)\<lparr>c_out := out\<rparr>) (Some k) =
       (Ok (\<lparr>req_opcode = 7, req_payload = None\<rparr>, 3), (toy_conn [])\<lparr>c_out := out\<rparr>)"
  by (simp add: call_bytes_def toy_conn_def)

lemma toy_eof: "read_request_async cr ((toy_conn [])\<lparr>c_out := out\<rparr>) key = (Err (RFrame FEof), (toy_conn [])\<lparr>c_out := out\<rparr>)"
  by (simp add: read_request_async_def read_frame_async_def read_exact_def toy_conn_def)

lemma toy_ob_alive: "session_alive (store_insert (session_new 0 1 [] k) (store_new default_config)) 1 toy_ob"
  by (simp add: session_alive_def session_dead_def is_expired_def is_idle_dead_def elapsed_def toy_ob_def)

lemma internal_error_fits: "response_fits (server_error_response InternalError ''internal error'')"
  unfolding response_fits_def server_error_response_def
  by (simp add: map_new_def, intro map_fitsI) (simp_all add: rust_string_ascii vdepth.simps)



section \<open>Authorisation over a connection\<close>

text \<open>Handlers that do the same on every request of a key id.\<close>

definition same_for :: "string \<Rightarrow> 's handler_type option \<Rightarrow> 's handler_type option \<Rightarrow> bool" where
  "same_for aid x y \<longleftrightarrow> x = y \<or> (\<exists>h h'. x = Some (SyncH h) \<and> y = Some (SyncH h') \<and>
     (\<forall>req s. sr_api_key_id req = aid \<longrightarrow> h req s = h' req s))"

lemma tcp_serve_same:
  assumes "\<And>op. same_for aid (handlers op) (handlers' op)"
  shows "tcp_serve cr handlers sid aid key nonce c s = tcp_serve cr handlers' sid aid key nonce c s"
proof (cases "read_request_async cr c (Some key)")
  case (Pair r c1)
  show ?thesis
  proof (cases r)
    case (Inr q)
    obtain req seq where q: "q = (req, seq)" by fastforce
    have "sr_api_key_id (request_of req sid aid) = aid" by (simp add: request_of_def)
    then show ?thesis
      using assms [of "req_opcode req"] Pair Inr q by (auto simp: tcp_serve_def same_for_def)
  qed (simp add: tcp_serve_def Pair)
qed

lemma tcp_round_same:
  assumes "\<And>op. same_for aid (handlers op) (handlers' op)"
  shows "tcp_round cr handlers sid aid key ob st c s = tcp_round cr handlers' sid aid key ob st c s"
  unfolding tcp_round_eq tcp_serve_same [OF assms] ..

lemma tcp_loop_same:
  assumes "\<And>op. same_for aid (handlers op) (handlers' op)"
  shows "tcp_loop cr handlers sid aid key obs n c st s = tcp_loop cr handlers' sid aid key obs n c st s"
  using assms
proof (induction cr handlers sid aid key obs n c st s rule: tcp_loop.induct)
  case (1 cr handlers sid aid key obs n c st s)
  obtain fl c1 st1 s1 where r: "tcp_round cr handlers sid aid key (obs n) st c s = (fl, c1, st1, s1)"
    by (metis prod_cases4)
  then have r': "tcp_round cr handlers' sid aid key (obs n) st c s = (fl, c1, st1, s1)"
    using tcp_round_same [of aid handlers handlers' cr sid key "obs n" st c s, OF 1(2)] by simp
  show ?case
  proof (cases "fl = Continue")
    case True
    have "tcp_loop cr handlers sid aid key obs (n + 1) c1 st1 s1 = tcp_loop cr handlers' sid aid key obs (n + 1) c1 st1 s1"
      by (rule 1(1) [OF r [symmetric] True refl refl 1(2)])
    then show ?thesis using r r' True by (simp add: tcp_loop.simps [of _ _ _ _ _ _ n])
  next
    case False
    then show ?thesis using r r' by (cases fl) (simp_all add: tcp_loop.simps [of _ _ _ _ _ _ n])
  qed
qed



text \<open>
  A panic without recovery. When a handler that is not wrapped panics on a request, the TCP
  connection's task unwinds: the client gets no answer, and the session of the dead connection
  stays in the store.
\<close>

theorem panic_leaks_session:
  assumes "tcp_handshake cr priv pub ks sid c = (Ok (aid, key), c1)"
    and "read_request_async cr c1 (Some key) = (Ok (req, seq), c2)"
    and "handlers (req_opcode req) = Some (SyncH h)" and "h (request_of req sid aid) s = (Panics, s')"
    and "st1 = store_insert (session_new now sid aid key) st"
    and "ob_env (obs 0) (st1, s) = (st1, s)" and "session_alive st1 sid (obs 0)"
  shows "handle_tcp_connection cr handlers ks priv pub sid now obs c st s = (None, c2, st1, s') \<and>
    c_out c2 = c_out c1 \<and> store_get st1 sid = Some (session_new now sid aid key)"
proof -
  have get: "store_get st1 sid = Some (session_new now sid aid key)"
    by (simp add: assms(5) store_get_def store_insert_def session_new_def)
  have "tcp_serve cr handlers sid aid key (ob_nonce (obs 0)) c1 s = (Unwind, c2, s')"
    using assms(2-4) by (simp add: tcp_serve_def)
  then have "tcp_round cr handlers sid aid key (obs 0) st1 c1 s = (Unwind, c2, st1, s')"
    using assms(6,7) get by (simp add: tcp_round_eq session_alive_def Let_def)
  then have "tcp_loop cr handlers sid aid key obs 0 c1 st1 s = (Unwind, c2, st1, s')"
    by (simp add: tcp_loop.simps [of _ _ _ _ _ _ 0])
  then show ?thesis
    using assms(1,5) get read_request_out [of cr c1 "Some key"] assms(2)
    by (simp add: handle_tcp_connection_eq Let_def)
qed

theorem panic_leaks_session_witness:
  "\<exists>b key c2. handle_tcp_connection toy_crypto [7 \<mapsto> SyncH (\<lambda>req n. (Panics, n))] Map.empty [2] (toy_public [2]) 1 0
      (\<lambda>_. toy_ob) (toy_conn (hello [] (toy_public [1]) @ b)) (store_new default_config) 4 =
      (None, c2, store_insert (session_new 0 1 [] key) (store_new default_config), 4)"
proof -
  obtain k where k: "derive_session_key toy_crypto (x25519 toy_crypto [2] (toy_public [1]))
      (as_bytes ''hush-anonymous'') = Ok k" "good_key k"
    using derive_session_key_Ok [OF toy_hkdf_ok] by blast
  obtain b where b: "call_bytes toy_crypto k 3 \<lparr>req_opcode = 7, req_payload = None\<rparr> b"
    using encode_call_ok [OF toy_aead_ok, of "toy_client\<lparr>cl_session_key := k\<rparr>" toy_nonce None 3 7] k(2)
    by (auto simp: toy_sealing)
  let ?c = "toy_conn (hello [] (toy_public [1]) @ b)"
  let ?c1 = "?c\<lparr>c_in := b, c_out := c_out ?c @ toy_public [2] @ u64_to_be 1\<rparr>"
  have h: "tcp_handshake toy_crypto [2] (toy_public [2]) Map.empty 1 ?c = (Ok ([], k), ?c1)"
    unfolding tcp_handshake_def
    using server_handshake_hello [of ?c "[]" "toy_public [1]" b Map.empty "as_bytes ''hush-anonymous''"
        toy_crypto "[2]" k SvIo SvIo "toy_public [2]" 1] k(1)
    by (simp add: secret_of_def rust_string_Nil)
  have r: "read_request_async toy_crypto ?c1 (Some k) = (Ok (\<lparr>req_opcode = 7, req_payload = None\<rparr>, 3), ?c1\<lparr>c_in := []\<rparr>)"
    using b by (simp add: call_bytes_def)
  have "session_alive (store_insert (session_new 0 1 [] k) (store_new default_config)) 1 toy_ob"
    by (simp add: session_alive_def session_dead_def is_expired_def is_idle_dead_def elapsed_def toy_ob_def)
  then show ?thesis
    using panic_leaks_session [OF h r, of "[7 \<mapsto> SyncH (\<lambda>req n. (Panics, n))]" "\<lambda>req n. (Panics, n)" 4 4
        "store_insert (session_new 0 1 [] k) (store_new default_config)" 0 "store_new default_config" "\<lambda>_. toy_ob"]
    by (auto simp: toy_simps)
qed

section \<open>Media tokens and the server's sessions\<close>

text \<open>
  C38. Media tokens follow the store the server had when \<open>with_media\<close> ran. Called after
  \<open>with_session_config\<close>, a token validates exactly while its session is in the server's store and
  it is not too old. Called before, its validator looks at the store that was replaced, in which
  no session is ever put: no token validates, whatever sessions the server has.
\<close>

theorem media_follows_store:
  assumes "server_new cr secret ks h0 = (sv0, h1)" and "with_session_config cfg sv0 h1 = (sv1, h2)"
    and "issue_media_token i issued sid track (with_media base sv1) = (Ok tok, sv2)"
    and "with_session_config cfg (with_media base sv0) h1 = (sv1', h2')"
    and "issue_media_token i issued sid track sv1' = (Ok tok', sv2')"
  shows "(\<forall>ms. sv_media_store sv2 = Some ms \<longrightarrow>
      fst (validate (heap_set (sv_sessions sv2) st h2) now later i ms) =
        (elapsed now issued \<le> DEFAULT_MAX_TOKEN_TTL \<and> store_get st sid \<noteq> None)) \<and>
    (\<forall>ms. sv_media_store sv2' = Some ms \<longrightarrow>
      \<not> fst (validate (heap_set (sv_sessions sv2') st h2') now later i ms))"
  using assms
  by (auto simp: server_new_def with_session_config_def with_media_def issue_media_token_def issue_def
      issue_with_hls_def heap_alloc_def heap_set_def Let_def validate_eq token_valid_def
      with_validator_def token_get_def token_insert_def session_known_def store_get_def store_new_def split: if_splits)

theorem media_follows_store_witness:
  "\<exists>sv0 h1 sv1 h2 tok sv2 ms. server_new toy_crypto [2] Map.empty \<lparr>hp_stores = Map.empty, hp_fresh = 0\<rparr> =
      ((sv0 :: (nat, unit) server), h1) \<and> with_session_config default_config (with_media [] sv0) h1 = (sv1, h2) \<and>
    issue_media_token [1] 0 5 ''t'' sv1 = (Ok tok, sv2) \<and> sv_media_store sv2 = Some ms \<and>
    \<not> fst (validate (heap_set (sv_sessions sv2) (store_insert (session_new 0 5 ''a'' []) (store_new default_config)) h2) 0 0 [1] ms)"
proof -
  obtain sv0 :: "(nat, unit) server" and h1 where
    n: "server_new toy_crypto [2] Map.empty \<lparr>hp_stores = Map.empty, hp_fresh = 0\<rparr> = (sv0, h1)" by fastforce
  obtain sv1 h2 where c: "with_session_config default_config sv0 h1 = (sv1, h2)" by fastforce
  obtain sv1' h2' where c': "with_session_config default_config (with_media [] sv0) h1 = (sv1', h2')" by fastforce
  obtain tok sv2 where i: "issue_media_token [1] 0 5 ''t'' (with_media [] sv1) = (Ok tok, sv2)"
    by (simp add: issue_media_token_def with_media_def Let_def issue_def issue_with_hls_def)
  have "sv_media_store sv1' \<noteq> None"
    using c' by (auto simp: with_session_config_def with_media_def Let_def split: prod.splits)
  then obtain tok' sv2' ms where i': "issue_media_token [1] 0 5 ''t'' sv1' = (Ok tok', sv2')" "sv_media_store sv2' = Some ms"
    by (auto simp: issue_media_token_def issue_def issue_with_hls_def Let_def)
  show ?thesis
    using media_follows_store [OF n c i c' i'(1)] n c' i' by blast
qed

end
