(* ===== verification/Hush_Accept.thy ===== *)
theory Hush_Accept
  imports Hush_Server Hush_Session_Facts
begin

text \<open>
  The rest of \<open>src/server.rs\<close>: the servers that its builders make, the accept loops of
  \<open>listen_on\<close> and \<open>listen_tcp\<close>, and \<open>handle_connection\<close>, the task of a QUIC connection. A spawned
  task is a value: what it was given. What the listener and the peers do is an argument.
\<close>

section \<open>Accepting\<close>

text \<open>
  What the listener says each time it is asked for a connection. A QUIC endpoint can be closed; a
  TCP listener cannot.
\<close>

datatype 'c incoming = Incoming 'c | AcceptFailed string | EndpointClosed

fun accept_loop :: "'c incoming list \<Rightarrow> ('s, 'tls) server \<Rightarrow>
    server_error option \<times> ('c \<times> u64) list \<times> ('s, 'tls) server" where
  "accept_loop [] sv = (None, [], sv)"
| "accept_loop (Incoming conn # rest) sv =
     (let (sid, sv1) = accept_session_id sv;
          (r, tasks, sv2) = accept_loop rest sv1
      in (r, (conn, sid) # tasks, sv2))"
| "accept_loop (AcceptFailed e # rest) sv = accept_loop rest sv"
| "accept_loop (EndpointClosed # rest) sv = (Some (SvConfig ''endpoint closed''), [], sv)"

text \<open>
  \<open>listen_on\<close> and \<open>listen_tcp\<close>: the result if the call returns, the interval of the collector if one
  was spawned, and the connection tasks. \<open>tokio\<close>'s interval timer panics on a zero interval, which
  kills the collector's task: \<open>gc_spawn\<close> is the interval of a collector that runs.
\<close>

definition gc_spawn :: "duration \<Rightarrow> duration option" where
  "gc_spawn interval = (if interval = 0 then None else Some interval)"

definition listen_on :: "(string + 'addr) \<Rightarrow> 'c incoming list \<Rightarrow> ('s, 'tls) server \<Rightarrow>
    server_error option \<times> duration option \<times> ('c \<times> u64) list \<times> ('s, 'tls) server" where
  "listen_on local_addr incoming sv =
     (case local_addr of
        Err e \<Rightarrow> (Some (SvConfig (''local addr: '' @ e)), None, [], sv)
      | Ok addr \<Rightarrow>
          let gc = gc_spawn (gc_interval (sv_session_cfg sv));
              (r, tasks, sv') = accept_loop incoming sv
          in (r, gc, tasks, sv'))"

text \<open>
  \<open>listen_and_serve\<close> and \<open>listen_tcp\<close> need a TLS configuration; binding is the transport's
  (\<open>bind\<close>, \<open>tcp_bind\<close>: the result on that configuration).
\<close>

definition listen_and_serve ::
    "('tls \<Rightarrow> string + (string + 'addr)) \<Rightarrow> 'c incoming list \<Rightarrow> ('s, 'tls) server \<Rightarrow>
       server_error option \<times> duration option \<times> ('c \<times> u64) list \<times> ('s, 'tls) server" where
  "listen_and_serve bind incoming sv =
     (case sv_tls_config sv of
        None \<Rightarrow> (Some (SvConfig ''TLS config required; use with_tls()''), None, [], sv)
      | Some tls \<Rightarrow>
          (case bind tls of
             Err e \<Rightarrow> (Some (SvTransport e), None, [], sv)
           | Ok local_addr \<Rightarrow> listen_on local_addr incoming sv))"

definition listen_tcp ::
    "('tls \<Rightarrow> string + (string + 'addr)) \<Rightarrow> (string + 'c) list \<Rightarrow> ('s, 'tls) server \<Rightarrow>
       server_error option \<times> duration option \<times> ('c \<times> u64) list \<times> ('s, 'tls) server" where
  "listen_tcp tcp_bind incoming sv =
     (case sv_tls_config sv of
        None \<Rightarrow> (Some (SvConfig ''TLS config required; use with_tls()''), None, [], sv)
      | Some tls \<Rightarrow>
          (case tcp_bind tls of
             Err e \<Rightarrow> (Some (SvTransport e), None, [], sv)
           | Ok (Err e) \<Rightarrow> (Some (SvConfig (''local addr: '' @ e)), None, [], sv)
           | Ok (Ok addr) \<Rightarrow>
               let gc = gc_spawn (gc_interval (sv_session_cfg sv));
                   (r, tasks, sv') = accept_loop
                     (map (\<lambda>x. case x of Err e \<Rightarrow> AcceptFailed e | Ok conn \<Rightarrow> Incoming conn) incoming) sv
               in (r, gc, tasks, sv')))"

section \<open>A QUIC connection\<close>

text \<open>
  \<open>handle_connection\<close>. \<open>control\<close> is the first stream the client opens (\<open>None\<close>: the connection
  failed before), \<open>streams\<close> those it opens until \<open>accept_bi\<close> fails, and \<open>others\<close> what other tasks do
  to the session store in the meantime. The requests are served by tasks of their own, which run
  at any time from their spawning on, also after the connection's task has ended.
\<close>

record stream_task =
  st_conn :: conn
  st_session_id :: u64
  st_api_key_id :: string

definition stream_task_for :: "u64 \<Rightarrow> string \<Rightarrow> conn \<Rightarrow> stream_task" where
  "stream_task_for session_id aid s = \<lparr>st_conn = s, st_session_id = session_id, st_api_key_id = aid\<rparr>"

text \<open>After the loop over the streams: \<open>sessions.delete\<close>.\<close>

definition quic_finish :: "u64 \<Rightarrow> session_store \<Rightarrow> session_store" where
  "quic_finish session_id st = store_delete session_id st"

definition handle_connection ::
    "crypto \<Rightarrow> (string \<Rightarrow> bytes option) \<Rightarrow> bytes \<Rightarrow> bytes \<Rightarrow> u64 \<Rightarrow> instant \<Rightarrow>
       (session_store \<Rightarrow> session_store) \<Rightarrow> conn option \<Rightarrow> conn list \<Rightarrow> session_store \<Rightarrow>
       (server_error + unit) \<times> conn option \<times> stream_task list \<times> session_store" where
  "handle_connection cr key_store server_priv server_pub session_id now others control streams st =
     (case control of
        None \<Rightarrow> (Err SvQuinn, None, [], st)
      | Some c \<Rightarrow>
          (case quic_handshake cr server_priv server_pub key_store session_id c of
             (Err e, c1) \<Rightarrow> (Err e, Some c1, [], st)
           | (Ok (aid, session_key), c1) \<Rightarrow>
               let st1 = open_session now session_id aid session_key st;
                   tasks = map (stream_task_for session_id aid) streams;
                   st2 = others st1
               in (Ok (), Some c1, tasks, quic_finish session_id st2)))"

lemma stream_task_for_simps [simp]:
  "st_conn (stream_task_for sid aid s) = s" "st_session_id (stream_task_for sid aid s) = sid"
  "st_api_key_id (stream_task_for sid aid s) = aid"
  by (simp_all add: stream_task_for_def)

lemma handle_connection_eq:
  "handle_connection cr key_store server_priv server_pub session_id now others control streams st =
     (case control of
        None \<Rightarrow> (Err SvQuinn, None, [], st)
      | Some c \<Rightarrow>
          (case quic_handshake cr server_priv server_pub key_store session_id c of
             (Err e, c1) \<Rightarrow> (Err e, Some c1, [], st)
           | (Ok (aid, session_key), c1) \<Rightarrow>
               let st1 = store_insert (session_new now session_id aid session_key) st;
                   tasks = map (\<lambda>s. \<lparr>st_conn = s, st_session_id = session_id, st_api_key_id = aid\<rparr>) streams;
                   st2 = others st1
               in (Ok (), Some c1, tasks, store_delete session_id st2)))"
  by (simp add: handle_connection_def open_session_def quic_finish_def stream_task_for_def [abs_def] Let_def split: option.split sum.split prod.split)

definition run_stream_task ::
    "crypto \<Rightarrow> (u16 \<rightharpoonup> 's handler_type) \<Rightarrow> bytes \<Rightarrow> instant \<Rightarrow> instant \<Rightarrow> session_store \<Rightarrow> session_store \<Rightarrow>
       stream_task \<Rightarrow> 's \<Rightarrow> conn \<times> 's" where
  "run_stream_task cr handlers nonce now later st st_key t s =
     handle_request_stream cr handlers (st_session_id t) (st_api_key_id t) nonce now later st st_key (st_conn t) s"

section \<open>The servers the builders make\<close>

definition heap_ok :: "heap \<Rightarrow> bool" where
  "heap_ok h \<longleftrightarrow> (\<forall>a \<ge> hp_fresh h. hp_stores h a = None)"

text \<open>
  Every way to come by a server: construction, the builder methods, registration, and serving,
  during which tasks change the sessions of a store, never its configuration.
\<close>

inductive built :: "crypto \<Rightarrow> ('s, 'tls) server \<Rightarrow> heap \<Rightarrow> bool" for cr where
  built_new: "heap_ok h \<Longrightarrow> server_new cr secret ks h = (sv, h') \<Longrightarrow> built cr sv h'"
| built_tls: "built cr sv h \<Longrightarrow> built cr (with_tls tls sv) h"
| built_media: "built cr sv h \<Longrightarrow> built cr (with_media base sv) h"
| built_logger: "built cr sv h \<Longrightarrow> built cr (with_logger tag sv) h"
| built_config: "built cr sv h \<Longrightarrow> with_session_config cfg sv h = (sv', h') \<Longrightarrow> built cr sv' h'"
| built_mw: "built cr sv h \<Longrightarrow> built cr (use_middleware mw sv) h"
| built_stream_mw: "built cr sv h \<Longrightarrow> built cr (use_stream_middleware smw sv) h"
| built_handle: "built cr sv h \<Longrightarrow> built cr (handle opcode f sv) h"
| built_handle_stream: "built cr sv h \<Longrightarrow> built cr (handle_stream opcode g sv) h"
| built_token: "built cr sv h \<Longrightarrow> issue_media_token i now sid track sv = (r, sv') \<Longrightarrow> built cr sv' h"
| built_accept: "built cr sv h \<Longrightarrow> accept_session_id sv = (sid, sv') \<Longrightarrow> built cr sv' h"
| built_work: "built cr sv h \<Longrightarrow> hp_stores h a = Some st \<Longrightarrow> ss_config st' = ss_config st \<Longrightarrow>
     built cr sv (heap_set a st' h)"

definition server_ok :: "crypto \<Rightarrow> ('s, 'tls) server \<Rightarrow> heap \<Rightarrow> bool" where
  "server_ok cr sv h \<longleftrightarrow> heap_ok h \<and> sv_pub sv = x25519_public cr (sv_priv sv) \<and>
     0 < gc_interval (sv_session_cfg sv) \<and> 0 < idle_timeout (sv_session_cfg sv) \<and>
     0 < max_lifetime (sv_session_cfg sv) \<and>
     (\<exists>st. hp_stores h (sv_sessions sv) = Some st \<and> ss_config st = sv_session_cfg sv)"

lemma config_fill_pos:
  "0 < idle_timeout (config_fill c)" "0 < max_lifetime (config_fill c)" "0 < gc_interval (config_fill c)"
  by (simp_all add: config_fill_def DEFAULT_IDLE_TIMEOUT_def DEFAULT_MAX_LIFETIME_def
      DEFAULT_GC_INTERVAL_def from_secs_def)

lemmas builder_defs = with_tls_def with_media_def with_logger_def use_middleware_def
  use_stream_middleware_def handle_def handle_stream_def accept_session_id_def fetch_next_id_def

lemma issue_media_token_keeps:
  assumes "issue_media_token i now sid track sv = (r, sv')"
  shows "sv_sessions sv' = sv_sessions sv" "sv_session_cfg sv' = sv_session_cfg sv"
    "sv_priv sv' = sv_priv sv" "sv_pub sv' = sv_pub sv"
  using assms by (auto simp: issue_media_token_def split: option.splits prod.splits)

lemma heap_alloc_ok:
  "heap_alloc st h = (a, h') \<Longrightarrow> heap_ok h \<Longrightarrow> heap_ok h' \<and> hp_stores h' a = Some st"
  by (auto simp: heap_alloc_def heap_ok_def)

lemma built_ok: "built cr sv h \<Longrightarrow> server_ok cr sv h"
proof (induction rule: built.induct)
  case (built_new h secret ks sv h')
  then show ?case
    by (auto simp: server_new_def server_ok_def Let_def config_fill_pos store_new_def heap_alloc_def heap_ok_def)
next
  case (built_config sv h cfg sv' h')
  then show ?case
    by (auto simp: with_session_config_def server_ok_def Let_def config_fill_pos store_new_def heap_alloc_def heap_ok_def)
next
  case (built_token sv h i now sid track r sv')
  then show ?case using issue_media_token_keeps [OF built_token(2)] by (simp add: server_ok_def)
next
  case (built_work sv h a st st')
  then show ?case by (auto simp: server_ok_def heap_set_def heap_ok_def)
qed (auto simp: server_ok_def builder_defs Let_def)

section \<open>Properties\<close>

text \<open>The connections accepted, and whether the endpoint was closed.\<close>

fun accepted :: "'c incoming list \<Rightarrow> 'c list \<times> bool" where
  "accepted [] = ([], False)"
| "accepted (Incoming conn # rest) = (let (cs, closed) = accepted rest in (conn # cs, closed))"
| "accepted (AcceptFailed e # rest) = accepted rest"
| "accepted (EndpointClosed # rest) = ([], True)"

lemma accept_loop_spec:
  assumes "accept_loop incoming sv = (r, tasks, sv')" and "accepted incoming = (cs, closed)"
  shows "map fst tasks = cs \<and> map snd tasks = map (\<lambda>k. sv_next_id sv + word_of_nat k) [0..<length cs] \<and>
    sv' = sv\<lparr>sv_next_id := sv_next_id sv + word_of_nat (length cs)\<rparr> \<and>
    r = (if closed then Some (SvConfig ''endpoint closed'') else None)"
  using assms
proof (induction incoming arbitrary: sv r tasks sv' cs closed rule: accepted.induct)
  case (2 conn rest)
  obtain r1 ts sv1 where a: "accept_loop rest (sv\<lparr>sv_next_id := sv_next_id sv + 1\<rparr>) = (r1, ts, sv1)"
    by (metis prod_cases3)
  obtain cs1 closed1 where c: "accepted rest = (cs1, closed1)" by fastforce
  have "map (\<lambda>k. sv_next_id sv + word_of_nat k) [0..<Suc (length cs1)] =
      sv_next_id sv # map (\<lambda>k. sv_next_id sv + 1 + word_of_nat k) [0..<length cs1]"
    by (simp add: upt_conv_Cons map_Suc_upt [symmetric] o_def add.assoc del: upt_Suc)
  with "2.IH" [OF a c] "2.prems" a c show ?case
    by (auto simp: accept_session_id_def fetch_next_id_def add.assoc simp del: upt_Suc)
qed auto

lemma distinct_ids:
  assumes "n \<le> 2 ^ 64"
  shows "distinct (map (\<lambda>k. (x :: u64) + word_of_nat k) [0..<n])"
proof -
  have "inj_on (\<lambda>k. x + word_of_nat k) {0..<n}"
  proof (rule inj_onI)
    fix i j assume "i \<in> {0..<n}" "j \<in> {0..<n}" "x + word_of_nat i = x + word_of_nat j"
    then have "unat (word_of_nat i :: u64) = unat (word_of_nat j :: u64)" "i < 2 ^ 64" "j < 2 ^ 64"
      using assms by simp_all
    then show "i = j" by (simp only: unat_of_nat) simp
  qed
  then show ?thesis by (simp add: distinct_map)
qed

text \<open>
  C32. The accept loops, on both transports. Every connection that is accepted, in order and each once, gets a task of
  its own under an identifier of its own, the identifiers being consecutive from the server's
  counter on and distinct for up to \<open>2^64\<close> connections; a failed accept uses up no identifier and
  ends nothing. \<open>listen_on\<close> returns only when the endpoint is closed, \<open>listen_tcp\<close> never.
\<close>

theorem accepted_ids_distinct:
  assumes "listen_on (Ok addr) incoming sv = (r, gc, tasks, sv')" and "accepted incoming = (cs, closed)"
    and "sv_tls_config sv = Some tls" and "bind tls = Ok (Ok addr)"
    and "listen_tcp bind attempts sv = (r', gc', tasks', sv'')"
  shows "map fst tasks = cs \<and> map snd tasks = map (\<lambda>k. sv_next_id sv + word_of_nat k) [0..<length cs] \<and>
    (length cs \<le> 2 ^ 64 \<longrightarrow> distinct (map snd tasks)) \<and> (r \<noteq> None \<longleftrightarrow> closed) \<and>
    sv_next_id sv' = sv_next_id sv + word_of_nat (length tasks) \<and>
    map fst tasks' = map projr (filter is_ok attempts) \<and>
    map snd tasks' = map (\<lambda>k. sv_next_id sv + word_of_nat k) [0..<length (filter is_ok attempts)] \<and>
    (length tasks' \<le> 2 ^ 64 \<longrightarrow> distinct (map snd tasks')) \<and> r' = None"
proof -
  let ?tcp = "map (\<lambda>x. case x of Err e \<Rightarrow> AcceptFailed e | Ok conn \<Rightarrow> Incoming conn) attempts"
  have q: "accept_loop incoming sv = (r, tasks, sv')"
    using assms(1) by (auto simp: listen_on_def Let_def split: prod.splits)
  have t: "accept_loop ?tcp sv = (r', tasks', sv'')"
    using assms(3-5) by (auto simp: listen_tcp_def Let_def split: prod.splits)
  have acc: "accepted ?tcp = (map projr (filter is_ok attempts), False)"
    by (induction attempts) (auto split: sum.split)
  have len: "length tasks = length cs" "length tasks' = length (filter is_ok attempts)"
    using accept_loop_spec [OF q assms(2)] accept_loop_spec [OF t acc] by (metis length_map)+
  show ?thesis
    using accept_loop_spec [OF q assms(2)] accept_loop_spec [OF t acc] len
      distinct_ids [of "length cs" "sv_next_id sv"] distinct_ids [of "length tasks'" "sv_next_id sv"]
    by (simp del: upt_Suc)
qed

text \<open>
  The collector. However a server is configured, by whatever builder calls in whatever order
  and while it serves, its session store exists and has the server's configuration, whose timeouts
  are positive; so listening starts a collector that runs, at the configured interval.
\<close>

theorem collector_starts:
  assumes "built cr sv h" and "listen_on (Ok addr) incoming sv = (r, gc, tasks, sv')"
  shows "\<exists>st. hp_stores h (sv_sessions sv) = Some st \<and> ss_config st = sv_session_cfg sv \<and>
    gc = Some (gc_interval (ss_config st)) \<and> 0 < gc_interval (ss_config st) \<and>
    0 < idle_timeout (ss_config st) \<and> 0 < max_lifetime (ss_config st)"
  using built_ok [OF assms(1)] assms(2)
  by (auto simp: server_ok_def listen_on_def gc_spawn_def Let_def split: prod.splits)

text \<open>Witnesses: an endpoint with one failed accept that is then closed.\<close>

definition toy_server :: "(nat, unit) server \<times> heap" where
  "toy_server = (let (sv, h) = server_new toy_crypto [2] Map.empty \<lparr>hp_stores = Map.empty, hp_fresh = 0\<rparr>
     in (with_tls () sv, h))"

lemma toy_server_simps:
  "sv_next_id (fst toy_server) = 1" "sv_tls_config (fst toy_server) = Some ()"
  "sv_session_cfg (fst toy_server) = config_fill default_config"
  by (simp_all add: toy_server_def server_new_def with_tls_def Let_def heap_alloc_def)

lemma toy_server_built: "built toy_crypto (fst toy_server) (snd toy_server)"
proof -
  obtain sv :: "(nat, unit) server" and h
    where n: "server_new toy_crypto [2] Map.empty \<lparr>hp_stores = Map.empty, hp_fresh = 0\<rparr> = (sv, h)"
    by fastforce
  have "heap_ok \<lparr>hp_stores = Map.empty, hp_fresh = 0\<rparr>" by (simp add: heap_ok_def)
  from built_tls [OF built_new [OF this n], of "()"] show ?thesis by (simp add: toy_server_def n)
qed

theorem accepted_ids_distinct_witness:
  "\<exists>gc tasks sv'. listen_on (Ok ()) [Incoming ''a'', AcceptFailed ''tls'', Incoming ''b'', EndpointClosed, Incoming ''c'']
      (fst toy_server) = (Some (SvConfig ''endpoint closed''), gc, tasks, sv') \<and>
    map fst tasks = [''a'', ''b''] \<and> map snd tasks = [1, 2]"
proof -
  let ?in = "[Incoming ''a'', AcceptFailed ''tls'', Incoming ''b'', EndpointClosed, Incoming ''c'']"
  obtain r gc tasks sv' where l: "listen_on (Ok ()) ?in (fst toy_server) = (r, gc, tasks, sv')" by (metis prod_cases4)
  obtain r' gc' tasks' sv''
    where t: "listen_tcp (\<lambda>_. Ok (Ok ())) [Err ''tls'', Ok ''a''] (fst toy_server) = (r', gc', tasks', sv'')"
    by (metis prod_cases4)
  have a: "accepted ?in = ([''a'', ''b''], True)" by simp
  have "map fst tasks = [''a'', ''b'']" "map snd tasks = [1, 2]"
    using accepted_ids_distinct [OF l a toy_server_simps(2) _ t] toy_server_simps(1)
    by (simp_all add: upt_conv_Cons)
  moreover have "r = Some (SvConfig ''endpoint closed'')"
    using l by (auto simp: listen_on_def accept_session_id_def fetch_next_id_def)
  ultimately show ?thesis using l by auto
qed

theorem collector_starts_witness:
  "\<exists>r tasks sv'. listen_on (Ok ()) ([] :: unit incoming list) (fst toy_server) = (r, Some (from_secs 60), tasks, sv')"
proof -
  obtain r gc tasks sv'
    where l: "listen_on (Ok ()) ([] :: unit incoming list) (fst toy_server) = (r, gc, tasks, sv')"
    by (metis prod_cases4)
  show ?thesis
    using collector_starts [OF toy_server_built l] l
    by (auto simp: toy_server_simps config_fill_def default_config_def DEFAULT_GC_INTERVAL_def from_secs_def)
qed

end
