(* ===== verification/Hush_Agreement.thy ===== *)
theory Hush_Agreement
  imports Hush_Server_Props Hush_Accept
begin

text \<open>
  The program implements the same things several times: requests are served over QUIC and over
  TCP, and the handshake exists in \<open>session.rs\<close> and, on either side, in \<open>client.rs\<close> and
  \<open>server.rs\<close>. This theory relates the versions, and follows a QUIC connection and its stream tasks.
\<close>

section \<open>QUIC and TCP\<close>

lemma live_request_stream:
  assumes "store_get st sid = Some sess" and "sess_key sess = key" and "\<not> session_dead st now later sess"
  shows "handle_request_stream cr handlers sid aid nonce now later st st c s =
    (case read_request_async cr c (Some key) of
       (Err e, c1) \<Rightarrow> (send_response cr nonce key 0 (server_error_response BadRequest ''bad request'') c1, s)
     | (Ok (req, seq), c1) \<Rightarrow>
         (case handlers (req_opcode req) of
            Some (StreamH h) \<Rightarrow> h (request_of req sid aid) c1 key s
          | _ \<Rightarrow> snd (tcp_serve cr handlers sid aid key nonce c s)))"
  using assms
  by (auto simp: handle_request_stream_eq tcp_serve_def split: prod.splits sum.splits option.splits
      handler_type.splits outcome.splits)

text \<open>
  C13. Both transports give the same service. While the session is in the store and alive, a request
  on a QUIC stream has the same effect on the application and the same bytes as answer as on a TCP
  connection, except that QUIC runs streaming handlers where TCP refuses them, and that it answers
  an unreadable request with \<open>BadRequest\<close> where TCP closes the connection. A client that can write gets the
  same result from \<open>do_\<close> on both.
\<close>

theorem transports_agree:
  assumes "store_get st sid = Some sess" and "sess_key sess = key" and "\<not> session_dead st now later sess"
    and "c_cap cc = None" and "client_do cr nonce opcode payload cl (Tcp cc) = (result, cl', Tcp cc')"
  shows "handle_request_stream cr handlers sid aid nonce now later st st c s =
      (case read_request_async cr c (Some key) of
         (Err e, c1) \<Rightarrow> (send_response cr nonce key 0 (server_error_response BadRequest ''bad request'') c1, s)
       | (Ok (req, seq), c1) \<Rightarrow>
           (case handlers (req_opcode req) of
              Some (StreamH h) \<Rightarrow> h (request_of req sid aid) c1 key s
            | _ \<Rightarrow> snd (tcp_serve cr handlers sid aid key nonce c s))) \<and>
    client_do cr nonce opcode payload cl (Quinn (Some cc)) = (result, cl', Quinn (Some cc'))"
proof (intro conjI live_request_stream [OF assms(1-3)])
  show "client_do cr nonce opcode payload cl (Quinn (Some cc)) = (result, cl', Quinn (Some cc'))"
    using assms(4,5)
    by (auto simp: client_do_def do_quinn_def do_tcp_def next_seq_def Let_def write_all_def
        split: sum.splits prod.splits)
qed

theorem transports_agree_witness:
  "\<exists>st sess. store_get st 5 = Some sess \<and>
     handle_request_stream toy_crypto toy_handlers 5 ''alice'' toy_nonce 0 0 st st (toy_conn [1, 2]) 0 =
       (send_response toy_crypto toy_nonce toy_key 0 (server_error_response BadRequest ''bad request'')
          (toy_conn []), 0)"
proof -
  let ?sess = "session_new 0 5 ''alice'' toy_key"
  let ?st = "store_insert ?sess (store_new default_config)"
  have g: "store_get ?st 5 = Some ?sess" by (simp add: store_get_def store_insert_def session_new_def)
  have alive: "\<not> session_dead ?st 0 0 ?sess"
    by (simp add: session_dead_def is_expired_def is_idle_dead_def session_new_def elapsed_def)
  obtain result cl' cc'
    where d: "client_do toy_crypto toy_nonce 7 None toy_client (Tcp (toy_conn [])) = (result, cl', Tcp cc')"
    by (cases "do_tcp toy_crypto toy_nonce 7 None toy_client (toy_conn [])") (simp add: client_do_def)
  have r: "read_request_async toy_crypto (toy_conn [1, 2]) (Some toy_key) =
      (Err (RFrame FEof), toy_conn [])"
    by (simp add: read_request_async_def read_frame_async_def read_exact_def toy_conn_def)
  show ?thesis
    using transports_agree [OF g _ alive _ d, of toy_key toy_handlers "''alice''" "toy_conn [1, 2]" 0] r g
    by (auto simp: session_new_def)
qed

section \<open>A QUIC connection and its streams\<close>

lemma quic_serves:
  assumes "aead_ok cr" "good_key key" "good_nonce nonce"
    and "store_get st sid = Some sess" and "sess_key sess = key" and "\<not> session_dead st now later sess"
    and "call_bytes cr key seq req b" and "c_in c = b @ rest" and "c_cap c = None"
    and "\<And>h. handlers (req_opcode req) \<noteq> Some (StreamH h)"
    and "serve_one handlers sid aid (req, seq) s = Some (resp, s')" and "response_fits resp"
  obtains out where "handle_request_stream cr handlers sid aid nonce now later st st c s =
      (c\<lparr>c_in := rest, c_out := c_out c @ out\<rparr>, s')" "reply_bytes cr key seq resp out"
proof -
  have r: "read_request_async cr c (Some key) = (Ok (req, seq), c\<lparr>c_in := rest\<rparr>)"
    using assms(7,8) by (simp add: call_bytes_def)
  obtain out where "tcp_serve cr handlers sid aid key nonce c s =
      (Continue, c\<lparr>c_in := rest, c_out := c_out c @ out\<rparr>, s')" "reply_bytes cr key seq resp out"
    using tcp_serve_ok [OF assms(1-3,7-9,11,12)] .
  then show thesis
    using live_request_stream [OF assms(4-6), of cr handlers aid nonce c s] r assms(10)
    by (intro that [of out]) (auto split: option.splits handler_type.splits)
qed

lemma late_key_stream:
  assumes "aead_ok cr" and "store_get st_key sid = None"
  shows "snd (handle_request_stream cr handlers sid aid nonce now later checked st_key c s) = s"
proof -
  obtain e c' where "read_request_async cr c (Some []) = (Err e, c')"
    using read_request_bad_key [OF assms(1), of "[]" c] by (auto simp: good_key_def)
  then show ?thesis using assms(2) by (simp add: handle_request_stream_eq split: option.split)
qed

text \<open>
  C10. A QUIC connection. It fails without touching the session store, or it puts the session of its
  handshake there, hands every stream to a task under that session's id and key id, and takes the
  session out at its end. A task that runs while the session is there and alive serves a call made
  under the session's key, like TCP does. A task that looks for the session's key only after the
  connection's end runs no handler, whatever arrived and whatever its earlier expiry check found,
  and one that is only scheduled after that end writes nothing either. (A task that has taken the key
  before runs its handler also after the end.)
\<close>

theorem quic_connection_lifecycle:
  assumes "aead_ok cr" and "hkdf_ok cr" and "length nonce = NONCE_SIZE"
    and "handle_connection cr ks priv pub sid now others control streams st = (r, control', tasks, st')"
  shows "case r of
      Err e \<Rightarrow> tasks = [] \<and> st' = st
    | Ok _ \<Rightarrow> \<exists>c c1 aid key live. control = Some c \<and> control' = Some c1 \<and>
        quic_handshake cr priv pub ks sid c = (Ok (aid, key), c1) \<and>
        live = store_insert (session_new now sid aid key) st \<and> st' = store_delete sid (others live) \<and>
        map st_conn tasks = streams \<and>
        (\<forall>t \<in> set tasks. st_session_id t = sid \<and> st_api_key_id t = aid \<and>
           (\<forall>sess. store_get st1 sid = Some sess \<and> sess_key sess = key \<and> \<not> session_dead st1 now1 later1 sess \<and>
              call_bytes cr key seq req b \<and> c_in (st_conn t) = b @ rest \<and> c_cap (st_conn t) = None \<and>
              handlers (req_opcode req) = Some (SyncH h) \<and> h (request_of req sid aid) s = (Returns result, s') \<and>
              response_fits (reply_of result) \<longrightarrow>
              (\<exists>out. run_stream_task cr handlers nonce now1 later1 st1 st1 t s =
                 ((st_conn t)\<lparr>c_in := rest, c_out := c_out (st_conn t) @ out\<rparr>, s') \<and>
                 reply_bytes cr key seq (reply_of result) out)) \<and>
           (\<forall>checked. snd (run_stream_task cr handlers nonce now1 later1 checked st' t s) = s) \<and>
           (\<exists>c'. run_stream_task cr handlers nonce now1 later1 st' st' t s = (c', s) \<and>
              c_out c' = c_out (st_conn t)))"
proof (cases r)
  case (Inl e)
  then show ?thesis
    using assms(4) by (auto simp: handle_connection_eq Let_def split: option.splits prod.splits sum.splits)
next
  case (Inr u)
  obtain c c1 aid key where c: "control = Some c" "control' = Some c1"
    "quic_handshake cr priv pub ks sid c = (Ok (aid, key), c1)"
    "tasks = map (\<lambda>s. \<lparr>st_conn = s, st_session_id = sid, st_api_key_id = aid\<rparr>) streams"
    "st' = store_delete sid (others (store_insert (session_new now sid aid key) st))"
    using assms(4) Inr by (auto simp: handle_connection_eq Let_def split: option.splits prod.splits sum.splits)
  have key: "good_key key" using server_handshake_key [OF assms(2)] c(3) by (auto simp: quic_handshake_def good_key_def)
  have nonce: "good_nonce nonce" using assms(3) by (simp add: good_nonce_def)
  have gone: "store_get st' sid = None" by (simp add: c(5) store_get_def store_delete_def)
  have serves: "(\<exists>sess. store_get st1 sid = Some sess \<and> sess_key sess = key \<and> \<not> session_dead st1 now1 later1 sess \<and>
        call_bytes cr key seq req b \<and> c_in x = b @ rest \<and> c_cap x = None \<and>
        handlers (req_opcode req) = Some (SyncH h) \<and> h (request_of req sid aid) s = (Returns result, s') \<and>
        response_fits (reply_of result)) \<longrightarrow>
      (\<exists>out. handle_request_stream cr handlers sid aid nonce now1 later1 st1 st1 x s =
        (x\<lparr>c_in := rest, c_out := c_out x @ out\<rparr>, s') \<and> reply_bytes cr key seq (reply_of result) out)" (is "_ \<longrightarrow> ?answer") for x
  proof (intro impI, elim exE conjE)
    fix sess
    assume p: "store_get st1 sid = Some sess" "sess_key sess = key" "\<not> session_dead st1 now1 later1 sess"
      "call_bytes cr key seq req b" "c_in x = b @ rest" "c_cap x = None"
      "handlers (req_opcode req) = Some (SyncH h)" "h (request_of req sid aid) s = (Returns result, s')"
      "response_fits (reply_of result)"
    have "serve_one handlers sid aid (req, seq) s = Some (reply_of result, s')" and "\<And>h. handlers (req_opcode req) \<noteq> Some (StreamH h)"
      using p(7,8) by (simp_all add: serve_one_def)
    from quic_serves [OF assms(1) key nonce p(1-6) this(2,1) p(9)] show ?answer by blast
  qed
  have ends: "\<exists>c'. handle_request_stream cr handlers sid aid nonce now1 later1 st' st' x s = (c', s) \<and> c_out c' = c_out x" for x
    by (rule gone_session_stream [OF assms(1) gone])
  have keyless: "snd (handle_request_stream cr handlers sid aid nonce now1 later1 checked st' x s) = s" for checked x
    by (rule late_key_stream [OF assms(1) gone])
  show ?thesis
    using c serves ends keyless by (simp add: Inr run_stream_task_def o_def)
qed

theorem quic_connection_lifecycle_witness:
  "\<exists>c1 t st'. handle_connection toy_crypto Map.empty [2] (toy_public [2]) 1 0 (\<lambda>st. st)
       (Some (toy_conn (hello [] (toy_public [1])))) [toy_conn [1, 2]] (store_new default_config) =
       (Ok (), Some c1, [t], st') \<and> st_conn t = toy_conn [1, 2] \<and>
     (\<exists>c'. run_stream_task toy_crypto toy_handlers toy_nonce 0 0 st' st' t 0 = (c', 0) \<and> c_out c' = [])"
proof -
  let ?r = "handle_connection toy_crypto Map.empty [2] (toy_public [2]) 1 0 (\<lambda>st. st)
       (Some (toy_conn (hello [] (toy_public [1])))) [toy_conn [1, 2]] (store_new default_config)"
  obtain r control' tasks st' where r: "?r = (r, control', tasks, st')" by (metis prod_cases4)
  obtain k where "server_handshake (\<lambda>_. SvIo UnexpectedEof) (\<lambda>_. SvIo BrokenPipe) toy_crypto [2] (toy_public [2])
      Map.empty 1 (toy_conn (hello [] (toy_public [1]))) =
    (Ok ([], k), (toy_conn (hello [] (toy_public [1])))\<lparr>c_in := [],
      c_out := c_out (toy_conn (hello [] (toy_public [1]))) @ toy_public [2] @ u64_to_be 1\<rparr>)"
    by (rule toy_handshake)
  then have ok: "r = Ok ()" using r by (auto simp: handle_connection_eq quic_handshake_def Let_def)
  have "length toy_nonce = NONCE_SIZE" by (simp add: toy_lengths)
  from quic_connection_lifecycle [OF toy_aead_ok toy_hkdf_ok this r, where handlers = toy_handlers and s = 0
      and ?now1.0 = 0 and ?later1.0 = 0 and ?st1.0 = st' and seq = 0 and b = "[]" and rest = "[]" and h = toy_echo
      and result = "Ok (new_response toy_map)" and s' = 0 and req = "\<lparr>req_opcode = 7, req_payload = None\<rparr>"]
  show ?thesis unfolding r ok by (auto simp: map_eq_Cons_conv)
qed

section \<open>The handshake, twice\<close>

text \<open>A hello with a key id in valid UTF-8.\<close>

definition named_hello :: "bytes \<Rightarrow> bool" where
  "named_hello b \<longleftrightarrow> (let n = unat (u16_from_be (take 2 b)) in n \<noteq> 0 \<and> utf8_valid (take n (drop 2 b)))"

lemma lossy_utf8: "from_utf8 b = Some s \<Longrightarrow> from_utf8_lossy b = s"
  by (auto simp: from_utf8_Some from_utf8_lossy_def lossy_bytes_valid)

lemma negotiate_client_agrees:
  assumes "ak_id key \<noteq> []" and "dial \<in> {client_dial, client_dial_tcp}"
  shows "snd (negotiate_client cr random now key c) = snd (dial cr random now key c)"
    and "res_ok (fst (negotiate_client cr random now key c)) =
      map_option cl_session (res_ok (fst (dial cr random now key c)))"
proof -
  show "snd (negotiate_client cr random now key c) = snd (dial cr random now key c)"
    using assms
    by (auto simp: negotiate_client_def client_dial_def client_dial_tcp_def client_handshake_def client_finish_def
        generate_key_pair_def Let_def split: prod.split sum.split)
  show "res_ok (fst (negotiate_client cr random now key c)) =
      map_option cl_session (res_ok (fst (dial cr random now key c)))"
    using assms
    by (auto simp: negotiate_client_def client_dial_def client_dial_tcp_def client_handshake_def client_finish_def dialled_def
        generate_key_pair_def Let_def and_then_def to_array32_def map_err_def split: prod.split sum.split)
qed

lemma negotiate_server_agrees:
  "negotiate_server cr priv pub ks sid now c = (Ok sess, c') \<longleftrightarrow>
     named_hello (c_in c) \<and> (\<exists>aid k. server_handshake re we cr priv pub ks sid c = (Ok (aid, k), c') \<and>
       sess = session_new now sid aid k)"
proof -
  let ?b = "c_in c" and ?n = "unat (u16_from_be (take 2 (c_in c)))"
  show ?thesis
  proof (cases "2 \<le> length ?b \<and> ?n \<noteq> 0 \<and> ?n \<le> 256 \<and> ?n + 32 \<le> length ?b - 2")
    case True
    then have read: "read_exact 2 c = (Ok (take 2 ?b), c\<lparr>c_in := drop 2 ?b\<rparr>)"
      "read_exact (?n + 32) (c\<lparr>c_in := drop 2 ?b\<rparr>) =
         (Ok (take (?n + 32) (drop 2 ?b)), c\<lparr>c_in := drop (?n + 32) (drop 2 ?b)\<rparr>)"
      by (simp_all add: read_exact_def)
    have split: "take ?n (take (?n + 32) (drop 2 ?b)) = take ?n (drop 2 ?b)"
      "length (drop ?n (take (?n + 32) (drop 2 ?b))) = 32" using True by simp_all
    show ?thesis
      using True
      by (cases "utf8_valid (take ?n (drop 2 ?b))")
        (auto simp: negotiate_server_def server_handshake_def answer_handshake_def
          read split named_hello_def from_utf8_def lossy_utf8 to_array32_def shared_secret_def
          shared_secret_static_def unknown_key_def Let_def and_then_def map_err_def split: sum.splits option.splits prod.splits)
  next
    case False
    then show ?thesis
      by (auto simp: negotiate_server_def server_handshake_def named_hello_def read_exact_def Let_def)
  qed
qed

text \<open>
  C18. One handshake. The client half of \<open>session.rs\<close> and both of \<open>client.rs\<close> (\<open>dial\<close> and \<open>dial_tcp\<close>), for a client with a key
  id, send the same bytes and make the same session of the same answer. The server half of
  \<open>session.rs\<close> accepts exactly those streams that the handshake of the QUIC connection task accepts, and that of the TCP
  connection task, and that carry a key id in valid UTF-8; and then it reads, writes and stores the same. The server's handshakes
  also take anonymous clients, and key ids they have to repair.
\<close>

theorem handshakes_agree:
  "(\<forall>dial \<in> {client_dial, client_dial_tcp}. ak_id key \<noteq> [] \<longrightarrow>
      snd (negotiate_client cr random now key c) = snd (dial cr random now key c) \<and>
      res_ok (fst (negotiate_client cr random now key c)) = map_option cl_session (res_ok (fst (dial cr random now key c)))) \<and>
   (\<forall>handshake \<in> {quic_handshake, tcp_handshake}.
      negotiate_server cr priv pub ks sid now c = (Ok sess, c') \<longleftrightarrow>
        named_hello (c_in c) \<and> (\<exists>aid k. handshake cr priv pub ks sid c = (Ok (aid, k), c') \<and>
          sess = session_new now sid aid k))"
proof (intro conjI ballI impI)
  fix dial assume "dial \<in> {client_dial, client_dial_tcp}" "ak_id key \<noteq> []"
  note d = negotiate_client_agrees [OF this(2,1)]
  show "snd (negotiate_client cr random now key c) = snd (dial cr random now key c)"
    "res_ok (fst (negotiate_client cr random now key c)) = map_option cl_session (res_ok (fst (dial cr random now key c)))"
    by (rule d)+
next
  fix handshake :: "crypto \<Rightarrow> bytes \<Rightarrow> bytes \<Rightarrow> (string \<Rightarrow> bytes option) \<Rightarrow> u64 \<Rightarrow> conn \<Rightarrow> (server_error + string \<times> bytes) \<times> conn"
  assume "handshake \<in> {quic_handshake, tcp_handshake}"
  then obtain re we where h: "handshake = server_handshake re we" by (auto simp: quic_handshake_def tcp_handshake_def)
  show "negotiate_server cr priv pub ks sid now c = (Ok sess, c') \<longleftrightarrow>
      named_hello (c_in c) \<and> (\<exists>aid k. handshake cr priv pub ks sid c = (Ok (aid, k), c') \<and> sess = session_new now sid aid k)"
    unfolding h by (rule negotiate_server_agrees)
qed

text \<open>In the witness both halves succeed, on a stream that a server, respectively a client, has written.\<close>

theorem handshakes_agree_witness:
  "\<exists>sess c' sess' cl k. negotiate_server toy_crypto [2] (toy_public [2]) [''alice'' \<mapsto> [9]] 5 0
       (toy_conn (hello ''alice'' (toy_public [1]))) = (Ok sess, c') \<and>
     quic_handshake toy_crypto [2] (toy_public [2]) [''alice'' \<mapsto> [9]] 5 (toy_conn (hello ''alice'' (toy_public [1]))) = (Ok (''alice'', k), c') \<and>
     res_ok (fst (negotiate_client toy_crypto [1] 0 \<lparr>ak_id = ''alice'', ak_secret = [9]\<rparr> (toy_conn (toy_public [2] @ u64_to_be 5)))) = Some sess' \<and>
     fst (client_dial toy_crypto [1] 0 \<lparr>ak_id = ''alice'', ak_secret = [9]\<rparr> (toy_conn (toy_public [2] @ u64_to_be 5))) = Ok cl \<and>
     cl_session cl = sess'"
proof -
  let ?key = "\<lparr>ak_id = ''alice'', ak_secret = [9]\<rparr>" and ?hello = "toy_conn (hello ''alice'' (toy_public [1]))"
    and ?answer = "toy_conn (toy_public [2] @ u64_to_be 5)" and ?ks = "[''alice'' \<mapsto> [9]]"
  obtain k where k: "derive_session_key toy_crypto (x25519 toy_crypto [2] (toy_public [1])) [9] = Ok k"
    using derive_session_key_Ok [OF toy_hkdf_ok] by blast
  have id: "named_hello (c_in ?hello)"
    using rust_id(2) by (simp add: named_hello_def hello_def rust_string_def)
  have h: "quic_handshake toy_crypto [2] (toy_public [2]) ?ks 5 ?hello =
      (Ok (''alice'', k), ?hello\<lparr>c_in := [], c_out := c_out ?hello @ toy_public [2] @ u64_to_be 5\<rparr>)"
    unfolding quic_handshake_def
    using server_handshake_hello [of ?hello "''alice''" "toy_public [1]" "[]" ?ks "[9]" toy_crypto "[2]" k
        "\<lambda>_. SvIo UnexpectedEof" "\<lambda>_. SvIo BrokenPipe" "toy_public [2]" 5] k
    by (simp add: rust_id secret_of_def toy_conn_def)
  obtain cl where cl: "fst (client_dial toy_crypto [1] 0 ?key ?answer) = Ok cl"
    using derive_session_key_Ok [OF toy_hkdf_ok, of "shared_secret toy_crypto [1] (toy_public [2])" "[9]"]
    by (auto simp: client_dial_def client_handshake_def client_finish_def generate_key_pair_def write_all_def read_exact_def
        to_array32_def toy_conn_def Let_def)
  note agree = handshakes_agree [of ?key toy_crypto "[1]" 0 ?answer "[2]" "toy_public [2]" ?ks 5]
  have "res_ok (fst (negotiate_client toy_crypto [1] 0 ?key ?answer)) = Some (cl_session cl)"
    using conjunct1 [OF agree] cl by simp
  moreover have "negotiate_server toy_crypto [2] (toy_public [2]) ?ks 5 0 ?hello =
      (Ok (session_new 0 5 ''alice'' k), ?hello\<lparr>c_in := [], c_out := c_out ?hello @ toy_public [2] @ u64_to_be 5\<rparr>)"
    using handshakes_agree [of ?key toy_crypto "[1]" 0 ?hello "[2]" "toy_public [2]" ?ks 5 "session_new 0 5 ''alice'' k"
        "?hello\<lparr>c_in := [], c_out := c_out ?hello @ toy_public [2] @ u64_to_be 5\<rparr>"] h id by auto
  ultimately show ?thesis using h cl by blast
qed

end
