(* ===== verification/Hush_System.thy ===== *)
theory Hush_System
  imports Hush_Agreement "HOL-Library.Multiset"
begin

text \<open>
  A running server as a transition system: connections of both transports interleave with each
  other, with the collector's ticks and with time. The steps are the operations of \<open>Hush_Server\<close> and
  \<open>Hush_Accept\<close>; a state holds what they share (session store, id counter, application state), which
  connections exist, what is on their streams, and which request tasks are still to run.
\<close>

section \<open>States and steps\<close>

record 's server_env =
  en_crypto :: crypto
  en_handlers :: "u16 \<rightharpoonup> 's handler_type"
  en_keys :: "string \<Rightarrow> bytes option"
  en_priv :: bytes
  en_pub :: bytes

text \<open>
  The task of a QUIC request stops between looking at the session for the expiry check, taking the
  session's key, and the arrival of the request; other tasks run in between.
\<close>

datatype stage = Spawned | Passed | Keyed bytes

record 's system =
  sy_now :: instant
  sy_store :: session_store
  sy_next_id :: u64
  sy_accepted :: nat  \<comment> \<open>ghost: the counter without wrap-around\<close>
  sy_pending :: "u64 set"  \<comment> \<open>accepted, handshake not finished\<close>
  sy_live :: "u64 \<rightharpoonup> string \<times> bytes"  \<comment> \<open>established: key id and session key\<close>
  sy_waiting :: "u64 set"  \<comment> \<open>TCP connections past the check of their round, waiting for a request\<close>
  sy_conns :: "u64 \<Rightarrow> conn"  \<comment> \<open>the stream of each connection: TCP's, or QUIC's control stream\<close>
  sy_streams :: "(stream_task \<times> stage) multiset"  \<comment> \<open>QUIC requests under way\<close>
  sy_app :: 's

definition no_conn :: conn where
  "no_conn = \<lparr>c_in = [], c_end = UnexpectedEof, c_out = [], c_cap = None\<rparr>"

definition system_init :: "session_config \<Rightarrow> 's \<Rightarrow> 's system" where
  "system_init cfg s = \<lparr>sy_now = 0, sy_store = store_new cfg, sy_next_id = 1, sy_accepted = 1,
     sy_pending = {}, sy_live = Map.empty, sy_waiting = {}, sy_conns = (\<lambda>_. no_conn), sy_streams = {#}, sy_app = s\<rparr>"

text \<open>
  \<open>gc_loop\<close>: each tick of the interval timer collects. The timer itself is tokio's: a tick may come
  at any time.
\<close>

definition gc_tick :: "instant \<Rightarrow> session_store \<Rightarrow> session_store" where
  "gc_tick now sessions = store_gc now sessions"

text \<open>
  Each step is one operation of the code, between two points where other tasks can run, on the
  shared state and on the connection it belongs to. What the peer sends over a connection or on a
  stream is arbitrary and fixed when it is accepted. A round of the TCP loop is \<open>tcp_check\<close> and, once a
  request is there, \<open>tcp_serve\<close>; when either leaves the loop, \<open>tcp_finish\<close> runs.
\<close>

inductive system_step :: "'s server_env \<Rightarrow> 's system \<Rightarrow> 's system \<Rightarrow> bool" for en where
  accept:
    "fetch_next_id (sy_next_id y) = (sid, nid) \<Longrightarrow>
     system_step en y (y\<lparr>sy_next_id := nid, sy_accepted := sy_accepted y + 1,
       sy_pending := insert sid (sy_pending y), sy_conns := (sy_conns y)(sid := c)\<rparr>)"
| establish:
    "sid \<in> sy_pending y \<Longrightarrow> handshake \<in> {quic_handshake, tcp_handshake} \<Longrightarrow>
     handshake (en_crypto en) (en_priv en) (en_pub en) (en_keys en) sid (sy_conns y sid) = (Ok (aid, key), c') \<Longrightarrow>
     system_step en y (y\<lparr>sy_pending := sy_pending y - {sid}, sy_live := (sy_live y)(sid \<mapsto> (aid, key)),
       sy_store := open_session (sy_now y) sid aid key (sy_store y), sy_conns := (sy_conns y)(sid := c')\<rparr>)"
| refuse:
    "sid \<in> sy_pending y \<Longrightarrow> handshake \<in> {quic_handshake, tcp_handshake} \<Longrightarrow>
     handshake (en_crypto en) (en_priv en) (en_pub en) (en_keys en) sid (sy_conns y sid) = (Err e, c') \<Longrightarrow>
     system_step en y (y\<lparr>sy_pending := sy_pending y - {sid}, sy_conns := (sy_conns y)(sid := c')\<rparr>)"
| tcp_pass:
    "sy_live y sid = Some (aid, key) \<Longrightarrow> sid \<notin> sy_waiting y \<Longrightarrow>
     tcp_check (en_crypto en) sid key nonce (sy_now y) (sy_now y) (sy_store y) (sy_conns y sid) = (Continue, c', st') \<Longrightarrow>
     system_step en y (y\<lparr>sy_store := st', sy_conns := (sy_conns y)(sid := c'), sy_waiting := insert sid (sy_waiting y)\<rparr>)"
| tcp_expire:
    "sy_live y sid = Some (aid, key) \<Longrightarrow> sid \<notin> sy_waiting y \<Longrightarrow>
     tcp_check (en_crypto en) sid key nonce (sy_now y) (sy_now y) (sy_store y) (sy_conns y sid) = (fl, c', st') \<Longrightarrow>
     fl \<noteq> Continue \<Longrightarrow> tcp_finish fl sid c' st' (sy_app y) = (r, c'', st'', s'') \<Longrightarrow>
     system_step en y (y\<lparr>sy_store := st'', sy_conns := (sy_conns y)(sid := c''), sy_app := s'',
       sy_live := (sy_live y)(sid := None)\<rparr>)"
| tcp_continue:
    "sid \<in> sy_waiting y \<Longrightarrow> sy_live y sid = Some (aid, key) \<Longrightarrow>
     tcp_serve (en_crypto en) (en_handlers en) sid aid key nonce (sy_conns y sid) (sy_app y) = (Continue, c', s') \<Longrightarrow>
     system_step en y (y\<lparr>sy_waiting := sy_waiting y - {sid}, sy_conns := (sy_conns y)(sid := c'), sy_app := s'\<rparr>)"
| tcp_end:
    "sid \<in> sy_waiting y \<Longrightarrow> sy_live y sid = Some (aid, key) \<Longrightarrow>
     tcp_serve (en_crypto en) (en_handlers en) sid aid key nonce (sy_conns y sid) (sy_app y) = (fl, c', s') \<Longrightarrow>
     fl \<noteq> Continue \<Longrightarrow> tcp_finish fl sid c' (sy_store y) s' = (r, c'', st'', s'') \<Longrightarrow>
     system_step en y (y\<lparr>sy_waiting := sy_waiting y - {sid}, sy_store := st'', sy_conns := (sy_conns y)(sid := c''),
       sy_app := s'', sy_live := (sy_live y)(sid := None)\<rparr>)"
| quic_open:
    "sy_live y sid = Some (aid, key) \<Longrightarrow>
     system_step en y (y\<lparr>sy_streams := add_mset (stream_task_for sid aid c, Spawned) (sy_streams y)\<rparr>)"
| quic_refuse:
    "(t, Spawned) \<in># sy_streams y \<Longrightarrow> refused_session (sy_store y) (sy_now y) (sy_now y) (st_session_id t) = Some sess \<Longrightarrow>
     system_step en y (y\<lparr>sy_streams := sy_streams y - {#(t, Spawned)#}\<rparr>)"
| quic_pass:
    "(t, Spawned) \<in># sy_streams y \<Longrightarrow> refused_session (sy_store y) (sy_now y) (sy_now y) (st_session_id t) = None \<Longrightarrow>
     system_step en y (y\<lparr>sy_streams := add_mset (t, Passed) (sy_streams y - {#(t, Spawned)#})\<rparr>)"
| quic_take_key:
    "(t, Passed) \<in># sy_streams y \<Longrightarrow> stream_key (sy_store y) (st_session_id t) = key \<Longrightarrow>
     system_step en y (y\<lparr>sy_streams := add_mset (t, Keyed key) (sy_streams y - {#(t, Passed)#})\<rparr>)"
| quic_serve:
    "(t, Keyed key) \<in># sy_streams y \<Longrightarrow>
     serve_request_stream (en_crypto en) (en_handlers en) (st_session_id t) (st_api_key_id t) nonce key (st_conn t) (sy_app y) = (c', s') \<Longrightarrow>
     system_step en y (y\<lparr>sy_streams := sy_streams y - {#(t, Keyed key)#}, sy_app := s'\<rparr>)"
| quic_close:
    "sy_live y sid = Some ak \<Longrightarrow>
     system_step en y (y\<lparr>sy_store := quic_finish sid (sy_store y), sy_live := (sy_live y)(sid := None),
       sy_waiting := sy_waiting y - {sid}\<rparr>)"
| gc: "system_step en y (y\<lparr>sy_store := gc_tick (sy_now y) (sy_store y)\<rparr>)"
| tick: "system_step en y (y\<lparr>sy_now := sy_now y + d\<rparr>)"

text \<open>What the operations in the steps do to the store.\<close>

lemma tcp_check_spec:
  "tcp_check cr sid key nonce now later st c = (fl, c', st') \<longleftrightarrow> st' = st \<and>
     (case refused_session st now later sid of
        None \<Rightarrow> fl = Continue \<and> c' = c
      | Some sess \<Rightarrow> fl = Break \<and> c' = send_response cr nonce key 0 expired_response c)"
  by (auto simp: tcp_check_def server_touch_def Let_def split: option.split)

lemma tcp_finish_spec:
  "tcp_finish fl sid c st s = (r, c', st', s') \<longleftrightarrow> c' = c \<and> s' = s \<and>
     st' = (if fl = Unwind then st else store_delete sid st) \<and> r = (if fl = Unwind then None else Some (Ok ()))"
  by (cases fl) (auto simp: tcp_finish_def)

lemmas system_ops = tcp_check_spec tcp_finish_spec quic_finish_def open_session_def

section \<open>The code's functions as runs\<close>

text \<open>
  Run without interruption, the steps of a TCP connection are \<open>handle_tcp_connection\<close>: first the
  rounds of its loop with what follows it, then the handshake before them.
\<close>

definition undisturbed :: "instant \<Rightarrow> (nat \<Rightarrow> 's observation) \<Rightarrow> bool" where
  "undisturbed now obs \<longleftrightarrow> (\<forall>n. ob_now (obs n) = now \<and> ob_later (obs n) = now \<and> ob_env (obs n) = (\<lambda>x. x))"

lemma tcp_loop_steps:
  assumes "tcp_loop (en_crypto en) (en_handlers en) sid aid key obs n (sy_conns y sid) (sy_store y) (sy_app y) = (fl, c1, st1, s1)"
    and "tcp_finish fl sid c1 st1 s1 = (r, c', st', s')" and "undisturbed (sy_now y) obs"
    and "sy_live y sid = Some (aid, key)" and "sid \<notin> sy_waiting y"
  shows "(system_step en)\<^sup>*\<^sup>* y (y\<lparr>sy_store := st', sy_conns := (sy_conns y)(sid := c'), sy_app := s', sy_live := (sy_live y)(sid := None)\<rparr>)"
  using assms
proof (induction "length (c_in (sy_conns y sid))" arbitrary: y n rule: less_induct)
  case less
  let ?cr = "en_crypto en" and ?nonce = "ob_nonce (obs n)" and ?now = "sy_now y"
  have ob: "ob_now (obs n) = ?now" "ob_later (obs n) = ?now" "ob_env (obs n) = (\<lambda>x. x)"
    using less.prems(3) by (simp_all add: undisturbed_def)
  obtain cf cc cst where check: "tcp_check ?cr sid key ?nonce ?now ?now (sy_store y) (sy_conns y sid) = (cf, cc, cst)"
    by (metis prod_cases3)
  show ?case
  proof (cases "cf = Continue")
    case False
    have "(fl, c1, st1, s1) = (cf, cc, cst, sy_app y)"
      using less.prems(1) check False ob
      by (subst (asm) tcp_loop.simps) (cases cf; simp add: tcp_round_def)
    then show ?thesis
      using tcp_expire [OF less.prems(4,5) check False] less.prems(2) by (blast intro: r_into_rtranclp)
  next
    case True
    then have cc: "cc = sy_conns y sid" "cst = sy_store y" using check by (auto simp: tcp_check_spec split: option.splits)
    let ?p = "y\<lparr>sy_store := cst, sy_conns := (sy_conns y)(sid := cc), sy_waiting := insert sid (sy_waiting y)\<rparr>"
    have pass: "system_step en y ?p" by (rule tcp_pass [OF less.prems(4,5) check [unfolded True]])
    obtain sf sc ss where serve: "tcp_serve ?cr (en_handlers en) sid aid key ?nonce cc (sy_app y) = (sf, sc, ss)"
      by (metis prod_cases3)
    have round: "tcp_round ?cr (en_handlers en) sid aid key (obs n) (sy_store y) (sy_conns y sid) (sy_app y) = (sf, sc, cst, ss)"
      using check True ob serve by (simp add: tcp_round_def)
    show ?thesis
    proof (cases "sf = Continue")
      case False
      have "(fl, c1, st1, s1) = (sf, sc, cst, ss)"
        using less.prems(1) round False by (subst (asm) tcp_loop.simps) (cases sf; simp)
      then have "system_step en ?p (?p\<lparr>sy_waiting := sy_waiting ?p - {sid}, sy_store := st', sy_conns := (sy_conns ?p)(sid := c'),
         sy_app := s', sy_live := (sy_live ?p)(sid := None)\<rparr>)"
        using less.prems(2,4) serve False by (intro tcp_end [where fl = sf]) (auto simp: cc)
      then show ?thesis using pass less.prems(5) by (simp add: converse_rtranclp_into_rtranclp)
    next
      case True
      let ?z = "y\<lparr>sy_store := cst, sy_conns := (sy_conns y)(sid := sc), sy_app := ss\<rparr>"
      have "system_step en ?p (?p\<lparr>sy_waiting := sy_waiting ?p - {sid}, sy_conns := (sy_conns ?p)(sid := sc), sy_app := ss\<rparr>)"
        using less.prems(4) serve True by (intro tcp_continue) (auto simp: cc)
      then have step: "system_step en ?p ?z" using less.prems(5) by simp
      have "length (c_in (sy_conns ?z sid)) < length (c_in (sy_conns y sid))"
        using tcp_serve_consumes [OF serve [unfolded True]] cc by simp
      moreover have "tcp_loop ?cr (en_handlers en) sid aid key obs (n + 1) (sy_conns ?z sid) (sy_store ?z) (sy_app ?z) = (fl, c1, st1, s1)"
        using less.prems(1) round True by (subst (asm) tcp_loop.simps) simp
      ultimately have "(system_step en)\<^sup>*\<^sup>* ?z (?z\<lparr>sy_store := st', sy_conns := (sy_conns ?z)(sid := c'), sy_app := s', sy_live := (sy_live ?z)(sid := None)\<rparr>)"
        using less.prems by (intro less.hyps) simp_all
      then show ?thesis using pass step by (simp add: converse_rtranclp_into_rtranclp)
    qed
  qed
qed

lemma tcp_connection_steps:
  assumes "handle_tcp_connection (en_crypto en) (en_handlers en) (en_keys en) (en_priv en) (en_pub en) sid (sy_now y) obs
      (sy_conns y sid) (sy_store y) (sy_app y) = (r, c', st', s')"
    and "sid \<in> sy_pending y" "undisturbed (sy_now y) obs" "sid \<notin> sy_waiting y" "sy_live y sid = None"
  shows "(system_step en)\<^sup>*\<^sup>* y (y\<lparr>sy_pending := sy_pending y - {sid}, sy_store := st', sy_conns := (sy_conns y)(sid := c'), sy_app := s'\<rparr>)"
proof (cases "tcp_handshake (en_crypto en) (en_priv en) (en_pub en) (en_keys en) sid (sy_conns y sid)")
  case (Pair hr c1)
  show ?thesis
  proof (cases hr)
    case (Inl e)
    then show ?thesis
      using refuse [where handshake = tcp_handshake, OF assms(2) _ Pair [unfolded Inl]] assms(1) Pair
      by (cases y) (auto simp: handle_tcp_connection_def)
  next
    case (Inr ak)
    obtain aid key where ak: "ak = (aid, key)" by fastforce
    let ?y1 = "y\<lparr>sy_pending := sy_pending y - {sid}, sy_live := (sy_live y)(sid \<mapsto> (aid, key)),
       sy_store := open_session (sy_now y) sid aid key (sy_store y), sy_conns := (sy_conns y)(sid := c1)\<rparr>"
    have step: "system_step en y ?y1" by (rule establish [where handshake = tcp_handshake, OF assms(2) _ Pair [unfolded Inr ak]]) simp
    obtain fl c2 st2 s2 where loop: "tcp_loop (en_crypto en) (en_handlers en) sid aid key obs 0 c1
        (open_session (sy_now y) sid aid key (sy_store y)) (sy_app y) = (fl, c2, st2, s2)" by (metis prod_cases4)
    have fin: "tcp_finish fl sid c2 st2 s2 = (r, c', st', s')"
      using assms(1) Pair Inr ak loop by (simp add: handle_tcp_connection_def)
    have "(system_step en)\<^sup>*\<^sup>* ?y1 (?y1\<lparr>sy_store := st', sy_conns := (sy_conns ?y1)(sid := c'), sy_app := s', sy_live := (sy_live ?y1)(sid := None)\<rparr>)"
      using loop fin assms(3,4) by (intro tcp_loop_steps) auto
    moreover have "(sy_live y)(sid := None) = sy_live y" using assms(5) by auto
    ultimately show ?thesis using step by (simp add: converse_rtranclp_into_rtranclp)
  qed
qed

text \<open>Run without interruption, the steps of a QUIC task are \<open>handle_request_stream\<close>.\<close>

lemma quic_task_steps:
  assumes "(t, Spawned) \<in># sy_streams y"
    and "handle_request_stream (en_crypto en) (en_handlers en) (st_session_id t) (st_api_key_id t) nonce
      (sy_now y) (sy_now y) (sy_store y) (sy_store y) (st_conn t) (sy_app y) = (c', s')"
  shows "(system_step en)\<^sup>*\<^sup>* y (y\<lparr>sy_streams := sy_streams y - {#(t, Spawned)#}, sy_app := s'\<rparr>)"
proof (cases "refused_session (sy_store y) (sy_now y) (sy_now y) (st_session_id t)")
  case None
  let ?key = "stream_key (sy_store y) (st_session_id t)" and ?rest = "sy_streams y - {#(t, Spawned)#}"
  have "system_step en y (y\<lparr>sy_streams := add_mset (t, Passed) ?rest\<rparr>)" (is "system_step _ _ ?p")
    by (rule quic_pass [OF assms(1) None])
  moreover have "system_step en ?p (y\<lparr>sy_streams := add_mset (t, Keyed ?key) ?rest\<rparr>)" (is "system_step _ _ ?k")
    using quic_take_key [of t ?p ?key en] by simp
  moreover have "system_step en ?k (y\<lparr>sy_streams := ?rest, sy_app := s'\<rparr>)"
    using quic_serve [of t ?key ?k en nonce c' s'] None assms(2) by (simp add: handle_request_stream_def)
  ultimately show ?thesis by (meson converse_rtranclp_into_rtranclp rtranclp.rtrancl_refl)
next
  case (Some sess)
  then have "s' = sy_app y" using assms(2) by (simp add: handle_request_stream_def)
  then show ?thesis using quic_refuse [OF assms(1) Some] by (simp add: r_into_rtranclp)
qed

inductive reachable :: "'s server_env \<Rightarrow> session_config \<Rightarrow> 's system \<Rightarrow> bool" for en cfg where
  reach_init: "reachable en cfg (system_init cfg s)"
| reach_step: "reachable en cfg y \<Longrightarrow> system_step en y y' \<Longrightarrow> reachable en cfg y'"

section \<open>Invariants\<close>

text \<open>
  The invariant, in three parts: about the sessions in the store, about the identifiers in use, and
  about the agreement of the store with the connections.
\<close>

definition stored_ok :: "'s system \<Rightarrow> bool" where
  "stored_ok y \<longleftrightarrow> store_inv (sy_store y) \<and> (\<forall>i s. store_get (sy_store y) i = Some s \<longrightarrow>
     last_used s = created_at s \<and> created_at s \<le> sy_now y \<and> length (sess_key s) = KEY_SIZE)"

definition ids_used :: "'s system \<Rightarrow> u64 set" where
  "ids_used y = sy_pending y \<union> dom (sy_live y) \<union> dom (store_get (sy_store y)) \<union>
     (st_session_id \<circ> fst) ` set_mset (sy_streams y)"

definition ids_ok :: "'s system \<Rightarrow> bool" where
  "ids_ok y \<longleftrightarrow> 0 < sy_accepted y \<and> sy_next_id y = word_of_nat (sy_accepted y) \<and>
     ids_used y \<subseteq> word_of_nat ` {1..<sy_accepted y}"

text \<open>The key a task has taken is the session's, or empty when the session was gone.\<close>

definition stage_key_ok :: "bytes \<Rightarrow> stage \<Rightarrow> bool" where
  "stage_key_ok key g \<longleftrightarrow> (\<forall>k. g = Keyed k \<longrightarrow> k = [] \<or> k = key)"

lemma stage_key_ok_simps [simp]:
  "stage_key_ok key Spawned" "stage_key_ok key Passed" "stage_key_ok key (Keyed k) \<longleftrightarrow> k = [] \<or> k = key"
  by (simp_all add: stage_key_ok_def)

lemma stream_key_eq:
  "stream_key sessions i = (case store_get sessions i of Some s \<Rightarrow> sess_key s | None \<Rightarrow> [])"
  by (simp add: stream_key_def)

definition conns_ok :: "'s system \<Rightarrow> bool" where
  "conns_ok y \<longleftrightarrow> sy_pending y \<inter> (dom (sy_live y) \<union> dom (store_get (sy_store y))) = {} \<and>
     (\<forall>i s a k. sy_live y i = Some (a, k) \<longrightarrow> store_get (sy_store y) i = Some s \<longrightarrow> api_key_id s = a \<and> sess_key s = k) \<and>
     sy_waiting y \<subseteq> dom (sy_live y) \<and>
     (\<forall>t g. (t, g) \<in># sy_streams y \<longrightarrow> st_session_id t \<notin> sy_pending y \<and>
       (\<forall>a k. sy_live y (st_session_id t) = Some (a, k) \<longrightarrow> a = st_api_key_id t \<and> stage_key_ok k g) \<and>
       (\<forall>s. store_get (sy_store y) (st_session_id t) = Some s \<longrightarrow> api_key_id s = st_api_key_id t \<and> stage_key_ok (sess_key s) g))"

lemma word_of_nat_fresh:
  assumes "n < 2 ^ 64"
  shows "(word_of_nat n :: u64) \<notin> word_of_nat ` {1..<n}"
proof
  assume "(word_of_nat n :: u64) \<in> word_of_nat ` {1..<n}"
  then obtain m where "m < n" "(word_of_nat n :: u64) = word_of_nat m" by auto
  then have "unat (word_of_nat n :: u64) = unat (word_of_nat m :: u64)" by simp
  then have "m = n" using assms \<open>m < n\<close> by (simp only: unat_of_nat) simp
  then show False using \<open>m < n\<close> by simp
qed

lemma store_get_simps:
  "store_get (store_insert s st) i = (if i = sess_id s then Some s else store_get st i)"
  "store_get (store_delete j st) i = (if i = j then None else store_get st i)"
  "store_get (store_new cfg) i = None"
  by (simp_all add: store_get_def store_insert_def store_delete_def store_new_def)

lemma store_dom:
  "dom (store_get (store_insert s st)) = insert (sess_id s) (dom (store_get st))"
  "dom (store_get (store_delete j st)) = dom (store_get st) - {j}"
  by (auto simp: store_get_simps split: if_splits)

lemma gc_subset: "store_get (store_gc now st) i = Some s \<Longrightarrow> store_get st i = Some s"
  by (auto simp: store_gc_def store_retain_def store_get_def map_retain_Some)

lemma session_new_simps [simp]:
  "sess_id (session_new now sid aid key) = sid" "created_at (session_new now sid aid key) = now"
  "last_used (session_new now sid aid key) = now" "sess_key (session_new now sid aid key) = key"
  "api_key_id (session_new now sid aid key) = aid"
  by (simp_all add: session_new_def)

lemma either_handshake:
  assumes "handshake \<in> {quic_handshake, tcp_handshake}"
  obtains re we where "handshake = server_handshake re we"
  using assms that by (auto simp: quic_handshake_def tcp_handshake_def)

lemma either_handshake_key:
  assumes "hkdf_ok cr" and "handshake \<in> {quic_handshake, tcp_handshake}"
    and "handshake cr priv pub ks sid c = (Ok (aid, key), c')"
  shows "length key = KEY_SIZE"
  using either_handshake [OF assms(2)] server_handshake_key [OF assms(1)] assms(3) by metis

lemma stored_ok_step:
  assumes "system_step en y y'" and "hkdf_ok (en_crypto en)" and "stored_ok y"
  shows "stored_ok y'"
  using assms(1)
proof cases
  case (establish sid handshake aid key c')
  have "length key = KEY_SIZE" using either_handshake_key [OF assms(2) establish(3,4)] .
  then show ?thesis
    using establish(1) assms(3) by (auto simp: stored_ok_def system_ops store_get_simps ss.inv_put)
next
  case gc
  then show ?thesis
    using assms(3) by (auto simp: stored_ok_def gc_tick_def store_gc_inv dest: gc_subset)
next
  case (tick d)
  then show ?thesis using assms(3) by (auto simp: stored_ok_def intro: trans_le_add1)
qed (use assms(3) in \<open>auto simp: stored_ok_def system_ops store_get_simps ss.inv_del split: if_splits option.splits\<close>)

lemma ids_ok_step:
  assumes "system_step en y y'" and "ids_ok y"
  shows "ids_ok y'"
proof -
  have ids_Suc: "insert (word_of_nat n) (word_of_nat ` {1..<n}) = (word_of_nat ` {1..<n + 1} :: u64 set)" if "0 < n" for n
    using that by (simp add: atLeastLessThanSuc)
  have mono: "ids_ok y'" if "ids_used y' \<subseteq> ids_used y" "sy_accepted y' = sy_accepted y" "sy_next_id y' = sy_next_id y"
    using that assms(2) by (auto simp: ids_ok_def)
  show ?thesis
    using assms(1)
  proof cases
    case (accept sid nid)
    then show ?thesis
      using assms(2) ids_Suc [symmetric] by (auto simp: ids_ok_def ids_used_def fetch_next_id_def)
  next
    case (establish sid handshake aid key c')
    then show ?thesis by (intro mono) (auto simp: ids_used_def system_ops store_get_simps split: if_splits)
  next
    case gc
    then show ?thesis by (intro mono) (auto simp: ids_used_def gc_tick_def dest: gc_subset)
  qed (intro mono; force simp: ids_used_def system_ops store_get_simps dest: in_diffD split: if_splits option.splits)+
qed

lemma conns_ok_step:
  assumes "system_step en y y'" and "ids_ok y" and "conns_ok y" and "sy_accepted y' \<le> 2 ^ 64"
  shows "conns_ok y'"
  using assms(1)
proof cases
  case (accept sid nid)
  have "sy_accepted y < 2 ^ 64" using accept assms(4) by simp
  then have "sy_next_id y \<notin> ids_used y"
    using word_of_nat_fresh [of "sy_accepted y"] assms(2) by (auto simp: ids_ok_def)
  then show ?thesis using accept assms(3) by (auto simp: conns_ok_def ids_used_def image_iff fetch_next_id_def)
next
  case (establish sid handshake aid key c')
  then show ?thesis using assms(3) by (auto simp: conns_ok_def system_ops store_get_simps split: if_splits)
next
  case gc
  then show ?thesis using assms(3) by (fastforce simp: conns_ok_def gc_tick_def dest: gc_subset)
next
  case (quic_take_key t key)
  have old: "st_session_id t \<notin> sy_pending y"
    "sy_live y (st_session_id t) = Some (a, k) \<Longrightarrow> a = st_api_key_id t"
    "store_get (sy_store y) (st_session_id t) = Some s \<Longrightarrow> api_key_id s = st_api_key_id t"
    "sy_live y (st_session_id t) = Some (a, k) \<Longrightarrow> store_get (sy_store y) (st_session_id t) = Some s \<Longrightarrow> sess_key s = k"
    for a k s using assms(3) quic_take_key(2) unfolding conns_ok_def by blast+
  have key: "key = [] \<or> (\<exists>s. store_get (sy_store y) (st_session_id t) = Some s \<and> key = sess_key s)"
    using quic_take_key(3) by (auto simp: stream_key_eq split: option.splits)
  show ?thesis
    using assms(3) key old unfolding quic_take_key(1) conns_ok_def
    by (auto simp del: split_paired_All dest: in_diffD) 
qed (use assms(3) in \<open>auto simp: conns_ok_def system_ops store_get_simps dest: in_diffD split: if_splits option.splits\<close>)

lemma accepted_mono: "system_step en y y' \<Longrightarrow> sy_accepted y \<le> sy_accepted y'"
  by (induction rule: system_step.induct) auto

lemma reachable_invs:
  "reachable en cfg y \<Longrightarrow> (hkdf_ok (en_crypto en) \<longrightarrow> stored_ok y) \<and> ids_ok y \<and>
     (sy_accepted y \<le> 2 ^ 64 \<longrightarrow> conns_ok y)"
proof (induction rule: reachable.induct)
  case (reach_init s)
  show ?case
    by (auto simp: system_init_def stored_ok_def ids_ok_def ids_used_def conns_ok_def store_get_simps
        ss.inv_empty dom_def)
next
  case (reach_step y y')
  then show ?case
    using stored_ok_step [OF reach_step(2)] ids_ok_step [OF reach_step(2)]
      conns_ok_step [OF reach_step(2)] accepted_mono [OF reach_step(2)] by auto
qed

lemma reachable_store_inv: "reachable en cfg y \<Longrightarrow> store_inv (sy_store y)"
proof (induction rule: reachable.induct)
  case (reach_init s)
  show ?case by (simp add: system_init_def ss.inv_empty)
next
  case (reach_step y y')
  from reach_step(2) show ?case
    by cases (use reach_step(3) in \<open>auto simp: system_ops ss.inv_put ss.inv_del store_gc_inv gc_tick_def split: option.splits\<close>)
qed

text \<open>Without panics, every stored session is that of an established connection.\<close>

definition no_panics :: "'s server_env \<Rightarrow> bool" where
  "no_panics en \<longleftrightarrow> (\<forall>op h. en_handlers en op = Some (SyncH h) \<longrightarrow> (\<forall>req s. fst (h req s) \<noteq> Panics))"

lemma tcp_serve_no_panic:
  assumes "no_panics en"
  shows "tcp_serve (en_crypto en) (en_handlers en) sid aid key nonce c s \<noteq> (Unwind, c', s')"
proof
  assume "tcp_serve (en_crypto en) (en_handlers en) sid aid key nonce c s = (Unwind, c', s')"
  then obtain op h req t t' where "en_handlers en op = Some (SyncH h)" "h req t = (Panics, t')"
    by (auto simp: tcp_serve_def Let_def split: prod.splits bool.splits
        sum.splits option.splits handler_type.splits outcome.splits if_splits)
  with assms show False unfolding no_panics_def by (metis fst_conv)
qed

lemma reachable_no_leak:
  assumes "no_panics en"
  shows "reachable en cfg y \<Longrightarrow> dom (store_get (sy_store y)) \<subseteq> dom (sy_live y)"
proof (induction rule: reachable.induct)
  case (reach_init s)
  show ?case by (simp add: system_init_def store_get_simps dom_def)
next
  case (reach_step y y')
  from reach_step(2) show ?case
  proof cases
    case (tcp_end sid aid key nonce fl c' s' r c'' st'' s'')
    then have "fl \<noteq> Unwind" using tcp_serve_no_panic [OF assms] by blast
    then show ?thesis using tcp_end reach_step(3) by (auto simp: system_ops store_dom simp del: fun_upd_apply)
  next
    case gc
    then show ?thesis using reach_step(3) by (auto simp: gc_tick_def dest: gc_subset)
  qed (use reach_step(3) in \<open>auto simp del: fun_upd_apply simp: system_ops store_dom split: option.splits\<close>)
qed

section \<open>A run\<close>

text \<open>A server with one registered client, for the witnesses.\<close>

definition toy_env :: "nat server_env" where
  "toy_env = \<lparr>en_crypto = toy_crypto, en_handlers = toy_handlers, en_keys = [''alice'' \<mapsto> [9]],
     en_priv = [2], en_pub = toy_public [2]\<rparr>"

lemma toy_env_simps [simp]:
  "en_crypto toy_env = toy_crypto" "en_handlers toy_env = toy_handlers" "en_keys toy_env = [''alice'' \<mapsto> [9]]"
  "en_priv toy_env = [2]" "en_pub toy_env = toy_public [2]"
  by (simp_all add: toy_env_def)

text \<open>Established after \<open>d\<close>, with \<open>b\<close> still to come over the connection.\<close>

definition toy_state :: "duration \<Rightarrow> u64 set \<Rightarrow> bytes \<Rightarrow> bytes \<Rightarrow> nat system" where
  "toy_state d waiting key b = \<lparr>sy_now = d, sy_store = store_insert (session_new 0 1 ''alice'' key) (store_new default_config),
     sy_next_id = 2, sy_accepted = 2, sy_pending = {}, sy_live = [1 \<mapsto> (''alice'', key)], sy_waiting = waiting,
     sy_conns = (\<lambda>_. no_conn)(1 := (toy_conn b)\<lparr>c_out := toy_public [2] @ u64_to_be 1\<rparr>), sy_streams = {#}, sy_app = 0\<rparr>"

lemma toy_run:
  obtains key where "good_key key" "\<And>d b. reachable toy_env default_config (toy_state d {} key b)"
proof -
  obtain k where k: "derive_session_key toy_crypto (x25519 toy_crypto [2] (toy_public [1])) [9] = Ok k" "good_key k"
    using derive_session_key_Ok [OF toy_hkdf_ok] by blast
  have "reachable toy_env default_config (toy_state d {} k b)" for d b
  proof -
    let ?c = "toy_conn (hello ''alice'' (toy_public [1]) @ b)"
    have h: "tcp_handshake toy_crypto [2] (toy_public [2]) [''alice'' \<mapsto> [9]] 1 ?c =
        (Ok (''alice'', k), (toy_conn b)\<lparr>c_out := toy_public [2] @ u64_to_be 1\<rparr>)"
      unfolding tcp_handshake_def
      using server_handshake_hello [of ?c "''alice''" "toy_public [1]" b "[''alice'' \<mapsto> [9]]" "[9]" toy_crypto "[2]" k SvIo SvIo
          "toy_public [2]" 1] k(1)
      by (simp add: rust_id secret_of_def toy_conn_def)
    let ?y0 = "system_init default_config (0 :: nat)"
    let ?y1 = "?y0\<lparr>sy_next_id := sy_next_id ?y0 + 1, sy_accepted := sy_accepted ?y0 + 1,
        sy_pending := insert (sy_next_id ?y0) (sy_pending ?y0), sy_conns := (sy_conns ?y0)(sy_next_id ?y0 := ?c)\<rparr>"
    have r1: "reachable toy_env default_config ?y1"
      by (rule reach_step [OF reach_init accept]) (simp add: fetch_next_id_def)
    have "system_step toy_env ?y1 (?y1\<lparr>sy_pending := sy_pending ?y1 - {1}, sy_live := (sy_live ?y1)(1 \<mapsto> (''alice'', k)),
         sy_store := open_session (sy_now ?y1) 1 ''alice'' k (sy_store ?y1),
         sy_conns := (sy_conns ?y1)(1 := (toy_conn b)\<lparr>c_out := toy_public [2] @ u64_to_be 1\<rparr>)\<rparr>)" (is "system_step _ _ ?y2")
      by (rule establish [where handshake = tcp_handshake]) (simp_all add: system_init_def h)
    then have "reachable toy_env default_config ?y2" by (rule reach_step [OF r1])
    from reach_step [OF this tick [where d = d]] show ?thesis
      by (simp add: toy_state_def system_init_def open_session_def numeral_2_eq_2)
  qed
  then show thesis using that k(2) by blast
qed

lemma refused_session_iff:
  "refused_session st now now sid = None \<longleftrightarrow> (\<forall>sess. store_get st sid = Some sess \<longrightarrow> \<not> session_dead st now now sess)"
  by (auto simp: refused_session_def split: option.split)

text \<open>It waits for a request.\<close>

lemma toy_waits:
  assumes "\<And>d b. reachable toy_env default_config (toy_state d {} key b)"
  shows "reachable toy_env default_config (toy_state 0 {1} key b)"
proof -
  let ?y = "toy_state 0 {} key b"
  have "refused_session (sy_store ?y) (sy_now ?y) (sy_now ?y) 1 = None"
    by (simp add: toy_state_def refused_session_iff store_get_simps session_dead_def is_expired_def is_idle_dead_def elapsed_def)
  then have "system_step toy_env ?y (?y\<lparr>sy_store := sy_store ?y, sy_conns := (sy_conns ?y)(1 := sy_conns ?y 1),
      sy_waiting := insert 1 (sy_waiting ?y)\<rparr>)"
    by (intro tcp_pass [where nonce = toy_nonce and aid = "''alice''" and key = key])
      (simp_all add: tcp_check_spec, simp_all add: toy_state_def)
  then have "system_step toy_env ?y (toy_state 0 {1} key b)" by (simp add: toy_state_def)
  then show ?thesis by (rule reach_step [OF assms])
qed

text \<open>A call that comes over its connection.\<close>

lemma toy_call:
  assumes "good_key key"
  obtains b c' where "call_bytes toy_crypto key 3 \<lparr>req_opcode = 7, req_payload = Some toy_map\<rparr> b"
    "tcp_serve toy_crypto toy_handlers 1 ''alice'' key toy_nonce (sy_conns (toy_state d w key b) 1) 0 = (Continue, c', 1)"
proof -
  have good: "good_nonce toy_nonce" by (simp add: toy_sealing)
  obtain b where b: "call_bytes toy_crypto key 3 \<lparr>req_opcode = 7, req_payload = Some toy_map\<rparr> b"
    using encode_call_ok [OF toy_aead_ok, of "toy_client\<lparr>cl_session_key := key\<rparr>" toy_nonce "Some toy_map" 3 7]
      toy_map_fits assms good by auto
  have one: "serve_one toy_handlers 1 ''alice'' (\<lparr>req_opcode = 7, req_payload = Some toy_map\<rparr>, 3) 0 =
      Some (reply_of (Ok (new_response toy_map)), 1)"
    by (simp add: serve_one_def toy_simps toy_echo_answer)
  obtain c' where "tcp_serve toy_crypto toy_handlers 1 ''alice'' key toy_nonce (sy_conns (toy_state d w key b) 1) 0 = (Continue, c', 1)"
    using tcp_serve_ok [OF toy_aead_ok assms good b, of "sy_conns (toy_state d w key b) 1" "[]", OF _ _ one toy_response_fits(2)]
    by (auto simp: toy_state_def toy_conn_def)
  then show thesis using that b by blast
qed

section \<open>Properties\<close>

text \<open>
  C14. Session identifiers. As long as fewer than \<open>2^64\<close> connections have been accepted, the next
  identifier is used by no pending connection, no established one, no stored session and no
  request task; a
  connection whose handshake is running has no entry in the store, so establishing a session never
  overwrites one; the session stored under an established connection's identifier is its own; and a
  QUIC request is served under the key id its session was made with, with that session's key, or
  with the empty one when the session was gone as its task looked for the key.
\<close>

theorem session_ids_unique:
  assumes "reachable en cfg y" and "sy_accepted y < 2 ^ 64"
  shows "sy_next_id y \<notin> sy_pending y \<union> dom (sy_live y) \<union> dom (store_get (sy_store y)) \<union>
       (st_session_id \<circ> fst) ` set_mset (sy_streams y) \<and>
    (\<forall>i \<in> sy_pending y. sy_live y i = None \<and> store_get (sy_store y) i = None) \<and>
    (\<forall>i aid key sess. sy_live y i = Some (aid, key) \<and> store_get (sy_store y) i = Some sess \<longrightarrow>
       sess_id sess = i \<and> api_key_id sess = aid \<and> sess_key sess = key) \<and>
    (\<forall>t g sess. (t, g) \<in># sy_streams y \<and> store_get (sy_store y) (st_session_id t) = Some sess \<longrightarrow>
       api_key_id sess = st_api_key_id t \<and> (\<forall>key. g = Keyed key \<longrightarrow> key = [] \<or> key = sess_key sess))"
proof -
  have ok: "ids_ok y" "conns_ok y" "store_inv (sy_store y)"
    using reachable_invs [OF assms(1)] reachable_store_inv [OF assms(1)] assms(2) by auto
  have "sy_next_id y \<notin> ids_used y"
    using ok(1) word_of_nat_fresh [OF assms(2)] by (auto simp: ids_ok_def)
  moreover have "sess_id sess = i" if "store_get (sy_store y) i = Some sess" for i sess
    using ss.inv_key [OF ok(3) that] .
  moreover have "sy_live y i = None \<and> store_get (sy_store y) i = None" if "i \<in> sy_pending y" for i
    using ok(2) that unfolding conns_ok_def by (auto simp: domIff)
  moreover have "api_key_id sess = aid \<and> sess_key sess = key"
    if "sy_live y i = Some (aid, key)" "store_get (sy_store y) i = Some sess" for i aid key sess
    using ok(2) that unfolding conns_ok_def by blast
  moreover have "api_key_id sess = st_api_key_id t \<and> stage_key_ok (sess_key sess) g"
    if "(t, g) \<in># sy_streams y" "store_get (sy_store y) (st_session_id t) = Some sess" for t g sess
    using ok(2) that unfolding conns_ok_def by blast
  ultimately show ?thesis unfolding ids_used_def stage_key_ok_def by blast
qed

theorem session_ids_unique_witness:
  "\<exists>key. reachable toy_env default_config (toy_state 0 {} key []) \<and>
     store_get (sy_store (toy_state 0 {} key [])) 1 = Some (session_new 0 1 ''alice'' key) \<and>
     2 \<notin> dom (sy_live (toy_state 0 {} key [])) \<union> dom (store_get (sy_store (toy_state 0 {} key [])))"
proof -
  obtain key where r: "reachable toy_env default_config (toy_state 0 {} key [])" using toy_run by blast
  have "sy_accepted (toy_state 0 {} key []) < 2 ^ 64" "sy_next_id (toy_state 0 {} key []) = 2" by (simp_all add: toy_state_def)
  with session_ids_unique [OF r] r show ?thesis by (intro exI [of _ key]) (simp add: toy_state_def store_get_simps)
qed

text \<open>
  C17. Idle sessions. \<open>touch\<close> never reaches the store: in every reachable state a stored session's
  \<open>last_used\<close> is its creation time. So a session counts as idle \<open>idle_timeout\<close> after it was created,
  however busy it is, and is dead as soon as it is older than the smaller of the two timeouts.
\<close>

theorem idle_from_creation:
  assumes "hkdf_ok (en_crypto en)" and "reachable en cfg y" and "store_get (sy_store y) i = Some sess"
  shows "last_used sess = created_at sess \<and>
    (is_idle_dead (sy_store y) now sess \<longleftrightarrow> idle_timeout (ss_config (sy_store y)) < elapsed now (created_at sess)) \<and>
    (session_dead (sy_store y) now now sess \<longleftrightarrow>
       min (idle_timeout (ss_config (sy_store y))) (max_lifetime (ss_config (sy_store y))) < elapsed now (created_at sess))"
proof -
  have "last_used sess = created_at sess"
    using reachable_invs [OF assms(2)] assms(1,3) by (auto simp: stored_ok_def)
  then show ?thesis by (auto simp: is_idle_dead_def session_dead_def is_expired_def min_less_iff_disj)
qed

theorem idle_from_creation_witness:
  "\<exists>y sess. reachable toy_env default_config y \<and> store_get (sy_store y) 1 = Some sess \<and>
     sy_now y = from_secs 301 \<and> session_dead (sy_store y) (sy_now y) (sy_now y) sess"
proof -
  obtain key where r: "reachable toy_env default_config (toy_state (from_secs 301) {} key [])"
    (is "reachable _ _ ?y") using toy_run by blast
  have g: "store_get (sy_store ?y) 1 = Some (session_new 0 1 ''alice'' key)" by (simp add: toy_state_def store_get_simps)
  have "session_dead (sy_store ?y) (from_secs 301) (from_secs 301) (session_new 0 1 ''alice'' key)"
    using idle_from_creation [OF _ r g, of "from_secs 301"] toy_hkdf_ok
    by (simp add: toy_state_def default_config_def DEFAULT_IDLE_TIMEOUT_def DEFAULT_MAX_LIFETIME_def
        store_insert_def store_new_def elapsed_def from_secs_def)
  then show ?thesis using r g by (intro exI [of _ ?y]) (auto simp: toy_state_def)
qed

text \<open>
  C21. No stale sessions. When no handler panics (as when \<open>recovery_middleware\<close> wraps them all), every
  session in the store belongs to an established connection, so the store never outgrows the set
  of open connections.
\<close>

theorem store_only_live:
  assumes "no_panics en" and "reachable en cfg y"
  shows "dom (store_get (sy_store y)) \<subseteq> dom (sy_live y) \<and> store_len (sy_store y) \<le> card (dom (sy_live y))"
proof -
  have "dom (store_get (sy_store y)) \<subseteq> dom (sy_live y)" by (rule reachable_no_leak [OF assms(1,2)])
  moreover have "store_get (sy_store y) = ss_sessions (sy_store y)" by (simp add: store_get_def fun_eq_iff)
  ultimately show ?thesis by (auto simp: store_len_def intro: card_mono [OF finite])
qed

text \<open>In the witness the one connection there was has ended.\<close>

theorem store_only_live_witness:
  "\<exists>y. reachable toy_env default_config y \<and> sy_accepted y = 2 \<and> sy_pending y = {} \<and> sy_live y = Map.empty \<and>
     c_out (sy_conns y 1) \<noteq> [] \<and> store_len (sy_store y) = 0"
proof -
  obtain key where w: "reachable toy_env default_config (toy_state 0 {1} key [])" (is "reachable _ _ ?y")
    using toy_run toy_waits by metis
  have eof: "tcp_serve toy_crypto toy_handlers 1 ''alice'' key toy_nonce ((toy_conn [])\<lparr>c_out := out\<rparr>) 0 =
      (Break, (toy_conn [])\<lparr>c_out := out\<rparr>, 0)" for out
    by (simp add: tcp_serve_def toy_eof)
  let ?z = "?y\<lparr>sy_waiting := sy_waiting ?y - {1}, sy_store := store_delete 1 (sy_store ?y),
      sy_conns := (sy_conns ?y)(1 := sy_conns ?y 1), sy_app := 0, sy_live := (sy_live ?y)(1 := None)\<rparr>"
  have "system_step toy_env ?y ?z"
    by (rule tcp_end [where fl = Break and aid = "''alice''" and key = key and nonce = toy_nonce and c' = "sy_conns ?y 1" and s' = 0])
      (simp_all add: tcp_finish_spec toy_state_def eof)
  then have r: "reachable toy_env default_config ?z" by (rule reach_step [OF w])
  have "no_panics toy_env"
    by (auto simp: no_panics_def toy_handlers_def toy_echo_def split: if_splits)
  from store_only_live [OF this r] r show ?thesis by (intro exI [of _ ?z]) (simp add: toy_state_def u64_to_be_def)
qed

section \<open>Requests that come late\<close>

text \<open>A connection is set waiting, or a task let through, only by a step that finds its session alive.\<close>

lemma admitted_by_check:
  assumes "system_step en y y'"
  shows "sid \<in> sy_waiting y' - sy_waiting y \<Longrightarrow> refused_session (sy_store y) (sy_now y) (sy_now y) sid = None"
    and "count (sy_streams y) (t, Passed) < count (sy_streams y') (t, Passed) \<Longrightarrow>
       refused_session (sy_store y) (sy_now y) (sy_now y) (st_session_id t) = None"
proof -
  show "refused_session (sy_store y) (sy_now y) (sy_now y) sid = None" if "sid \<in> sy_waiting y' - sy_waiting y"
    using assms by cases (use that in \<open>auto simp: tcp_check_spec split: option.splits\<close>)
  show "refused_session (sy_store y) (sy_now y) (sy_now y) (st_session_id t) = None"
    if "count (sy_streams y) (t, Passed) < count (sy_streams y') (t, Passed)"
    using assms by cases (use that in \<open>auto split: if_splits\<close>)
qed

lemma stored_dead_iff:
  assumes "stored_ok y" and "store_get (sy_store y) sid = Some sess"
  shows "session_dead (sy_store y) (sy_now y) (sy_now y) sess \<longleftrightarrow>
    created_at sess + min (idle_timeout (ss_config (sy_store y))) (max_lifetime (ss_config (sy_store y))) < sy_now y"
  using assms by (auto simp: stored_ok_def session_dead_def is_expired_def is_idle_dead_def elapsed_def)

text \<open>What the connection of a dead session can still do.\<close>

lemma expired_steps:
  assumes "refused_session (sy_store y) (sy_now y) (sy_now y) sid = Some sess" and "sy_live y sid = Some (aid, key)"
    and "sid \<notin> sy_waiting y"
  shows "\<exists>y'. system_step en y y' \<and> sy_live y' sid = None \<and> store_get (sy_store y') sid = None \<and> sy_app y' = sy_app y \<and>
      sy_conns y' sid = send_response (en_crypto en) nonce key 0 expired_response (sy_conns y sid)"
    and "conns_ok y \<Longrightarrow> sy_next_id y \<notin> ids_used y \<Longrightarrow> system_step en y y' \<Longrightarrow> sy_conns y' sid \<noteq> sy_conns y sid \<Longrightarrow>
      sy_live y' sid = None \<and> store_get (sy_store y') sid = None \<and> sy_app y' = sy_app y \<and>
      (\<exists>nonce. sy_conns y' sid = send_response (en_crypto en) nonce key 0 expired_response (sy_conns y sid))"
proof -
  let ?c = "send_response (en_crypto en) nonce key 0 expired_response (sy_conns y sid)"
  have "tcp_check (en_crypto en) sid key nonce (sy_now y) (sy_now y) (sy_store y) (sy_conns y sid) = (Break, ?c, sy_store y)"
    "tcp_finish Break sid ?c (sy_store y) (sy_app y) = (Some (Ok ()), ?c, store_delete sid (sy_store y), sy_app y)"
    using assms(1) by (simp_all add: system_ops)
  from tcp_expire [OF assms(2,3) this(1) _ this(2)]
  have "system_step en y (y\<lparr>sy_store := store_delete sid (sy_store y), sy_conns := (sy_conns y)(sid := ?c), sy_app := sy_app y,
      sy_live := (sy_live y)(sid := None)\<rparr>)" by simp
  then show "\<exists>y'. system_step en y y' \<and> sy_live y' sid = None \<and> store_get (sy_store y') sid = None \<and> sy_app y' = sy_app y \<and>
      sy_conns y' sid = ?c"
    by (intro exI conjI, assumption) (simp_all add: store_get_simps)
  assume ok: "conns_ok y" "sy_next_id y \<notin> ids_used y" and step: "system_step en y y'" and new: "sy_conns y' sid \<noteq> sy_conns y sid"
  have "sid \<noteq> sy_next_id y" "sid \<notin> sy_pending y" using ok assms(2) by (auto simp: conns_ok_def ids_used_def)
  with step show "sy_live y' sid = None \<and> store_get (sy_store y') sid = None \<and> sy_app y' = sy_app y \<and>
      (\<exists>nonce. sy_conns y' sid = send_response (en_crypto en) nonce key 0 expired_response (sy_conns y sid))"
    by cases (use new assms in \<open>auto simp: fetch_next_id_def system_ops store_get_simps split: if_splits\<close>)
qed

text \<open>However much later, with the session collected meanwhile.\<close>

definition later :: "duration \<Rightarrow> 's system \<Rightarrow> 's system" where
  "later d y = y\<lparr>sy_now := sy_now y + d, sy_store := gc_tick (sy_now y + d) (sy_store y)\<rparr>"

lemma later_steps: "(system_step en)\<^sup>*\<^sup>* y (later d y)"
proof -
  have "system_step en y (y\<lparr>sy_now := sy_now y + d\<rparr>)" by (rule tick)
  moreover have "system_step en (y\<lparr>sy_now := sy_now y + d\<rparr>) (later d y)"
    using gc [of en "y\<lparr>sy_now := sy_now y + d\<rparr>"] by (simp add: later_def)
  ultimately show ?thesis by (rule converse_rtranclp_into_rtranclp [OF _ r_into_rtranclp])
qed

lemma later_collects:
  assumes "stored_ok y" and "max_lifetime (ss_config (sy_store y)) < d"
  shows "store_get (sy_store (later d y)) i = None"
proof (cases "store_get (sy_store y) i")
  case (Some sess)
  then have "created_at sess \<le> sy_now y" using assms(1) by (auto simp: stored_ok_def)
  then have "max_lifetime (ss_config (sy_store y)) < elapsed (sy_now y + d) (created_at sess)"
    using assms(2) by (simp add: elapsed_def)
  then show ?thesis
    using Some by (simp add: later_def gc_tick_def store_gc_def store_retain_def store_get_def map_retain_def)
next
  case None
  then show ?thesis
    using gc_subset [of "sy_now y + d" "sy_store y" i] by (cases "store_get (store_gc (sy_now y + d) (sy_store y)) i") (simp_all add: later_def gc_tick_def)
qed

lemma late_serves:
  shows "sid \<in> sy_waiting y \<Longrightarrow> sy_live y sid = Some (aid, key) \<Longrightarrow>
      tcp_serve (en_crypto en) (en_handlers en) sid aid key nonce (sy_conns y sid) (sy_app y) = (Continue, c', s') \<Longrightarrow>
      \<exists>y'. (system_step en)\<^sup>*\<^sup>* y y' \<and> sy_now y' = sy_now y + d \<and> sy_store y' = sy_store (later d y) \<and> sy_app y' = s' \<and> sy_conns y' sid = c'"
    and "(t, Keyed key) \<in># sy_streams y \<Longrightarrow>
      serve_request_stream (en_crypto en) (en_handlers en) (st_session_id t) (st_api_key_id t) nonce key (st_conn t) (sy_app y) = (c', s') \<Longrightarrow>
      \<exists>y'. (system_step en)\<^sup>*\<^sup>* y y' \<and> sy_now y' = sy_now y + d \<and> sy_store y' = sy_store (later d y) \<and> sy_app y' = s' \<and>
        sy_streams y' = sy_streams y - {#(t, Keyed key)#}"
proof -
  assume "sid \<in> sy_waiting y" "sy_live y sid = Some (aid, key)"
    "tcp_serve (en_crypto en) (en_handlers en) sid aid key nonce (sy_conns y sid) (sy_app y) = (Continue, c', s')"
  then have "system_step en (later d y) ((later d y)\<lparr>sy_waiting := sy_waiting y - {sid}, sy_conns := (sy_conns y)(sid := c'), sy_app := s'\<rparr>)"
    (is "system_step _ _ ?z")
    using tcp_continue [of sid "later d y" aid key en nonce c' s'] by (simp add: later_def)
  with later_steps [of en y d] have "(system_step en)\<^sup>*\<^sup>* y ?z" by (rule rtranclp.rtrancl_into_rtrancl)
  then show "\<exists>y'. (system_step en)\<^sup>*\<^sup>* y y' \<and> sy_now y' = sy_now y + d \<and>
      sy_store y' = sy_store (later d y) \<and> sy_app y' = s' \<and> sy_conns y' sid = c'"
    by (intro exI [of _ ?z]) (simp add: later_def)
next
  assume "(t, Keyed key) \<in># sy_streams y"
    "serve_request_stream (en_crypto en) (en_handlers en) (st_session_id t) (st_api_key_id t) nonce key (st_conn t) (sy_app y) = (c', s')"
  then have "system_step en (later d y) ((later d y)\<lparr>sy_streams := sy_streams y - {#(t, Keyed key)#}, sy_app := s'\<rparr>)"
    (is "system_step _ _ ?z") using quic_serve [of t key "later d y" en nonce c' s'] by (simp add: later_def)
  with later_steps [of en y d] have "(system_step en)\<^sup>*\<^sup>* y ?z" by (rule rtranclp.rtrancl_into_rtrancl)
  then show "\<exists>y'. (system_step en)\<^sup>*\<^sup>* y y' \<and> sy_now y' = sy_now y + d \<and>
      sy_store y' = sy_store (later d y) \<and> sy_app y' = s' \<and> sy_streams y' = sy_streams y - {#(t, Keyed key)#}"
    by (intro exI [of _ ?z]) (simp add: later_def)
qed



end
