(* ===== verification/Hush_Lifecycle.thy ===== *)
theory Hush_Lifecycle
  imports Hush_System
begin

text \<open>
  What the running server promises about session identifiers, as an abstract machine over the
  phases of each identifier, and the proof that the transition system of \<open>Hush_System\<close> refines it.
\<close>

section \<open>Simulation\<close>

text \<open>
  A refinement mapping: every step of the concrete machine is a step of the abstract one, or is
  invisible to it.
\<close>

locale simulation =
  fixes step :: "'c \<Rightarrow> 'c \<Rightarrow> bool" and spec :: "'a \<Rightarrow> 'a \<Rightarrow> bool" and absf :: "'c \<Rightarrow> 'a" and inv_c :: "'c \<Rightarrow> bool"
  assumes inv_step: "inv_c c \<Longrightarrow> step c c' \<Longrightarrow> inv_c c'"
    and sim_step: "inv_c c \<Longrightarrow> step c c' \<Longrightarrow> absf c' = absf c \<or> spec (absf c) (absf c')"
begin

lemma simulates:
  assumes "step\<^sup>*\<^sup>* c c'" and "inv_c c"
  shows "inv_c c' \<and> spec\<^sup>*\<^sup>* (absf c) (absf c')"
  using assms
proof (induction rule: rtranclp_induct)
  case (step y z)
  then have "inv_c y" "spec\<^sup>*\<^sup>* (absf c) (absf y)" by simp_all
  then show ?case
    using inv_step [OF \<open>inv_c y\<close> step(2)] sim_step [OF \<open>inv_c y\<close> step(2)]
    by (metis rtranclp.rtrancl_into_rtrancl)
qed simp

text \<open>What is stable under the abstract steps is stable under the concrete ones.\<close>

lemma carries:
  assumes "\<And>a a'. P a \<Longrightarrow> spec a a' \<Longrightarrow> P a'" and "step\<^sup>*\<^sup>* c c'" and "inv_c c" and "P (absf c)"
  shows "P (absf c')"
proof -
  have "P a'" if "spec\<^sup>*\<^sup>* a a'" "P a" for a a'
    using that by (induction rule: rtranclp_induct) (auto intro: assms(1))
  then show ?thesis using simulates [OF assms(2,3)] assms(4) by blast
qed

end

section \<open>The life of an identifier\<close>

datatype phase = Unused | Pending | Open string bytes | Closed

text \<open>The order of the phases; two open phases with different keys are not comparable.\<close>

fun phase_rank :: "phase \<Rightarrow> nat" where
  "phase_rank Unused = 0"
| "phase_rank Pending = 1"
| "phase_rank (Open _ _) = 2"
| "phase_rank Closed = 3"

instantiation phase :: order
begin

definition less_eq_phase :: "phase \<Rightarrow> phase \<Rightarrow> bool" where
  "p \<le> q \<longleftrightarrow> p = q \<or> phase_rank p < phase_rank q"

definition less_phase :: "phase \<Rightarrow> phase \<Rightarrow> bool" where
  "p < q \<longleftrightarrow> phase_rank p < phase_rank q"

instance
  by intro_classes (auto simp: less_eq_phase_def less_phase_def)

end

lemma phase_le_simps [simp]:
  "Unused \<le> p" "p \<le> Unused \<longleftrightarrow> p = Unused" "Closed \<le> p \<longleftrightarrow> p = Closed"
  "Open aid key \<le> p \<longleftrightarrow> p = Open aid key \<or> p = Closed"
  by (cases p; auto simp: less_eq_phase_def)+

inductive life_step :: "(u64 \<Rightarrow> phase) \<Rightarrow> (u64 \<Rightarrow> phase) \<Rightarrow> bool" where
  life_accept: "r i = Unused \<Longrightarrow> life_step r (r(i := Pending))"
| life_open: "r i = Pending \<Longrightarrow> life_step r (r(i := Open aid key))"
| life_refuse: "r i = Pending \<Longrightarrow> life_step r (r(i := Closed))"
| life_close: "r i = Open aid key \<Longrightarrow> life_step r (r(i := Closed))"

inductive_cases life_stepE: "life_step r r'"

lemma life_step_mono: "life_step r r' \<Longrightarrow> r \<le> r'"
  by (erule life_stepE) (auto simp: le_fun_def less_eq_phase_def)

section \<open>The server refines it\<close>

definition phases :: "'s system \<Rightarrow> u64 \<Rightarrow> phase" where
  "phases y i =
     (if i \<in> sy_pending y then Pending
      else case sy_live y i of
             Some (aid, key) \<Rightarrow> Open aid key
           | None \<Rightarrow> if i \<in> word_of_nat ` {1..<sy_accepted y} then Closed else Unused)"

definition bounded_step :: "'s server_env \<Rightarrow> 's system \<Rightarrow> 's system \<Rightarrow> bool" where
  "bounded_step en y y' \<longleftrightarrow> system_step en y y' \<and> sy_accepted y' \<le> 2 ^ 64"

definition registry_ok :: "'s system \<Rightarrow> bool" where
  "registry_ok y \<longleftrightarrow> ids_ok y \<and> conns_ok y"

lemma registry_ok_step: "registry_ok y \<Longrightarrow> bounded_step en y y' \<Longrightarrow> registry_ok y'"
  unfolding registry_ok_def bounded_step_def by (blast intro: ids_ok_step conns_ok_step)

lemma phases_eq:
  assumes "sy_pending y' = sy_pending y" "sy_live y' = sy_live y" "sy_accepted y' = sy_accepted y"
  shows "phases y' = phases y"
  using assms by (simp add: phases_def fun_eq_iff)

text \<open>A live connection's identifier was accepted and is not pending; closing it is one step.\<close>

lemma live_phase:
  assumes "registry_ok y" and "sy_live y i = Some (aid, key)"
  shows "phases y i = Open aid key" "i \<notin> sy_pending y" "i \<in> word_of_nat ` {1..<sy_accepted y}"
  using assms by (auto simp: registry_ok_def ids_ok_def ids_used_def conns_ok_def phases_def)

lemma close_phase:
  assumes "registry_ok y" and "sy_live y i = Some ak"
    and "sy_pending y' = sy_pending y" "sy_live y' = (sy_live y)(i := None)" "sy_accepted y' = sy_accepted y"
  shows "life_step (phases y) (phases y')"
proof -
  obtain aid key where ak: "ak = (aid, key)" by fastforce
  note live = live_phase [OF assms(1) assms(2) [unfolded ak]]
  have "phases y' = (phases y)(i := Closed)"
    using live assms(3-5) by (auto simp: phases_def fun_eq_iff split: option.split)
  then show ?thesis using life_close [of "phases y", OF live(1)] by simp
qed

lemma phases_step:
  assumes "registry_ok y" and "bounded_step en y y'"
  shows "phases y' = phases y \<or> life_step (phases y) (phases y')"
proof -
  have step: "system_step en y y'" and le: "sy_accepted y' \<le> 2 ^ 64"
    using assms(2) by (simp_all add: bounded_step_def)
  show ?thesis
    using step
  proof cases
    case (accept sid nid c)
    let ?i = "sy_next_id y"
    have i: "?i = word_of_nat (sy_accepted y)" "0 < sy_accepted y" "ids_used y \<subseteq> word_of_nat ` {1..<sy_accepted y}"
      using assms(1) by (simp_all add: registry_ok_def ids_ok_def)
    have fresh: "?i \<notin> word_of_nat ` {1..<sy_accepted y}"
      using word_of_nat_fresh [of "sy_accepted y"] accept le i(1) by simp
    have ids: "(word_of_nat ` {1..<sy_accepted y + 1} :: u64 set) = insert ?i (word_of_nat ` {1..<sy_accepted y})"
      using i(1,2) by (simp add: atLeastLessThanSuc)
    have "phases y ?i = Unused"
      using fresh i(3) by (auto simp: phases_def ids_used_def split: option.split)
    moreover have "phases y' = (phases y)(?i := Pending)"
      using accept by (simp add: phases_def fun_eq_iff ids [simplified] fetch_next_id_def)
    ultimately show ?thesis using life_accept by metis
  next
    case (establish sid handshake aid key c')
    have "phases y sid = Pending" using establish(2) by (simp add: phases_def)
    moreover have "phases y' = (phases y)(sid := Open aid key)"
      unfolding establish(1) by (auto simp: phases_def fun_eq_iff)
    ultimately show ?thesis using life_open by metis
  next
    case (refuse sid handshake e c')
    have p: "phases y sid = Pending" using refuse(2) by (simp add: phases_def)
    have "sy_live y sid = None" "sid \<in> word_of_nat ` {1..<sy_accepted y}"
      using assms(1) refuse(2) by (auto simp: registry_ok_def ids_ok_def ids_used_def conns_ok_def domIff)
    then have "phases y' = (phases y)(sid := Closed)"
      unfolding refuse(1) by (auto simp: phases_def fun_eq_iff)
    then show ?thesis using life_refuse [of "phases y", OF p] by simp
  next
    case (tcp_expire sid aid key nonce fl c' st' r c'' st'' s'')
    then show ?thesis by (intro disjI2 close_phase [OF assms(1) tcp_expire(2)]) simp_all
  next
    case (tcp_end sid aid key nonce fl c' s' r c'' st'' s'')
    then show ?thesis by (intro disjI2 close_phase [OF assms(1) tcp_end(3)]) simp_all
  next
    case (quic_close sid ak)
    then show ?thesis by (intro disjI2 close_phase [OF assms(1) quic_close(2)]) simp_all
  qed (auto intro: phases_eq)
qed

interpretation life: simulation "bounded_step en" life_step phases registry_ok for en
  by unfold_locales (rule registry_ok_step, assumption+, rule phases_step)

lemma bounded_steps:
  assumes "(system_step en)\<^sup>*\<^sup>* y y'" and "sy_accepted y' \<le> 2 ^ 64"
  shows "(bounded_step en)\<^sup>*\<^sup>* y y'"
  using assms
proof (induction rule: rtranclp_induct)
  case (step y1 z)
  then have "sy_accepted y1 \<le> 2 ^ 64" using accepted_mono [OF step(2)] by simp
  then show ?case using step by (auto simp: bounded_step_def intro: rtranclp.rtrancl_into_rtrancl)
qed simp

lemma reachable_registry_ok: "reachable en cfg y \<Longrightarrow> sy_accepted y \<le> 2 ^ 64 \<Longrightarrow> registry_ok y"
  using reachable_invs by (auto simp: registry_ok_def)

text \<open>
  C7. The server refines the life cycle of identifiers. Up to \<open>2^64\<close> accepted connections, however
  connections, requests, panics, collections and time interleave, each identifier goes through
  unused, pending, open and closed (or from pending straight to closed), one identifier at a step and only forward.
  So a closed identifier never comes back, and an open one keeps its key id and its session key
  until it is closed.
\<close>

theorem sessions_refine_lifecycle:
  assumes "reachable en cfg y" and "(system_step en)\<^sup>*\<^sup>* y y'" and "sy_accepted y' \<le> 2 ^ 64"
  shows "life_step\<^sup>*\<^sup>* (phases y) (phases y') \<and> phases y \<le> phases y' \<and>
    (\<forall>i. phases y i = Closed \<longrightarrow> phases y' i = Closed) \<and>
    (\<forall>i aid key. phases y i = Open aid key \<longrightarrow> phases y' i = Open aid key \<or> phases y' i = Closed) \<and>
    (\<forall>i. phases y i \<noteq> Unused \<longrightarrow> phases y' i \<noteq> Unused)"
proof -
  have steps: "(bounded_step en)\<^sup>*\<^sup>* y y'" by (rule bounded_steps [OF assms(2,3)])
  have "sy_accepted y \<le> sy_accepted y'"
    using assms(2) by (induction rule: rtranclp_induct) (auto dest: accepted_mono)
  then have ok: "registry_ok y" using reachable_registry_ok [OF assms(1)] assms(3) by simp
  have le: "phases y \<le> phases y'"
    using life.carries [where P = "\<lambda>r. phases y \<le> r", OF _ steps ok] life_step_mono by (blast intro: order_trans)
  then have "phases y i \<le> phases y' i" for i by (rule le_funD)
  then have "phases y i = Closed \<Longrightarrow> phases y' i = Closed"
    "phases y i = Open aid key \<Longrightarrow> phases y' i = Open aid key \<or> phases y' i = Closed"
    "phases y i \<noteq> Unused \<Longrightarrow> phases y' i \<noteq> Unused" for i aid key
    by (metis phase_le_simps(2-4))+
  then show ?thesis using life.simulates [OF steps ok] le by blast
qed

theorem sessions_refine_lifecycle_witness:
  "\<exists>y y' key. reachable toy_env default_config y \<and> (system_step toy_env)\<^sup>*\<^sup>* y y' \<and>
     phases y 1 = Open ''alice'' key \<and> phases y' 1 = Closed \<and> life_step\<^sup>*\<^sup>* (phases y) (phases y')"
proof -
  obtain key where r: "reachable toy_env default_config (toy_state 0 {} key [])" (is "reachable _ _ ?y")
    using toy_run by blast
  have live: "sy_live ?y 1 = Some (''alice'', key)" "sy_pending ?y = {}" "sy_accepted ?y = 2" by (simp_all add: toy_state_def)
  let ?y' = "?y\<lparr>sy_store := quic_finish 1 (sy_store ?y), sy_live := (sy_live ?y)(1 := None),
      sy_waiting := sy_waiting ?y - {1}\<rparr>"
  have "system_step toy_env ?y ?y'" by (rule quic_close [OF live(1)])
  then have steps: "(system_step toy_env)\<^sup>*\<^sup>* ?y ?y'" by (rule r_into_rtranclp)
  have "(1 :: u64) \<in> word_of_nat ` {1..<2}" by (rule image_eqI [of _ _ 1]) simp_all
  then have "phases ?y 1 = Open ''alice'' key" "phases ?y' 1 = Closed" using live by (auto simp: phases_def)
  moreover have "life_step\<^sup>*\<^sup>* (phases ?y) (phases ?y')"
    using sessions_refine_lifecycle [OF r steps] live(3) by simp
  ultimately show ?thesis using r steps by blast
qed

end
