(* ===== verification/Hush_Authority.thy ===== *)
theory Hush_Authority
  imports Hush_System
begin

text \<open>
  Who may change what the server holds for its application: every change, traced back through the
  transition system of \<open>Hush_System\<close> to a request sealed under a key that a handshake derived.
\<close>

section \<open>Where a session key comes from\<close>

text \<open>
  The handshake's key for the key id \<open>aid\<close>: derived from the secret registered for it, or, for the
  empty one of an anonymous client, from a constant that is in the source.
\<close>

definition derived :: "'s server_env \<Rightarrow> string \<Rightarrow> bytes \<Rightarrow> bool" where
  "derived en aid key \<longleftrightarrow> (\<exists>secret peer.
     (if aid = [] then secret = as_bytes ''hush-anonymous'' else en_keys en aid = Some secret) \<and>
     derive_session_key (en_crypto en) (shared_secret_static (en_crypto en) (en_priv en) peer) secret = Ok key)"

lemma answer_handshake_derives:
  "answer_handshake we cr priv pub sid peer secret aid c = (Ok (aid', key), c') \<Longrightarrow>
     aid' = aid \<and> derive_session_key cr (shared_secret_static cr priv peer) secret = Ok key"
  by (auto simp: answer_handshake_def Let_def and_then_eq_Inr split: prod.splits sum.splits)

lemma server_handshake_derives:
  assumes "server_handshake re we (en_crypto en) (en_priv en) (en_pub en) (en_keys en) sid c = (Ok (aid, key), c')"
  shows "derived en aid key"
proof -
  have "take n b \<noteq> []" if "read_exact (n + 32) c1 = (Ok b, c2)" "n \<noteq> 0" for n b c1 c2
    using that by (auto simp: read_exact_def split: if_splits)
  then show ?thesis
    using assms unfolding derived_def
    by (force simp: server_handshake_def Let_def from_utf8_lossy_eq_Nil split: prod.splits sum.splits if_splits option.splits
        dest!: answer_handshake_derives)
qed

lemma handshake_derives:
  assumes "handshake \<in> {quic_handshake, tcp_handshake}"
    and "handshake (en_crypto en) (en_priv en) (en_pub en) (en_keys en) sid c = (Ok (aid, key), c')"
  shows "derived en aid key"
  using either_handshake [OF assms(1)] server_handshake_derives assms(2) by metis

text \<open>The connection \<open>i\<close> was established under that key id and key, now or earlier.\<close>

definition opened :: "'s server_env \<Rightarrow> session_config \<Rightarrow> 's system \<Rightarrow> u64 \<Rightarrow> string \<Rightarrow> bytes \<Rightarrow> bool" where
  "opened en cfg y i aid key \<longleftrightarrow>
     (\<exists>y0. reachable en cfg y0 \<and> (system_step en)\<^sup>*\<^sup>* y0 y \<and> sy_live y0 i = Some (aid, key))"

lemma opened_live: "reachable en cfg y \<Longrightarrow> sy_live y i = Some (aid, key) \<Longrightarrow> opened en cfg y i aid key"
  unfolding opened_def by blast

lemma opened_step: "system_step en y y' \<Longrightarrow> opened en cfg y i aid key \<Longrightarrow> opened en cfg y' i aid key"
  unfolding opened_def by (meson rtranclp.rtrancl_into_rtrancl)

lemma live_derived: "reachable en cfg y \<Longrightarrow> sy_live y i = Some (aid, key) \<Longrightarrow> derived en aid key"
proof (induction arbitrary: i aid key rule: reachable.induct)
  case (reach_step y y')
  from reach_step(2) show ?case
  proof cases
    case (establish sid handshake aid' key' c')
    then show ?thesis
      using reach_step(3) [of i aid key] reach_step(4) handshake_derives [OF establish(3,4)] by (auto split: if_splits)
  qed (use reach_step(3,4) in \<open>auto split: if_splits\<close>)
qed (simp add: system_init_def)

lemma opened_derived: "opened en cfg y i aid key \<Longrightarrow> derived en aid key"
  unfolding opened_def by (blast intro: live_derived)

section \<open>What the store and the tasks hold was opened\<close>

definition origin_ok :: "'s server_env \<Rightarrow> session_config \<Rightarrow> 's system \<Rightarrow> bool" where
  "origin_ok en cfg y \<longleftrightarrow>
     (\<forall>i s. store_get (sy_store y) i = Some s \<longrightarrow> opened en cfg y i (api_key_id s) (sess_key s)) \<and>
     (\<forall>t key. (t, Keyed key) \<in># sy_streams y \<longrightarrow> key = [] \<or> opened en cfg y (st_session_id t) (st_api_key_id t) key)"

lemma origin_ok_step:
  assumes "system_step en y y'" and "reachable en cfg y" and "conns_ok y" and "origin_ok en cfg y"
  shows "origin_ok en cfg y'"
proof -
  have carry: ?thesis
    if "\<And>i s. store_get (sy_store y') i = Some s \<Longrightarrow>
        store_get (sy_store y) i = Some s \<or> opened en cfg y' i (api_key_id s) (sess_key s)"
      and "\<And>t key. (t, Keyed key) \<in># sy_streams y' \<Longrightarrow>
        (t, Keyed key) \<in># sy_streams y \<or> key = [] \<or> opened en cfg y' (st_session_id t) (st_api_key_id t) key"
    using that assms(4) opened_step [OF assms(1)] unfolding origin_ok_def by blast
  show ?thesis
    using assms(1)
  proof cases
    case (establish sid handshake aid key c')
    have "opened en cfg y' sid aid key"
      by (rule opened_live [OF reachable.reach_step [OF assms(2,1)]]) (simp add: establish(1))
    then show ?thesis using establish(1) by (intro carry) (auto simp: system_ops store_get_simps split: if_splits)
  next
    case (quic_take_key t key)
    have "key = [] \<or> opened en cfg y (st_session_id t) (st_api_key_id t) key"
    proof (cases "store_get (sy_store y) (st_session_id t)")
      case (Some s)
      then have "api_key_id s = st_api_key_id t" using assms(3) quic_take_key(2) unfolding conns_ok_def by blast
      moreover have "opened en cfg y (st_session_id t) (api_key_id s) (sess_key s)"
        using assms(4) Some unfolding origin_ok_def by blast
      ultimately show ?thesis using quic_take_key(3) Some by (simp add: stream_key_eq)
    qed (use quic_take_key(3) in \<open>simp add: stream_key_eq\<close>)
    then have "key = [] \<or> opened en cfg y' (st_session_id t) (st_api_key_id t) key"
      using opened_step [OF assms(1)] by blast
    then show ?thesis using quic_take_key(1) by (intro carry) (auto dest: in_diffD)
  next
    case gc
    then show ?thesis by (intro carry) (auto simp: gc_tick_def dest: gc_subset)
  qed (intro carry; auto simp: system_ops store_get_simps dest: in_diffD split: if_splits option.splits)+
qed

lemma reachable_origin_ok: "reachable en cfg y \<Longrightarrow> sy_accepted y \<le> 2 ^ 64 \<Longrightarrow> origin_ok en cfg y"
proof (induction rule: reachable.induct)
  case (reach_step y y')
  have "sy_accepted y \<le> 2 ^ 64" using accepted_mono [OF reach_step(2)] reach_step(4) by simp
  then show ?case using origin_ok_step [OF reach_step(2,1)] reachable_invs [OF reach_step(1)] reach_step(3) by blast
qed (simp add: origin_ok_def system_init_def store_get_simps)

section \<open>What a request changes\<close>

text \<open>
  The step from \<open>y\<close> to \<open>y'\<close> takes the bytes \<open>b\<close> off the connection of session \<open>sid\<close> (TCP) or off a
  stream of it (QUIC), with \<open>key\<close> as the session key there; \<open>c\<close> is what is left.
\<close>

definition request_read :: "'s system \<Rightarrow> 's system \<Rightarrow> u64 \<Rightarrow> string \<Rightarrow> bytes \<Rightarrow> bytes \<Rightarrow> conn \<Rightarrow> bool" where
  "request_read y y' sid aid key b c \<longleftrightarrow>
     (sid \<in> sy_waiting y \<and> sid \<notin> sy_waiting y' \<and> sy_live y sid = Some (aid, key) \<and>
       sy_conns y sid = c\<lparr>c_in := b @ c_in c\<rparr> \<and> c_in (sy_conns y' sid) = c_in c) \<or>
     (\<exists>t. (t, Keyed key) \<in># sy_streams y \<and> sy_streams y' = sy_streams y - {#(t, Keyed key)#} \<and>
       st_session_id t = sid \<and> st_api_key_id t = aid \<and> st_conn t = c\<lparr>c_in := b @ c_in c\<rparr>)"

text \<open>\<open>b\<close> is one frame, of the request sealed under the key; what does not decode as a map counts as no payload.\<close>

definition sealed_frame :: "crypto \<Rightarrow> bytes \<Rightarrow> request \<Rightarrow> bytes \<Rightarrow> bool" where
  "sealed_frame cr key req b \<longleftrightarrow> (\<exists>nonce p body seq. length nonce = NONCE_SIZE \<and>
     encrypt cr nonce key (u16_to_be (req_opcode req) @ p) = Ok body \<and> req_payload req = decode_map_opt p \<and>
     b = frame_bytes seq body)"

text \<open>
  The handler of the request's opcode turns \<open>s\<close> into \<open>s'\<close>, told the session and its key id; a
  streaming handler runs on what is left of the stream.
\<close>

definition handler_did :: "(u16 \<rightharpoonup> 's handler_type) \<Rightarrow> u64 \<Rightarrow> string \<Rightarrow> bytes \<Rightarrow> conn \<Rightarrow> request \<Rightarrow> 's \<Rightarrow> 's \<Rightarrow> bool" where
  "handler_did handlers sid aid key c req s s' \<longleftrightarrow>
     (case handlers (req_opcode req) of
        None \<Rightarrow> False
      | Some (SyncH h) \<Rightarrow> s' = snd (h (request_of req sid aid) s)
      | Some (StreamH h) \<Rightarrow> s' = snd (h (request_of req sid aid) c key s))"

lemma read_frame_conn: "read_frame_async c = (r, c1) \<Longrightarrow> c1 = c\<lparr>c_in := c_in c1\<rparr>"
  by (auto simp: read_frame_async_def read_exact_def Let_def split: if_splits)

lemma read_request_good:
  assumes "aead_ok cr" and "read_request_async cr c (Some key) = (Ok (req, seq), c1)"
  obtains b where "good_key key" "sealed_frame cr key req b" "c = c1\<lparr>c_in := b @ c_in c1\<rparr>"
proof -
  have good: "good_key key" using read_request_bad_key [OF assms(1), of key c] assms(2) by auto
  obtain f where "read_frame_async c = (f, c1)"
    using assms(2) by (auto simp: read_request_async_def Let_def split: prod.splits sum.splits)
  then have c1: "c1 = c\<lparr>c_in := c_in c1\<rparr>" by (rule read_frame_conn)
  obtain b where b: "sealed_frame cr key req b" "c_in c = b @ c_in c1"
    using read_request_sealed [OF assms(1) good assms(2)] unfolding sealed_frame_def by blast
  have "c1\<lparr>c_in := b @ c_in c1\<rparr> = c" by (subst c1) (simp add: b(2) [symmetric])
  then show thesis using that [of b] good b(1) by simp
qed

lemma served_change:
  assumes "aead_ok cr" and "s' \<noteq> s"
    and "tcp_serve cr handlers sid aid key nonce c s = (fl, c', s') \<or>
      serve_request_stream cr handlers sid aid nonce key c s = (c', s')"
  obtains req b c1 where "good_key key" "sealed_frame cr key req b" "c = c1\<lparr>c_in := b @ c_in c1\<rparr>"
    "handler_did handlers sid aid key c1 req s s'"
    "tcp_serve cr handlers sid aid key nonce c s = (fl, c', s') \<Longrightarrow> c_in c' = c_in c1"
proof -
  obtain r c1 where r: "read_request_async cr c (Some key) = (r, c1)" by fastforce
  show thesis
  proof (cases r)
    case (Inl e)
    then show ?thesis using assms(2,3) r by (auto simp: tcp_serve_def serve_request_stream_def)
  next
    case (Inr x)
    obtain req seq where x: "x = (req, seq)" by fastforce
    have "handler_did handlers sid aid key c1 req s s'"
      using assms(2,3)
      by (auto simp: tcp_serve_def serve_request_stream_def handler_did_def r Inr x
          split: option.splits handler_type.splits prod.splits outcome.splits)
    moreover have "c_in c' = c_in c1" if "tcp_serve cr handlers sid aid key nonce c s = (fl, c', s')"
      using that by (auto simp: tcp_serve_def r Inr x split: option.splits handler_type.splits prod.splits outcome.splits)
    moreover obtain b where "good_key key" "sealed_frame cr key req b" "c = c1\<lparr>c_in := b @ c_in c1\<rparr>"
      using read_request_good [OF assms(1)] r Inr x by metis
    ultimately show ?thesis using that by blast
  qed
qed

section \<open>The property\<close>

text \<open>
  C2. Every change is authorised. Whatever connections, requests, expiry and collection do in between,
  when a step of the running server changes the application's state, then that step takes one frame
  off the connection, or off a stream, of a session \<open>sid\<close>; the frame is a request sealed under the key with
  which \<open>sid\<close> was established at some time before, for the key id \<open>aid\<close>; the change is the one made
  by the handler registered for the opcode in that frame; and the handler was told \<open>sid\<close> and \<open>aid\<close>. When
  \<open>aid\<close> is not empty, the session key was derived from the secret registered for it; when it is empty,
  the client is anonymous, and its key was derived from a constant anybody can read in the source.
\<close>

theorem changes_are_authorised:
  assumes "aead_ok (en_crypto en)" and "reachable en cfg y" and "sy_accepted y \<le> 2 ^ 64"
    and "system_step en y y'" and "sy_app y' \<noteq> sy_app y"
  shows "\<exists>sid aid key req b c. request_read y y' sid aid key b c \<and> sealed_frame (en_crypto en) key req b \<and>
    handler_did (en_handlers en) sid aid key c req (sy_app y) (sy_app y') \<and>
    opened en cfg y sid aid key \<and> derived en aid key \<and> good_key key"
proof -
  have origin: "origin_ok en cfg y" by (rule reachable_origin_ok [OF assms(2,3)])
  have tcp: ?thesis if live: "sid \<in> sy_waiting y" "sid \<notin> sy_waiting y'" "sy_live y sid = Some (aid, key)"
      "sy_conns y' sid = c'" and serve: "tcp_serve (en_crypto en) (en_handlers en) sid aid key nonce (sy_conns y sid) (sy_app y) = (fl, c', sy_app y')"
    for sid aid key nonce fl c'
  proof -
    obtain req b c1 where "good_key key" "sealed_frame (en_crypto en) key req b" "sy_conns y sid = c1\<lparr>c_in := b @ c_in c1\<rparr>"
      "handler_did (en_handlers en) sid aid key c1 req (sy_app y) (sy_app y')" "c_in c' = c_in c1"
      using served_change [OF assms(1,5), of "en_handlers en" sid aid key nonce "sy_conns y sid" fl c'] serve by metis
    moreover have "opened en cfg y sid aid key" by (rule opened_live [OF assms(2) live(3)])
    ultimately show ?thesis using live opened_derived [of en cfg y sid aid key] unfolding request_read_def by blast
  qed
  show ?thesis
    using assms(4)
  proof cases
    case (tcp_continue sid aid key nonce c' s')
    then show ?thesis by (intro tcp [of sid aid key c' nonce Continue]) auto
  next
    case (tcp_end sid aid key nonce fl c' s' r c'' st'' s'')
    then show ?thesis by (intro tcp [of sid aid key c' nonce fl]) (auto simp: tcp_finish_spec)
  next
    case (tcp_expire sid aid key nonce fl c' st' r c'' st'' s'')
    then show ?thesis using assms(5) by (simp add: tcp_finish_spec)
  next
    case (quic_serve t key nonce c' s')
    obtain req b c1 where req: "good_key key" "sealed_frame (en_crypto en) key req b" "st_conn t = c1\<lparr>c_in := b @ c_in c1\<rparr>"
      "handler_did (en_handlers en) (st_session_id t) (st_api_key_id t) key c1 req (sy_app y) (sy_app y')"
    proof (rule served_change [OF assms(1,5), of "en_handlers en" "st_session_id t" "st_api_key_id t" key nonce "st_conn t" Continue c'])
    qed (use quic_serve(1,3) in auto)
    have "opened en cfg y (st_session_id t) (st_api_key_id t) key"
      using origin quic_serve(2) req(1) unfolding origin_ok_def good_key_def by fastforce
    then show ?thesis
      using req quic_serve(1,2) opened_derived [of en cfg y "st_session_id t" "st_api_key_id t" key]
      unfolding request_read_def by (intro exI conjI) auto
  qed (use assms(5) in auto)
qed

text \<open>In the witness it is a registered client's request.\<close>

theorem changes_are_authorised_witness:
  "\<exists>y y' sid aid key req b c. reachable toy_env default_config y \<and> system_step toy_env y y' \<and> sy_app y = 0 \<and> sy_app y' = 1 \<and>
     request_read y y' sid aid key b c \<and> sealed_frame toy_crypto key req b \<and> handler_did toy_handlers sid aid key c req 0 1 \<and>
     opened toy_env default_config y sid aid key \<and> aid = ''alice'' \<and>
     (\<exists>peer. derive_session_key toy_crypto (shared_secret_static toy_crypto [2] peer) [9] = Ok key)"
proof -
  obtain key where key: "good_key key" "\<And>d b. reachable toy_env default_config (toy_state d {} key b)" by (rule toy_run) blast
  obtain b c' where serve: "tcp_serve toy_crypto toy_handlers 1 ''alice'' key toy_nonce (sy_conns (toy_state 0 {1} key b) 1) 0 = (Continue, c', 1)"
    using toy_call [OF key(1)] by metis
  have r: "reachable toy_env default_config (toy_state 0 {1} key b)" (is "reachable _ _ ?y") by (rule toy_waits [OF key(2)])
  have y: "1 \<in> sy_waiting ?y" "sy_live ?y = [1 \<mapsto> (''alice'', key)]" "sy_app ?y = 0" "sy_accepted ?y \<le> 2 ^ 64" "sy_streams ?y = {#}"
    by (simp_all add: toy_state_def)
  let ?y' = "?y\<lparr>sy_waiting := sy_waiting ?y - {1}, sy_conns := (sy_conns ?y)(1 := c'), sy_app := 1\<rparr>"
  have step: "system_step toy_env ?y ?y'"
    by (rule tcp_continue [where aid = "''alice''" and key = key and nonce = toy_nonce]) (simp_all add: y serve)
  obtain sid aid k req b' c where auth: "request_read ?y ?y' sid aid k b' c" "sealed_frame toy_crypto k req b'"
    "handler_did toy_handlers sid aid k c req (sy_app ?y) (sy_app ?y')" "opened toy_env default_config ?y sid aid k" "derived toy_env aid k"
    using changes_are_authorised [OF _ r y(4) step] toy_aead_ok y(3) by auto
  have aid: "aid = ''alice''" using auth(1) y by (auto simp: request_read_def split: if_splits)
  have "\<exists>peer. derive_session_key toy_crypto (shared_secret_static toy_crypto [2] peer) [9] = Ok k"
    using auth(5) by (simp add: derived_def aid)
  then have "reachable toy_env default_config ?y \<and> system_step toy_env ?y ?y' \<and> sy_app ?y = 0 \<and> sy_app ?y' = 1 \<and>
     request_read ?y ?y' sid aid k b' c \<and> sealed_frame toy_crypto k req b' \<and> handler_did toy_handlers sid aid k c req 0 1 \<and>
     opened toy_env default_config ?y sid aid k \<and> aid = ''alice'' \<and>
     (\<exists>peer. derive_session_key toy_crypto (shared_secret_static toy_crypto [2] peer) [9] = Ok k)"
    using r step auth(1-4) aid y(3) by simp
  then show ?thesis by (intro exI)
qed

end
