(* ===== verification/Hush_Connection_Props.thy ===== *)
theory Hush_Connection_Props
  imports Hush_Server_Props
begin

text \<open>
  Two facts about the whole of a TCP connection's loop, for any input and any handlers: how many
  rounds it takes, and what the bytes it writes look like.
\<close>

section \<open>Rounds\<close>

lemma read_request_size:
  assumes "aead_ok cr" "good_key key" "read_request_async cr c (Some key) = (Ok r, c1)"
  shows "length (c_in c1) + 38 \<le> length (c_in c)"
proof -
  obtain req seq where r: "r = (req, seq)" by fastforce
  obtain nonce p body where n: "length nonce = NONCE_SIZE"
    and e: "encrypt cr nonce key (u16_to_be (req_opcode req) @ p) = Ok body"
    and c: "c_in c = frame_bytes seq body @ c_in c1"
    using read_request_sealed [OF assms(1,2)] assms(3) r by blast
  have "length body = length (u16_to_be (req_opcode req) @ p) + 28"
    using encrypt_Ok(1) [OF assms(1) _ _ e] assms(2) n by (simp add: good_nonce_def)
  then show ?thesis using c by (simp add: hush_len)
qed

lemma tcp_round_size:
  assumes "aead_ok cr" "good_key key"
    and "tcp_round cr handlers sid aid key ob st c s = (Continue, c', st', s')"
  shows "length (c_in c') + 38 \<le> length (c_in c)"
proof -
  obtain r c1 where "read_request_async cr c (Some key) = (Ok r, c1)" "c_in c' = c_in c1"
    using assms(3)
    by (auto simp: tcp_round_eq tcp_serve_def Let_def split: prod.splits bool.splits sum.splits
        option.splits handler_type.splits outcome.splits if_splits)
  then show ?thesis using read_request_size [OF assms(1,2)] by metis
qed

text \<open>\<open>k\<close> rounds, all of which continue.\<close>

fun tcp_rounds ::
    "crypto \<Rightarrow> (u16 \<rightharpoonup> 's handler_type) \<Rightarrow> u64 \<Rightarrow> string \<Rightarrow> bytes \<Rightarrow> (nat \<Rightarrow> 's observation) \<Rightarrow> nat \<Rightarrow> nat \<Rightarrow>
       conn \<Rightarrow> session_store \<Rightarrow> 's \<Rightarrow> (conn \<times> session_store \<times> 's) option" where
  "tcp_rounds cr handlers sid aid key obs n 0 c st s = Some (c, st, s)"
| "tcp_rounds cr handlers sid aid key obs n (Suc k) c st s =
     (case tcp_round cr handlers sid aid key (obs n) st c s of
        (Continue, c', st', s') \<Rightarrow> tcp_rounds cr handlers sid aid key obs (n + 1) k c' st' s'
      | _ \<Rightarrow> None)"

text \<open>
  C16. The loop of a TCP connection ends. Each round that continues takes at least 38 bytes off the
  input (a length, a sequence number, a nonce, a tag and an opcode), so on an input of \<open>n\<close> bytes
  there are at most \<open>n div 38\<close> such rounds, and the next one is the last: the loop's result is
  that round's.
\<close>

theorem tcp_loop_rounds_bounded:
  assumes "aead_ok cr" and "length key = KEY_SIZE"
  shows "\<exists>k c1 st1 s1. k \<le> length (c_in c) div 38 \<and>
    tcp_rounds cr handlers sid aid key obs n k c st s = Some (c1, st1, s1) \<and>
    tcp_loop cr handlers sid aid key obs n c st s = tcp_round cr handlers sid aid key (obs (n + k)) st1 c1 s1 \<and>
    fst (tcp_loop cr handlers sid aid key obs n c st s) \<in> {Break, Unwind}"
  using assms
proof (induction cr handlers sid aid key obs n c st s rule: tcp_loop.induct)
  case (1 cr handlers sid aid key obs n c st s)
  obtain fl c1 st1 s1 where r: "tcp_round cr handlers sid aid key (obs n) st c s = (fl, c1, st1, s1)"
    by (metis prod_cases4)
  show ?case
  proof (cases "fl = Continue")
    case True
    have size: "length (c_in c1) + 38 \<le> length (c_in c)"
      using tcp_round_size [OF 1(2)] 1(3) r True by (simp add: good_key_def)
    obtain k c2 st2 s2 where k: "k \<le> length (c_in c1) div 38"
      "tcp_rounds cr handlers sid aid key obs (n + 1) k c1 st1 s1 = Some (c2, st2, s2)"
      "tcp_loop cr handlers sid aid key obs (n + 1) c1 st1 s1 = tcp_round cr handlers sid aid key (obs (n + 1 + k)) st2 c2 s2"
      "fst (tcp_loop cr handlers sid aid key obs (n + 1) c1 st1 s1) \<in> {Break, Unwind}"
      using 1(1) [OF r [symmetric] True refl refl 1(2,3)] by blast
    have "Suc k \<le> length (c_in c) div 38" using k(1) size by linarith
    moreover have "tcp_loop cr handlers sid aid key obs n c st s = tcp_loop cr handlers sid aid key obs (n + 1) c1 st1 s1"
      using r True by (simp add: tcp_loop.simps [of _ _ _ _ _ _ n])
    ultimately show ?thesis using k r True by (intro exI [of _ "Suc k"]) simp
  next
    case False
    then have "tcp_loop cr handlers sid aid key obs n c st s = tcp_round cr handlers sid aid key (obs n) st c s"
      using r by (cases fl) (simp_all add: tcp_loop.simps [of _ _ _ _ _ _ n])
    then show ?thesis using r False by (intro exI [of _ 0]) (cases fl, simp_all)
  qed
qed

section \<open>What a connection writes\<close>

text \<open>A response whose encoding is below 2 GiB (of the two, \<open>u32\<close> sums do not wrap around).\<close>

definition response_sized :: "response \<Rightarrow> bool" where
  "response_sized resp \<longleftrightarrow> (\<forall>m. resp_payload resp = Some m \<longrightarrow> length (encode_map m) < 2 ^ 31)"

definition a_reply :: "crypto \<Rightarrow> bytes \<Rightarrow> bytes \<Rightarrow> bool" where
  "a_reply cr key b \<longleftrightarrow> (\<exists>seq resp. reply_bytes cr key seq resp b)"

lemma sealed_response_decodes:
  assumes "aead_ok cr" "good_key key" "good_nonce nonce" "encode_response_body cr nonce (Some key) resp = Ok body"
  shows "\<exists>m. decode_response cr (Some key) (u32_to_be seq @ body) =
    Ok \<lparr>resp_status = resp_status resp, resp_payload = m, resp_seq = seq\<rparr>"
proof -
  let ?p = "status_to_u8 (resp_status resp) # (case resp_payload resp of None \<Rightarrow> [] | Some m \<Rightarrow> encode_map m)"
  have "encrypt cr nonce key ?p = Ok body"
    using assms(4) by (simp add: encode_response_body_def seal_body_def Let_def)
  then have "decrypt cr key body = Ok ?p" by (rule encrypt_Ok(3) [OF assms(1-3)])
  then show ?thesis by (simp add: decode_response_def open_body_def)
qed

lemma send_response_frames:
  assumes "aead_ok cr" "good_key key" "good_nonce nonce" "c_cap c = None" "response_sized resp"
  obtains bs where "c_out (send_response cr nonce key seq resp c) = c_out c @ concat bs"
    "length bs \<le> 1" "\<forall>b \<in> set bs. a_reply cr key b" "c_cap (send_response cr nonce key seq resp c) = None"
proof (cases "encode_response_body cr nonce (Some key) resp")
  case (Inl e)
  then show thesis using assms(4) by (intro that [of "[]"]) (simp_all add: send_response_def)
next
  case (Inr body)
  let ?p = "case resp_payload resp of None \<Rightarrow> [] | Some m \<Rightarrow> encode_map m"
  have "encrypt cr nonce key (status_to_u8 (resp_status resp) # ?p) = Ok body"
    using Inr by (simp add: encode_response_body_def seal_body_def Let_def)
  then have "length body = length ?p + 29" using encrypt_Ok(1) [OF assms(1-3)] by fastforce
  then have len: "length body + 4 < 2 ^ 32" using assms(5) by (auto simp: response_sized_def split: option.split)
  have send: "send_response cr nonce key seq resp c = snd (write_frame_async c seq body)"
    using Inr by (simp add: send_response_def)
  show thesis
  proof (cases "length body + 4 \<le> 1048576")
    case True
    obtain m where d: "decode_response cr (Some key) (u32_to_be seq @ body) =
        Ok \<lparr>resp_status = resp_status resp, resp_payload = m, resp_seq = seq\<rparr>"
      using sealed_response_decodes [OF assms(1-3) Inr] by blast
    have "encode_frame seq body = Ok (frame_bytes seq body)" using True by (simp add: encode_frame_Ok_iff [OF len])
    moreover have "reply_bytes cr key seq \<lparr>resp_status = resp_status resp, resp_payload = m, resp_seq = seq\<rparr>
        (frame_bytes seq body)"
      using True d by (auto simp: reply_bytes_def)
    ultimately show thesis
      using assms(4) send
      by (intro that [of "[frame_bytes seq body]"]) (auto simp: write_frame_eq write_all_def a_reply_def)
  next
    case False
    then have "\<nexists>b. encode_frame seq body = Ok b" by (simp add: encode_frame_Ok_iff [OF len])
    then obtain e where "encode_frame seq body = Err e" by (cases "encode_frame seq body") auto
    then show thesis using assms(4) send by (intro that [of "[]"]) (simp_all add: write_frame_eq)
  qed
qed

definition handlers_sized :: "(u16 \<rightharpoonup> 's handler_type) \<Rightarrow> bool" where
  "handlers_sized handlers \<longleftrightarrow> (\<forall>op h. handlers op = Some (SyncH h) \<longrightarrow>
     (\<forall>req s resp s'. h req s = (Returns (Ok resp), s') \<longrightarrow> response_sized resp))"

lemma length_singleton_map: "length (encode_map [(k, v)]) \<le> length k + length (tlv_body v) + 33"
  using length_tlv_le [of "Map [(k, v)]"] length_tlv_le [of "String k"] length_tlv_le [of v]
  by (simp add: encode_map_eq)

lemma own_responses_sized:
  "response_sized expired_response" "response_sized (not_found_response op seq)"
  "response_sized (no_streaming_response seq)" "response_sized (server_error_response InternalError ''internal error'')"
  using length_singleton_map [of "''opcode''" "Uint16 op"]
    length_singleton_map [of "''error''" "String ''streaming not supported over TCP''"]
    length_singleton_map [of "''error''" "String ''internal error''"]
  by (simp_all add: response_sized_def expired_response_def not_found_response_def no_streaming_response_def
      server_error_response_def map_new_def)

lemma reply_sized:
  "handlers_sized handlers \<Longrightarrow> handlers op = Some (SyncH h) \<Longrightarrow> h req s = (Returns result, s') \<Longrightarrow>
     response_sized (reply_of result)"
  by (cases result) (simp add: reply_of_def own_responses_sized, simp add: reply_of_def, unfold handlers_sized_def, blast)

lemma serve_frames:
  assumes "aead_ok cr" "good_key key" "good_nonce nonce" "c_cap c = None" "handlers_sized handlers"
    and "tcp_serve cr handlers sid aid key nonce c s = (fl, c', s')"
  obtains bs where "c_out c' = c_out c @ concat bs" "length bs \<le> 1" "\<forall>b \<in> set bs. a_reply cr key b" "c_cap c' = None"
proof -
  obtain r c1 where r: "read_request_async cr c (Some key) = (r, c1)" by fastforce
  have c1: "c_out c1 = c_out c" "c_cap c1 = None"
    using read_request_out [of cr c "Some key"] read_request_cap [of cr c "Some key"] assms(4) r by simp_all
  note send = send_response_frames [OF assms(1-3) c1(2)]
  have "(\<exists>seq resp. c' = send_response cr nonce key seq resp c1 \<and> response_sized resp) \<or> c' = c1"
    using assms(6) r
    by (auto simp: tcp_serve_def split: sum.splits prod.splits option.splits handler_type.splits outcome.splits)
      (blast intro: own_responses_sized reply_sized [OF assms(5)])+
  then show thesis
  proof (elim disjE exE conjE)
    fix seq resp
    assume "c' = send_response cr nonce key seq resp c1" "response_sized resp"
    then show thesis using send [of resp seq] c1(1) that by metis
  qed (use c1 in \<open>intro that [of "[]"], simp_all\<close>)
qed

lemma round_frames:
  assumes "aead_ok cr" "good_key key" "good_nonce (ob_nonce ob)" "c_cap c = None" "handlers_sized handlers"
    and "tcp_round cr handlers sid aid key ob st c s = (fl, c', st', s')"
  obtains bs where "c_out c' = c_out c @ concat bs" "length bs \<le> 1" "\<forall>b \<in> set bs. a_reply cr key b" "c_cap c' = None"
proof -
  obtain st1 s1 where e: "ob_env ob (st, s) = (st1, s1)" by fastforce
  show thesis
  proof (cases "\<exists>sess. store_get st1 sid = Some sess \<and> session_dead st1 (ob_now ob) (ob_later ob) sess")
    case True
    then have "c' = send_response cr (ob_nonce ob) key 0 expired_response c"
      using assms(6) e by (auto simp: tcp_round_eq)
    then show thesis
      using send_response_frames [OF assms(1-4) own_responses_sized(1), of 0] that by metis
  next
    case False
    then have "tcp_serve cr handlers sid aid key (ob_nonce ob) c s1 = (fl, c', s')"
      using assms(6) e by (auto simp: tcp_round_eq Let_def split: prod.splits option.splits bool.splits)
    then show thesis by (rule serve_frames [OF assms(1-5)]) (rule that)
  qed
qed

text \<open>
  C12. What a connection writes. Whatever arrives, whatever the handlers answer (below 2 GiB) and
  whatever other tasks do, the bytes a TCP connection's loop writes are a sequence of whole
  reply frames: each is within the frame limit and opens under the session key to a response under
  the frame's sequence number. There is at most one for every 38 bytes received and one more.
\<close>

theorem tcp_output_framed:
  assumes "aead_ok cr" and "length key = KEY_SIZE" and "\<forall>i. length (ob_nonce (obs i)) = NONCE_SIZE"
    and "c_cap c = None" and "handlers_sized handlers"
    and "tcp_loop cr handlers sid aid key obs n c st s = (fl, c', st', s')"
  shows "\<exists>bs. c_out c' = c_out c @ concat bs \<and> length bs \<le> length (c_in c) div 38 + 1 \<and>
    (\<forall>b \<in> set bs. \<exists>seq resp. reply_bytes cr key seq resp b)"
  using assms
proof (induction cr handlers sid aid key obs n c st s rule: tcp_loop.induct)
  case (1 cr handlers sid aid key obs n c st s)
  have good: "good_key key" "good_nonce (ob_nonce (obs n))" using 1(3,4) by (simp_all add: good_key_def good_nonce_def)
  obtain fl1 c1 st1 s1 where r: "tcp_round cr handlers sid aid key (obs n) st c s = (fl1, c1, st1, s1)"
    by (metis prod_cases4)
  obtain bs where bs: "c_out c1 = c_out c @ concat bs" "length bs \<le> 1" "\<forall>b \<in> set bs. a_reply cr key b" "c_cap c1 = None"
    by (rule round_frames [OF 1(2) good 1(5,6) r])
  show ?case
  proof (cases "fl1 = Continue")
    case True
    have size: "length (c_in c1) + 38 \<le> length (c_in c)"
      using tcp_round_size [OF 1(2) good(1)] r True by simp
    have "tcp_loop cr handlers sid aid key obs (n + 1) c1 st1 s1 = (fl, c', st', s')"
      using 1(7) r True by (simp add: tcp_loop.simps [of _ _ _ _ _ _ n])
    then obtain cs where cs: "c_out c' = c_out c1 @ concat cs" "length cs \<le> length (c_in c1) div 38 + 1"
      "\<forall>b \<in> set cs. \<exists>seq resp. reply_bytes cr key seq resp b"
      using 1(1) [OF r [symmetric] True refl refl 1(2-4) bs(4) 1(6)] by blast
    have "length (bs @ cs) \<le> length (c_in c) div 38 + 1" using bs(2) cs(2) size unfolding length_append by linarith
    then show ?thesis using bs(1,3) cs(1,3) by (intro exI [of _ "bs @ cs"]) (auto simp: a_reply_def)
  next
    case False
    then have "c' = c1" using 1(7) r by (cases fl1) (simp_all add: tcp_loop.simps [of _ _ _ _ _ _ n])
    then show ?thesis using bs by (intro exI [of _ bs]) (auto simp: a_reply_def)
  qed
qed

theorem tcp_loop_rounds_bounded_witness:
  "fst (tcp_loop toy_crypto toy_handlers 5 ''alice'' toy_key (\<lambda>_. toy_ob) 0 (toy_conn [1, 2, 3]) (store_new default_config) 0)
     \<in> {Break, Unwind}"
  using tcp_loop_rounds_bounded [where key = toy_key and c = "toy_conn [1, 2, 3]" and handlers = toy_handlers
      and sid = 5 and aid = "''alice''" and obs = "\<lambda>_. toy_ob" and n = 0 and st = "store_new default_config" and s = 0,
      OF toy_aead_ok]
  by (auto simp: toy_lengths)

lemma toy_handlers_sized: "handlers_sized [7 \<mapsto> SyncH (\<lambda>req n. (Returns (Ok (new_response [])), n + 1))]"
  using length_tlv_le [of "Map []"]
  by (auto simp: handlers_sized_def response_sized_def new_response_def encode_map_eq split: if_splits)

theorem tcp_output_framed_witness:
  "\<exists>bs. c_out (fst (snd (tcp_loop toy_crypto [7 \<mapsto> SyncH (\<lambda>req n. (Returns (Ok (new_response [])), n + 1))] 5 ''alice''
       toy_key (\<lambda>_. toy_ob) 0 (toy_conn [1, 2, 3]) (store_new default_config) (0 :: nat)))) = concat bs \<and> length bs \<le> 1"
proof -
  let ?h = "[7 \<mapsto> SyncH (\<lambda>req n. (Returns (Ok (new_response [])), n + 1))] :: u16 \<rightharpoonup> nat handler_type"
  obtain fl c' st' s' where l: "tcp_loop toy_crypto ?h 5 ''alice'' toy_key (\<lambda>_. toy_ob) 0 (toy_conn [1, 2, 3])
      (store_new default_config) 0 = (fl, c', st', s')" by (metis prod_cases4)
  show ?thesis
    using tcp_output_framed [OF toy_aead_ok _ _ _ toy_handlers_sized l] l
    by (auto simp: toy_lengths toy_simps)
qed

end
