(* ===== verification/Hush_Conversation.thy ===== *)
theory Hush_Conversation
  imports Hush_Link
begin

text \<open>
  A whole session over TCP, from the dial to the last answer, with the client's code on one side and
  the server's on the other: each side's input is what the other side wrote. The two run in
  turns, as they do when the client waits for each answer.
\<close>

section \<open>Client and server in turns\<close>

text \<open>A stream that delivers \<open>b\<close> and takes everything.\<close>

definition wire :: "bytes \<Rightarrow> conn" where
  "wire b = \<lparr>c_in = b, c_end = UnexpectedEof, c_out = [], c_cap = None\<rparr>"

lemma wire_simps [simp]: "c_in (wire b) = b" "c_out (wire b) = []" "c_cap (wire b) = None"
  by (simp_all add: wire_def)

text \<open>What a dial writes does not depend on the answer, so the run without one gives the hello.\<close>

definition connect ::
    "(crypto \<Rightarrow> bytes \<Rightarrow> instant \<Rightarrow> api_key \<Rightarrow> conn \<Rightarrow> (client_error + client) \<times> conn) \<Rightarrow>
       (crypto \<Rightarrow> bytes \<Rightarrow> bytes \<Rightarrow> (string \<Rightarrow> bytes option) \<Rightarrow> u64 \<Rightarrow> conn \<Rightarrow> (server_error + (string \<times> bytes)) \<times> conn) \<Rightarrow>
       crypto \<Rightarrow> bytes \<Rightarrow> instant \<Rightarrow> api_key \<Rightarrow> bytes \<Rightarrow> bytes \<Rightarrow> (string \<Rightarrow> bytes option) \<Rightarrow> u64 \<Rightarrow>
       (client_error + client) \<times> (server_error + (string \<times> bytes))" where
  "connect dial_with handshake cr random now key server_priv server_pub key_store sid =
     (let hello_bytes = c_out (snd (dial_with cr random now key (wire [])));
          (h, sc) = handshake cr server_priv server_pub key_store sid (wire hello_bytes);
          (r, cc) = dial_with cr random now key (wire (c_out sc))
      in (r, h))"

text \<open>A dial with the handshake that answers it, on QUIC and on TCP.\<close>

abbreviation dial_pairs where
  "dial_pairs \<equiv> {(client_dial, quic_handshake), (client_dial_tcp, tcp_handshake)}"

definition exchange ::
    "crypto \<Rightarrow> (u16 \<rightharpoonup> 's handler_type) \<Rightarrow> u64 \<Rightarrow> string \<Rightarrow> bytes \<Rightarrow> bytes \<Rightarrow> 's observation \<Rightarrow>
       u16 \<times> tlv_map option \<Rightarrow> client \<Rightarrow> session_store \<Rightarrow> 's \<Rightarrow> (client_error + response) \<times> client \<times> session_store \<times> 's" where
  "exchange cr handlers sid aid key nonce ob call cl st s =
     (case call of (opcode, payload) \<Rightarrow>
        let sent = c_out (snd (snd (do_tcp cr nonce opcode payload cl (wire []))));
            (fl, sc, st', s') = tcp_round cr handlers sid aid key ob st (wire sent) s;
            (r, cl', cc) = do_tcp cr nonce opcode payload cl (wire (c_out sc))
        in (r, cl', st', s'))"

fun converse ::
    "crypto \<Rightarrow> (u16 \<rightharpoonup> 's handler_type) \<Rightarrow> u64 \<Rightarrow> string \<Rightarrow> bytes \<Rightarrow> (nat \<Rightarrow> bytes) \<Rightarrow> (nat \<Rightarrow> 's observation) \<Rightarrow> nat \<Rightarrow>
       (u16 \<times> tlv_map option) list \<Rightarrow> client \<Rightarrow> session_store \<Rightarrow> 's \<Rightarrow> (client_error + response) list \<times> client \<times> 's" where
  "converse cr handlers sid aid key nonces obs n [] cl st s = ([], cl, s)"
| "converse cr handlers sid aid key nonces obs n (call # calls) cl st s =
     (let (r, cl', st', s') = exchange cr handlers sid aid key (nonces n) (obs n) call cl st s;
          (rs, cl'', s'') = converse cr handlers sid aid key nonces obs (Suc n) calls cl' st' s'
      in (r # rs, cl'', s''))"

section \<open>One exchange\<close>

lemma exchange_ok:
  assumes "aead_ok cr" "good_key (cl_session_key cl)" "good_nonce nonce" "good_nonce (ob_nonce ob)"
    and "\<And>m. payload = Some m \<Longrightarrow> map_fits m"
    and "ob_env ob (st0, s0) = (st, s)" "session_alive st sid ob"
    and "serve_one handlers sid aid (\<lparr>req_opcode = opcode, req_payload = payload\<rparr>, cl_seq cl) s = Some (resp, s')"
    and "response_fits resp"
  shows "exchange cr handlers sid aid (cl_session_key cl) nonce ob (opcode, payload) cl st0 s0 =
    (Ok (resp\<lparr>resp_seq := cl_seq cl\<rparr>), cl\<lparr>cl_seq := cl_seq cl + 1\<rparr>, st, s')"
proof -
  let ?key = "cl_session_key cl" and ?seq = "cl_seq cl" and ?req = "\<lparr>req_opcode = opcode, req_payload = payload\<rparr>"
  obtain b where b: "encode_call cr nonce cl ?seq opcode payload = Ok b" "call_bytes cr ?key ?seq ?req b"
    using encode_call_ok [OF assms(1-3), of payload ?seq opcode] assms(5) by blast
  have sent: "c_out (snd (snd (do_tcp cr nonce opcode payload cl (wire [])))) = b"
    using do_tcp_writes [of "wire []"] b(1) by simp
  have "c_in (wire b) = b @ []" "c_cap (wire b) = None" by simp_all
  then obtain out where out: "tcp_round cr handlers sid aid ?key ob st0 (wire b) s0 =
      (Continue, (wire b)\<lparr>c_in := [], c_out := c_out (wire b) @ out\<rparr>, st, s')" "reply_bytes cr ?key ?seq resp out"
    using tcp_round_serves [OF assms(1,2,4,6,7) b(2) _ _ assms(8,9)] by metis
  have "read_reply cr cl ((wire out)\<lparr>c_out := b\<rparr>) = (Ok (resp\<lparr>resp_seq := ?seq\<rparr>), (wire out)\<lparr>c_out := b, c_in := []\<rparr>)"
    using read_reply_ok [OF out(2), of "(wire out)\<lparr>c_out := b\<rparr>" "[]"] by simp
  then have "do_tcp cr nonce opcode payload cl (wire out) =
      (Ok (resp\<lparr>resp_seq := ?seq\<rparr>), cl\<lparr>cl_seq := ?seq + 1\<rparr>, (wire out)\<lparr>c_out := b, c_in := []\<rparr>)"
    using b(1) by (simp add: do_tcp_def next_seq_def write_all_def)
  then show ?thesis using out(1) by (simp add: exchange_def sent)
qed

text \<open>The requests of a list of calls, numbered from \<open>m\<close>, and the answers under these numbers.\<close>

fun numbered :: "nat \<Rightarrow> (u16 \<times> tlv_map option) list \<Rightarrow> (request \<times> u32) list" where
  "numbered m [] = []"
| "numbered m (call # calls) =
     (\<lparr>req_opcode = fst call, req_payload = snd call\<rparr>, word_of_nat m) # numbered (Suc m) calls"

fun answers :: "nat \<Rightarrow> response list \<Rightarrow> (client_error + response) list" where
  "answers m [] = []"
| "answers m (resp # resps) = Ok (resp\<lparr>resp_seq := word_of_nat m\<rparr>) # answers (Suc m) resps"

lemma converse_ok:
  assumes "aead_ok cr" "good_key key" "\<And>i. good_nonce (nonces i)" "\<And>i. good_nonce (ob_nonce (obs i))"
    and "\<And>i s. fst (ob_env (obs i) (st, s)) = st" "\<And>i. session_alive st sid (obs i)"
    and "\<forall>(op, p) \<in> set calls. \<forall>m. p = Some m \<longrightarrow> map_fits m"
    and "cl_session_key cl = key" "cl_seq cl = word_of_nat n"
    and "serve_all handlers sid aid obs n st (numbered n calls) s = Some (resps, s')" "\<forall>r \<in> set resps. response_fits r"
  shows "\<exists>sf. converse cr handlers sid aid key nonces obs n calls cl st s =
      (answers n resps, cl\<lparr>cl_seq := word_of_nat (n + length calls)\<rparr>, sf) \<and>
    s' = snd (ob_env (obs (n + length calls)) (st, sf))"
  using assms(7-)
proof (induction calls arbitrary: n cl s resps)
  case Nil
  then show ?case by simp
next
  case (Cons call calls)
  obtain op p where call: "call = (op, p)" by fastforce
  let ?s = "snd (ob_env (obs n) (st, s))"
  obtain resp s1 resps' where one: "serve_one handlers sid aid (\<lparr>req_opcode = op, req_payload = p\<rparr>, cl_seq cl) ?s = Some (resp, s1)"
    and all: "serve_all handlers sid aid obs (Suc n) st (numbered (Suc n) calls) s1 = Some (resps', s')"
    and resps: "resps = resp # resps'"
    using Cons.prems(3,4) by (auto simp: call split: option.splits)
  have env: "ob_env (obs n) (st, s) = (st, ?s)" using assms(5) [of n s] by (simp add: prod_eq_iff)
  have key: "good_key (cl_session_key cl)" and fit: "response_fits resp" "\<And>m. p = Some m \<Longrightarrow> map_fits m"
    using assms(2) Cons.prems(1,2,5) by (simp_all add: resps call)
  have ex: "exchange cr handlers sid aid key (nonces n) (obs n) call cl st s =
      (Ok (resp\<lparr>resp_seq := word_of_nat n\<rparr>), cl\<lparr>cl_seq := word_of_nat (Suc n)\<rparr>, st, s1)"
    using exchange_ok [OF assms(1) key assms(3,4) fit(2) env assms(6) one fit(1)] Cons.prems(2,3)
    by (simp add: call add.commute)
  have "\<exists>sf. converse cr handlers sid aid key nonces obs (Suc n) calls (cl\<lparr>cl_seq := word_of_nat (Suc n)\<rparr>) st s1 =
      (answers (Suc n) resps', (cl\<lparr>cl_seq := word_of_nat (Suc n)\<rparr>)\<lparr>cl_seq := word_of_nat (Suc n + length calls)\<rparr>, sf) \<and>
    s' = snd (ob_env (obs (Suc n + length calls)) (st, sf))"
    using Cons.prems(1,2,5) all by (intro Cons.IH) (simp_all add: resps)
  then show ?case using ex by (auto simp: resps)
qed

section \<open>From the dial to the last answer\<close>

lemma dial_writes:
  "(dial_with, handshake) \<in> dial_pairs \<Longrightarrow> c_cap c = None \<Longrightarrow>
     c_out (snd (dial_with cr random now key c)) = c_out c @ hello (ak_id key) (x25519_public cr random)"
  by (auto simp: client_dial_def client_dial_tcp_def client_handshake_writes Let_def case_prod_beta)

lemma connect_ok:
  assumes "(dial_with, handshake) \<in> dial_pairs"
    and "dh_ok cr" "hkdf_ok cr" "length (ak_id key) \<le> 256" "rust_string (ak_id key)"
    and "ak_id key \<noteq> [] \<longrightarrow> key_store (ak_id key) = Some (ak_secret key)"
  obtains cl where "connect dial_with handshake cr random now key priv (snd (generate_key_pair cr priv)) key_store sid =
      (Ok cl, Ok (ak_id key, cl_session_key cl))"
    "good_key (cl_session_key cl)" "client_session_id cl = sid" "cl_seq cl = 0"
proof -
  let ?pub = "snd (generate_key_pair cr priv)"
  let ?sc = "wire (c_out (snd (dial_with cr random now key (wire []))))"
  let ?cc = "wire (c_out (snd (handshake cr priv ?pub key_store sid ?sc)))"
  have "c_in ?sc = c_out (snd (dial_with cr random now key ?cc))" using dial_writes [OF assms(1)] by simp
  then obtain k cl where "length k = KEY_SIZE" "fst (dial_with cr random now key ?cc) = Ok cl"
    "cl_session_key cl = k" "client_session_id cl = sid" "cl_seq cl = 0"
    "fst (handshake cr priv ?pub key_store sid ?sc) = Ok (ak_id key, k)"
    using dial_handshake_ok [where key = key and key_store = key_store, OF assms(2-6),
        of ?cc ?sc dial_with handshake random now priv sid] assms(1) by auto
  then show thesis
    by (intro that [of cl]) (simp_all add: connect_def good_key_def Let_def case_prod_beta)
qed

text \<open>
  A whole TCP session. A client that dials a server that knows its key (or dials without a key
  id) gets the session the server made for it, and every call it then makes with \<open>do_\<close> returns the
  answer of the handler registered for its opcode, in the order of the calls and under the sequence
  numbers 0, 1, 2 and on: the answers, and the handlers' shared state at the end, are those of running
  the handlers on the calls one after the other under the client's key id and session id, with what
  other connections do to that state in between.
\<close>

theorem session_end_to_end:
  assumes "dh_ok cr" and "hkdf_ok cr" and "aead_ok cr"
    and "length (ak_id key) \<le> 256" and "rust_string (ak_id key)"
    and "ak_id key \<noteq> [] \<longrightarrow> key_store (ak_id key) = Some (ak_secret key)"
    and "\<forall>i. length (nonces i) = NONCE_SIZE" and "\<forall>i. length (ob_nonce (obs i)) = NONCE_SIZE"
    and "\<forall>i s. fst (ob_env (obs i) (st, s)) = st" and "\<forall>i. session_alive st sid (obs i)"
    and "\<forall>(opcode, payload) \<in> set calls. \<forall>m. payload = Some m \<longrightarrow> map_fits m"
    and "serve_all handlers sid (ak_id key) obs 0 st (numbered 0 calls) s = Some (resps, s')"
    and "\<forall>r \<in> set resps. response_fits r"
  shows "\<exists>k cl sf.
    connect client_dial_tcp tcp_handshake cr random now key priv (snd (generate_key_pair cr priv)) key_store sid = (Ok cl, Ok (ak_id key, k)) \<and>
    client_session_id cl = sid \<and>
    converse cr handlers sid (ak_id key) k nonces obs 0 calls cl st s =
      (answers 0 resps, cl\<lparr>cl_seq := word_of_nat (length calls)\<rparr>, sf) \<and>
    s' = snd (ob_env (obs (length calls)) (st, sf))"
proof -
  obtain cl where cl: "connect client_dial_tcp tcp_handshake cr random now key priv (snd (generate_key_pair cr priv)) key_store sid =
      (Ok cl, Ok (ak_id key, cl_session_key cl))"
    "good_key (cl_session_key cl)" "client_session_id cl = sid" "cl_seq cl = 0"
    by (rule connect_ok [where key = key and key_store = key_store, OF insertI2 [OF singletonI] assms(1,2,4-6)])
  have n: "\<And>i. good_nonce (nonces i)" "\<And>i. good_nonce (ob_nonce (obs i))"
    and e: "\<And>i s. fst (ob_env (obs i) (st, s)) = st" "\<And>i. session_alive st sid (obs i)"
    and q: "cl_seq cl = word_of_nat 0"
    using assms(7-10) cl(4) by (simp_all add: good_nonce_def)
  show ?thesis
    using converse_ok [OF assms(3) cl(2) n e assms(11) refl q assms(12,13)] cl(1,3) by fastforce
qed

theorem session_end_to_end_witness:
  "\<exists>k cl.
    connect client_dial_tcp tcp_handshake toy_crypto [1] 5 \<lparr>ak_id = [], ak_secret = []\<rparr> [2] (snd (generate_key_pair toy_crypto [2])) Map.empty 9 =
      (Ok cl, Ok ([], k)) \<and> client_session_id cl = 9 \<and>
    converse toy_crypto toy_handlers 9 [] k (\<lambda>_. toy_nonce) (\<lambda>_. toy_ob) 0 [(7, Some toy_map), (7, Some toy_map)] cl
      (store_new default_config) 0 =
      ([Ok ((new_response toy_map)\<lparr>resp_seq := 0\<rparr>), Ok ((new_response toy_map)\<lparr>resp_seq := 1\<rparr>)],
       cl\<lparr>cl_seq := 2\<rparr>, 2)"
proof -
  let ?key = "\<lparr>ak_id = [], ak_secret = []\<rparr> :: api_key" and ?st = "store_new default_config"
  let ?calls = "[(7, Some toy_map), (7, Some toy_map)] :: (u16 \<times> tlv_map option) list"
  let ?resps = "[new_response toy_map, new_response toy_map]"
  have run: "serve_all toy_handlers 9 [] (\<lambda>_. toy_ob) 0 ?st (numbered 0 ?calls) 0 = Some (?resps, 2)"
    by (simp add: serve_one_def toy_simps toy_echo_answer, simp add: reply_of_def)
  have "\<exists>k cl sf.
    connect client_dial_tcp tcp_handshake toy_crypto [1] 5 ?key [2] (snd (generate_key_pair toy_crypto [2])) Map.empty 9 = (Ok cl, Ok (ak_id ?key, k)) \<and>
    client_session_id cl = 9 \<and>
    converse toy_crypto toy_handlers 9 (ak_id ?key) k (\<lambda>_. toy_nonce) (\<lambda>_. toy_ob) 0 ?calls cl ?st 0 =
      (answers 0 ?resps, cl\<lparr>cl_seq := word_of_nat (length ?calls)\<rparr>, sf) \<and>
    2 = snd (ob_env toy_ob (?st, sf))"
    by (rule session_end_to_end [OF toy_dh_ok toy_hkdf_ok toy_aead_ok, where obs = "\<lambda>_. toy_ob"])
      (simp_all add: toy_lengths toy_simps toy_alive toy_map_fits toy_response_fits rust_string_Nil run
        del: serve_all.simps numbered.simps)
  then show ?thesis by (auto simp: toy_simps)
qed

end
