(* ===== verification/Hush_Program.thy ===== *)
theory Hush_Program
  imports Hush_Conversation Hush_Agreement
begin

text \<open>
  Client programs: what a program that uses \<open>Client::do_\<close> prints and asks, as a tree of its
  interactions. Such a program runs against anything that answers requests: here the protocol
  stack, over TCP or over QUIC, and the handlers called directly. The two runs agree.
\<close>

section \<open>Programs and their runs\<close>

datatype written = StdOut string | StdErr string

datatype program =
    Done
  | Panic string
  | Print written program
  | Ask u16 "tlv_map option" "client_error + response \<Rightarrow> program"

datatype exit = Finished | Panicked string

primrec run ::
    "('p \<Rightarrow> u16 \<Rightarrow> tlv_map option \<Rightarrow> (client_error + response) \<times> 'p) \<Rightarrow> program \<Rightarrow> 'p \<Rightarrow>
       written list \<times> exit \<times> 'p" where
  "run ask Done = (\<lambda>p. ([], Finished, p))"
| "run ask (Panic msg) = (\<lambda>p. ([], Panicked msg, p))"
| "run ask (Print l prog) = (\<lambda>p. case run ask prog p of (out, e, p') \<Rightarrow> (l # out, e, p'))"
| "run ask (Ask opcode payload k) = (\<lambda>p. case ask p opcode payload of (r, p') \<Rightarrow> run ask (k r) p')"

text \<open>A run against a specification, which may leave a request open (\<open>None\<close>).\<close>

primrec run_spec ::
    "('a \<Rightarrow> u16 \<Rightarrow> tlv_map option \<Rightarrow> ((client_error + response) \<times> 'a) option) \<Rightarrow> program \<Rightarrow> 'a \<Rightarrow>
       (written list \<times> exit \<times> 'a) option" where
  "run_spec ask Done = (\<lambda>a. Some ([], Finished, a))"
| "run_spec ask (Panic msg) = (\<lambda>a. Some ([], Panicked msg, a))"
| "run_spec ask (Print l prog) = (\<lambda>a. case run_spec ask prog a of
     None \<Rightarrow> None | Some (out, e, a') \<Rightarrow> Some (l # out, e, a'))"
| "run_spec ask (Ask opcode payload k) = (\<lambda>a. case ask a opcode payload of
     None \<Rightarrow> None | Some (r, a') \<Rightarrow> run_spec ask (k r) a')"

text \<open>Something that answers as specified may be put in place of the specification.\<close>

locale answers_as_specified =
  fixes spec :: "'a \<Rightarrow> u16 \<Rightarrow> tlv_map option \<Rightarrow> ((client_error + response) \<times> 'a) option"
    and impl :: "'p \<Rightarrow> u16 \<Rightarrow> tlv_map option \<Rightarrow> (client_error + response) \<times> 'p"
    and rel :: "'a \<Rightarrow> 'p \<Rightarrow> bool"
  assumes answer: "rel a p \<Longrightarrow> spec a opcode payload = Some (r, a') \<Longrightarrow> \<exists>p'. impl p opcode payload = (r, p') \<and> rel a' p'"
begin

lemma run_as_specified:
  "rel a p \<Longrightarrow> run_spec spec prog a = Some (out, e, a') \<Longrightarrow> \<exists>p'. run impl prog p = (out, e, p') \<and> rel a' p'"
proof (induction prog arbitrary: a p out)
  case (Print l prog)
  then show ?case by (fastforce split: option.splits)
next
  case (Ask opcode payload k)
  then obtain r a1 where s: "spec a opcode payload = Some (r, a1)" "run_spec spec (k r) a1 = Some (out, e, a')"
    by (auto split: option.splits)
  obtain p1 where p: "impl p opcode payload = (r, p1)" "rel a1 p1" using answer [OF Ask.prems(1) s(1)] by blast
  show ?case using Ask.IH [OF rangeI p(2) s(2)] p(1) by simp
qed auto

end

section \<open>The handlers, called directly\<close>

fun payload_fits :: "tlv_map option \<Rightarrow> bool" where
  "payload_fits None = True"
| "payload_fits (Some m) = map_fits m"

text \<open>
  The answer the service promises to the \<open>n\<close>th request of a session: the handler's, under the number
  of the request. Left open are requests to streaming handlers, requests whose handler
  panics, and payloads beyond the limits of the codec. \<open>env n\<close> is what the rest of the application
  does to its state before the \<open>n\<close>th request.
\<close>

definition promised ::
    "(u16 \<rightharpoonup> 's handler_type) \<Rightarrow> u64 \<Rightarrow> string \<Rightarrow> (nat \<Rightarrow> 's \<Rightarrow> 's) \<Rightarrow> nat \<times> 's \<Rightarrow> u16 \<Rightarrow> tlv_map option \<Rightarrow>
       ((client_error + response) \<times> nat \<times> 's) option" where
  "promised handlers sid aid env a opcode payload = (case a of (n, s) \<Rightarrow>
     (case handlers opcode of
        Some (StreamH h) \<Rightarrow> None
      | _ \<Rightarrow>
          if payload_fits payload then
            (case serve_one handlers sid aid (\<lparr>req_opcode = opcode, req_payload = payload\<rparr>, word_of_nat n) (env n s) of
               None \<Rightarrow> None
             | Some (resp, s') \<Rightarrow>
                 if response_fits resp then Some (Ok (resp\<lparr>resp_seq := word_of_nat n\<rparr>), Suc n, s') else None)
          else None))"

section \<open>The handlers behind the protocol\<close>

text \<open>A request on a QUIC stream opened for it, served by the task of that stream.\<close>

definition quic_exchange ::
    "crypto \<Rightarrow> (u16 \<rightharpoonup> 's handler_type) \<Rightarrow> u64 \<Rightarrow> string \<Rightarrow> bytes \<Rightarrow> bytes \<Rightarrow> 's observation \<Rightarrow>
       u16 \<times> tlv_map option \<Rightarrow> client \<Rightarrow> session_store \<Rightarrow> 's \<Rightarrow> (client_error + response) \<times> client \<times> session_store \<times> 's" where
  "quic_exchange cr handlers sid aid key nonce ob call cl st s =
     (case call of (opcode, payload) \<Rightarrow>
        let sent = (case snd (snd (do_quinn cr nonce opcode payload cl (Some (wire [])))) of None \<Rightarrow> [] | Some c \<Rightarrow> c_out c);
            (st', s1) = ob_env ob (st, s);
            (sc, s') = run_stream_task cr handlers (ob_nonce ob) (ob_now ob) (ob_later ob) st' st'
              \<lparr>st_conn = wire sent, st_session_id = sid, st_api_key_id = aid\<rparr> s1;
            (r, cl', cc) = do_quinn cr nonce opcode payload cl (Some (wire (c_out sc)))
        in (r, cl', st', s'))"

text \<open>The state of a session's two ends: requests made, client, session store, application.\<close>

type_synonym 's session_state = "nat \<times> client \<times> session_store \<times> 's"

definition ask_over ::
    "(bytes \<Rightarrow> 's observation \<Rightarrow> u16 \<times> tlv_map option \<Rightarrow> client \<Rightarrow> session_store \<Rightarrow> 's \<Rightarrow>
        (client_error + response) \<times> client \<times> session_store \<times> 's) \<Rightarrow>
       (nat \<Rightarrow> bytes) \<Rightarrow> (nat \<Rightarrow> 's observation) \<Rightarrow> 's session_state \<Rightarrow> u16 \<Rightarrow> tlv_map option \<Rightarrow>
       (client_error + response) \<times> 's session_state" where
  "ask_over exchange_by nonces obs p opcode payload = (case p of (n, cl, st, s) \<Rightarrow>
     (case exchange_by (nonces n) (obs n) (opcode, payload) cl st s of
        (r, cl', st', s') \<Rightarrow> (r, Suc n, cl', st', s')))"

text \<open>
  What the other tasks of the server may do: anything to the application's state (\<open>env\<close>), anything
  to the session store except touching this session and the configuration.
\<close>

definition leave_session :: "u64 \<Rightarrow> (nat \<Rightarrow> 's \<Rightarrow> 's) \<Rightarrow> (nat \<Rightarrow> 's observation) \<Rightarrow> bool" where
  "leave_session sid env obs \<longleftrightarrow> (\<forall>n st s. case ob_env (obs n) (st, s) of (st', s') \<Rightarrow>
     s' = env n s \<and> store_get st' sid = store_get st sid \<and> ss_config st' = ss_config st)"

definition lives_in :: "session \<Rightarrow> session_config \<Rightarrow> 's observation \<Rightarrow> bool" where
  "lives_in sess cfg ob \<longleftrightarrow>
     elapsed (ob_now ob) (created_at sess) \<le> max_lifetime cfg \<and> elapsed (ob_later ob) (last_used sess) \<le> idle_timeout cfg"

lemma lives_in_not_dead:
  "lives_in sess (ss_config st) ob \<Longrightarrow> \<not> session_dead st (ob_now ob) (ob_later ob) sess"
  by (simp add: lives_in_def session_dead_def is_expired_def is_idle_dead_def)

text \<open>A session under way: what holds of its surroundings throughout, and of its state.\<close>

definition stack_ok ::
    "crypto \<Rightarrow> (nat \<Rightarrow> bytes) \<Rightarrow> (nat \<Rightarrow> 's \<Rightarrow> 's) \<Rightarrow> (nat \<Rightarrow> 's observation) \<Rightarrow> session \<Rightarrow> session_config \<Rightarrow> bool" where
  "stack_ok cr nonces env obs sess cfg \<longleftrightarrow> aead_ok cr \<and> good_key (sess_key sess) \<and> (\<forall>i. good_nonce (nonces i)) \<and>
     (\<forall>i. good_nonce (ob_nonce (obs i))) \<and> leave_session (sess_id sess) env obs \<and> (\<forall>i. lives_in sess cfg (obs i))"

definition stack_state :: "client \<Rightarrow> session \<Rightarrow> session_config \<Rightarrow> nat \<times> 's \<Rightarrow> 's session_state \<Rightarrow> bool" where
  "stack_state cl0 sess cfg a p \<longleftrightarrow> (case a of (n, s) \<Rightarrow> case p of (n', cl, st, s') \<Rightarrow>
     n' = n \<and> s' = s \<and> cl = cl0\<lparr>cl_seq := word_of_nat n\<rparr> \<and> cl_session_key cl0 = sess_key sess \<and>
     store_get st (sess_id sess) = Some sess \<and> ss_config st = cfg)"

lemma leave_sessionE:
  assumes "leave_session sid env obs" "store_get st sid = Some sess" "ss_config st = cfg"
  obtains st' where "ob_env (obs n) (st, s) = (st', env n s)" "store_get st' sid = Some sess" "ss_config st' = cfg"
proof -
  have "case ob_env (obs n) (st, s) of (st', s') \<Rightarrow>
     s' = env n s \<and> store_get st' sid = store_get st sid \<and> ss_config st' = ss_config st"
    using assms(1) unfolding leave_session_def by (elim allE) assumption
  then show thesis using assms(2,3) by (intro that [of "fst (ob_env (obs n) (st, s))"]) (auto split: prod.splits)
qed

lemma promisedE:
  assumes "promised handlers sid aid env (n, s) opcode payload = Some (r, a')"
  obtains resp s' where "\<And>h. handlers opcode \<noteq> Some (StreamH h)" "\<And>m. payload = Some m \<Longrightarrow> map_fits m"
    "serve_one handlers sid aid (\<lparr>req_opcode = opcode, req_payload = payload\<rparr>, word_of_nat n) (env n s) = Some (resp, s')"
    "response_fits resp" "r = Ok (resp\<lparr>resp_seq := word_of_nat n\<rparr>)" "a' = (Suc n, s')"
  using assms by (cases payload) (auto simp: promised_def split: option.splits handler_type.splits if_splits)

lemma quic_exchange_ok:
  assumes "aead_ok cr" "good_key (cl_session_key cl)" "good_nonce nonce" "good_nonce (ob_nonce ob)"
    and "\<And>m. payload = Some m \<Longrightarrow> map_fits m"
    and "ob_env ob (st0, s0) = (st, s)" and "store_get st sid = Some sess" "sess_key sess = cl_session_key cl"
    and "\<not> session_dead st (ob_now ob) (ob_later ob) sess" and "\<And>h. handlers opcode \<noteq> Some (StreamH h)"
    and "serve_one handlers sid aid (\<lparr>req_opcode = opcode, req_payload = payload\<rparr>, cl_seq cl) s = Some (resp, s')"
    and "response_fits resp"
  shows "quic_exchange cr handlers sid aid (cl_session_key cl) nonce ob (opcode, payload) cl st0 s0 =
    (Ok (resp\<lparr>resp_seq := cl_seq cl\<rparr>), cl\<lparr>cl_seq := cl_seq cl + 1\<rparr>, st, s')"
proof -
  let ?key = "cl_session_key cl" and ?seq = "cl_seq cl" and ?req = "\<lparr>req_opcode = opcode, req_payload = payload\<rparr>"
  obtain b where b: "encode_call cr nonce cl ?seq opcode payload = Ok b" "call_bytes cr ?key ?seq ?req b"
    using encode_call_ok [OF assms(1-3), of payload ?seq opcode] assms(5) by blast
  have do: "do_quinn cr nonce opcode payload cl (Some (wire w)) =
      (let (r, c2) = read_reply cr cl ((wire w)\<lparr>c_out := b\<rparr>) in (r, cl\<lparr>cl_seq := ?seq + 1\<rparr>, Some c2))" for w
    using b(1) by (simp add: do_quinn_def next_seq_def write_all_def)
  then have sent: "(case snd (snd (do_quinn cr nonce opcode payload cl (Some (wire [])))) of None \<Rightarrow> [] | Some c \<Rightarrow> c_out c) = b"
    by (simp add: case_prod_beta read_reply_keeps)
  have "c_in (wire b) = b @ []" "c_cap (wire b) = None" and h: "\<And>h. handlers (req_opcode ?req) \<noteq> Some (StreamH h)"
    using assms(10) by simp_all
  then obtain out where out: "handle_request_stream cr handlers sid aid (ob_nonce ob) (ob_now ob) (ob_later ob) st st (wire b) s =
      ((wire b)\<lparr>c_in := [], c_out := c_out (wire b) @ out\<rparr>, s')" "reply_bytes cr ?key ?seq resp out"
    using quic_serves [OF assms(1,2,4,7-9) b(2) _ _ h assms(11,12)] by metis
  have "read_reply cr cl ((wire out)\<lparr>c_out := b\<rparr>) = (Ok (resp\<lparr>resp_seq := ?seq\<rparr>), (wire out)\<lparr>c_out := b, c_in := []\<rparr>)"
    using read_reply_ok [OF out(2), of "(wire out)\<lparr>c_out := b\<rparr>" "[]"] by simp
  then show ?thesis
    using out(1) do [of out] by (simp add: quic_exchange_def sent assms(6) run_stream_task_def)
qed

definition under_way ::
    "crypto \<Rightarrow> (nat \<Rightarrow> bytes) \<Rightarrow> (nat \<Rightarrow> 's \<Rightarrow> 's) \<Rightarrow> (nat \<Rightarrow> 's observation) \<Rightarrow> client \<Rightarrow> session \<Rightarrow> session_config \<Rightarrow>
       nat \<times> 's \<Rightarrow> 's session_state \<Rightarrow> bool" where
  "under_way cr nonces env obs cl0 sess cfg a p \<longleftrightarrow> stack_ok cr nonces env obs sess cfg \<and> stack_state cl0 sess cfg a p"

lemma under_wayE:
  assumes "under_way cr nonces env obs cl0 sess cfg a p"
  obtains n s cl st where "a = (n, s)" "p = (n, cl, st, s)" "cl = cl0\<lparr>cl_seq := word_of_nat n\<rparr>"
    "cl_session_key cl = sess_key sess" "aead_ok cr" "good_key (cl_session_key cl)" "\<And>i. good_nonce (nonces i)"
    "\<And>i. good_nonce (ob_nonce (obs i))" "leave_session (sess_id sess) env obs" "\<And>i. lives_in sess cfg (obs i)"
    "store_get st (sess_id sess) = Some sess" "ss_config st = cfg"
  using assms by (auto simp: under_way_def stack_ok_def stack_state_def)

lemma under_way_next:
  assumes "under_way cr nonces env obs cl0 sess cfg (n, s) (n, cl, st, s)"
    and "store_get st' (sess_id sess) = Some sess" "ss_config st' = cfg"
  shows "under_way cr nonces env obs cl0 sess cfg (Suc n, s') (Suc n, cl\<lparr>cl_seq := cl_seq cl + 1\<rparr>, st', s')"
  using assms by (simp add: under_way_def stack_state_def add.commute)

text \<open>Both transports answer as promised: it is enough to look at one exchange.\<close>

lemma ask_as_promised:
  assumes "under_way cr nonces env obs cl0 sess cfg a p"
    and "promised handlers (sess_id sess) aid env a opcode payload = Some (r, a')"
    and one: "\<And>n cl st st' s resp s'. aead_ok cr \<Longrightarrow> good_key (cl_session_key cl) \<Longrightarrow> good_nonce (nonces n) \<Longrightarrow>
      good_nonce (ob_nonce (obs n)) \<Longrightarrow> (\<And>m. payload = Some m \<Longrightarrow> map_fits m) \<Longrightarrow>
      ob_env (obs n) (st, s) = (st', env n s) \<Longrightarrow> store_get st' (sess_id sess) = Some sess \<Longrightarrow>
      sess_key sess = cl_session_key cl \<Longrightarrow> \<not> session_dead st' (ob_now (obs n)) (ob_later (obs n)) sess \<Longrightarrow>
      (\<And>h. handlers opcode \<noteq> Some (StreamH h)) \<Longrightarrow>
      serve_one handlers (sess_id sess) aid (\<lparr>req_opcode = opcode, req_payload = payload\<rparr>, cl_seq cl) (env n s) = Some (resp, s') \<Longrightarrow>
      response_fits resp \<Longrightarrow>
      exchange_by (nonces n) (obs n) (opcode, payload) cl st s =
        (Ok (resp\<lparr>resp_seq := cl_seq cl\<rparr>), cl\<lparr>cl_seq := cl_seq cl + 1\<rparr>, st', s')"
  shows "\<exists>p'. ask_over exchange_by nonces obs p opcode payload = (r, p') \<and> under_way cr nonces env obs cl0 sess cfg a' p'"
proof -
  from assms(1) obtain n s cl st where w: "a = (n, s)" "p = (n, cl, st, s)" "cl = cl0\<lparr>cl_seq := word_of_nat n\<rparr>"
    and key: "cl_session_key cl = sess_key sess" and ok: "aead_ok cr" "good_key (cl_session_key cl)"
    and nonces: "\<And>i. good_nonce (nonces i)" "\<And>i. good_nonce (ob_nonce (obs i))"
    and leave: "leave_session (sess_id sess) env obs" and lives: "\<And>i. lives_in sess cfg (obs i)"
    and st: "store_get st (sess_id sess) = Some sess" "ss_config st = cfg" by (elim under_wayE) simp
  from assms(2) [unfolded w(1)] obtain resp s' where h: "\<And>h. handlers opcode \<noteq> Some (StreamH h)"
    and fits: "\<And>m. payload = Some m \<Longrightarrow> map_fits m"
    and served: "serve_one handlers (sess_id sess) aid (\<lparr>req_opcode = opcode, req_payload = payload\<rparr>, cl_seq cl) (env n s) = Some (resp, s')"
    and resp: "response_fits resp" "r = Ok (resp\<lparr>resp_seq := cl_seq cl\<rparr>)" "a' = (Suc n, s')"
    by (elim promisedE) (simp add: w(3))
  obtain st' where e: "ob_env (obs n) (st, s) = (st', env n s)"
    and st': "store_get st' (sess_id sess) = Some sess" "ss_config st' = cfg" by (rule leave_sessionE [OF leave st])
  have "\<not> session_dead st' (ob_now (obs n)) (ob_later (obs n)) sess"
    using st' lives [of n] by (simp add: lives_in_not_dead)
  from one [OF ok nonces fits e st'(1) key [symmetric] this h served resp(1)]
  show ?thesis using under_way_next [OF assms(1) [unfolded w(1,2)] st'] by (simp add: ask_over_def w(2) resp(2,3))
qed

interpretation tcp: answers_as_specified "promised handlers (sess_id sess) aid env"
    "ask_over (exchange cr handlers (sess_id sess) aid (sess_key sess)) nonces obs"
    "under_way cr nonces env obs cl0 sess cfg"
  for handlers sess aid env cr nonces obs cl0 cfg
  by unfold_locales (erule (1) ask_as_promised, simp add: exchange_ok session_alive_def)

interpretation quic: answers_as_specified "promised handlers (sess_id sess) aid env"
    "ask_over (quic_exchange cr handlers (sess_id sess) aid (sess_key sess)) nonces obs"
    "under_way cr nonces env obs cl0 sess cfg"
  for handlers sess aid env cr nonces obs cl0 cfg
  by unfold_locales (erule (1) ask_as_promised, simp add: quic_exchange_ok)

section \<open>Programs over the wire\<close>

text \<open>The two transports: how a client dials, how the server answers, how a request is made.\<close>

abbreviation transports where
  "transports \<equiv> {(client_dial, quic_handshake, quic_exchange), (client_dial_tcp, tcp_handshake, exchange)}"

lemma program_on_stack:
  assumes "dh_ok cr" "hkdf_ok cr" "aead_ok cr"
    and "length (ak_id key) \<le> 256" "rust_string (ak_id key)"
    and "ak_id key \<noteq> [] \<longrightarrow> key_store (ak_id key) = Some (ak_secret key)"
    and "\<forall>i. length (nonces i) = NONCE_SIZE" "\<forall>i. length (ob_nonce (obs i)) = NONCE_SIZE"
    and "leave_session sid env obs"
    and "\<forall>i. elapsed (ob_now (obs i)) since \<le> max_lifetime (ss_config st) \<and>
      elapsed (ob_later (obs i)) since \<le> idle_timeout (ss_config st)"
    and "(dial_with, handshake, exchange_by) \<in> transports"
    and "run_spec (promised handlers sid (ak_id key) env) prog (0, s) = Some (out, e, n, s')"
  shows "\<exists>k cl cl' st'.
    connect dial_with handshake cr random now key priv (snd (generate_key_pair cr priv)) key_store sid = (Ok cl, Ok (ak_id key, k)) \<and>
    client_session_id cl = sid \<and>
    run (ask_over (exchange_by cr handlers sid (ak_id key) k) nonces obs) prog
      (0, cl, store_insert (session_new since sid (ak_id key) k) st, s) = (out, e, n, cl', st', s')"
proof -
  from assms(11) have "(dial_with, handshake) \<in> dial_pairs" by auto
  from connect_ok [where key = key and key_store = key_store, OF this assms(1,2,4-6)]
  obtain cl where cl: "connect dial_with handshake cr random now key priv (snd (generate_key_pair cr priv)) key_store sid =
      (Ok cl, Ok (ak_id key, cl_session_key cl))" "good_key (cl_session_key cl)" "client_session_id cl = sid" "cl_seq cl = 0" .
  define sess where "sess = session_new since sid (ak_id key) (cl_session_key cl)"
  have sess: "sess_id sess = sid" "sess_key sess = cl_session_key cl" by (simp_all add: sess_def session_new_def)
  have u: "under_way cr nonces env obs cl sess (ss_config st) (0, s) (0, cl, store_insert sess st, s)"
    using assms(3,7-10) cl(2,4)
    by (simp add: under_way_def stack_ok_def stack_state_def good_nonce_def lives_in_def sess_def session_new_def
        store_get_def store_insert_def)
  have q: "run_spec (promised handlers (sess_id sess) (ak_id key) env) prog (0, s) = Some (out, e, n, s')"
    using assms(12) by (simp only: sess)
  have "\<exists>p. run (ask_over (exchange_by cr handlers sid (ak_id key) (cl_session_key cl)) nonces obs) prog
      (0, cl, store_insert sess st, s) = (out, e, p) \<and> under_way cr nonces env obs cl sess (ss_config st) (n, s') p"
    using assms(11) tcp.run_as_specified [OF u q] quic.run_as_specified [OF u q] by (auto simp only: sess)
  then obtain p where "run (ask_over (exchange_by cr handlers sid (ak_id key) (cl_session_key cl)) nonces obs) prog
      (0, cl, store_insert sess st, s) = (out, e, p)" "under_way cr nonces env obs cl sess (ss_config st) (n, s') p" by blast
  moreover obtain cl' st' where "p = (n, cl', st', s')" using calculation(2) by (elim under_wayE) simp
  ultimately show ?thesis using cl(1,3) by (auto simp: sess_def)
qed

text \<open>
  C3. The protocol is transparent. A client that dials, over QUIC or TCP, a server that knows its key
  (or without a key id) gets the session the server made for it; and any client program then prints
  the same lines, ends the same way and has the same effect on the application as if it had called the
  server's handlers directly, one after the other under its key id and session id, whatever
  other connections do to the application and to other sessions in between. (While the session's timeouts last, and as
  long as the program asks no streaming handler, no handler panics and all payloads are within the
  limits of the codec.)
\<close>

theorem program_over_wire:
  assumes "dh_ok cr" and "hkdf_ok cr" and "aead_ok cr"
    and "length (ak_id key) \<le> 256" and "rust_string (ak_id key)"
    and "ak_id key \<noteq> [] \<longrightarrow> key_store (ak_id key) = Some (ak_secret key)"
    and "\<forall>i. length (nonces i) = NONCE_SIZE" and "\<forall>i. length (ob_nonce (obs i)) = NONCE_SIZE"
    and "leave_session sid env obs"
    and "\<forall>i. elapsed (ob_now (obs i)) since \<le> max_lifetime (ss_config st) \<and>
      elapsed (ob_later (obs i)) since \<le> idle_timeout (ss_config st)"
    and "(dial_with, handshake, exchange_by) \<in> transports"
    and "run_spec (promised handlers sid (ak_id key) env) prog (0, s) = Some (out, e, n, s')"
  shows "\<exists>k cl cl' st'.
    connect dial_with handshake cr random now key priv (snd (generate_key_pair cr priv)) key_store sid = (Ok cl, Ok (ak_id key, k)) \<and>
    client_session_id cl = sid \<and>
    run (ask_over (exchange_by cr handlers sid (ak_id key) k) nonces obs) prog
      (0, cl, store_insert (session_new since sid (ak_id key) k) st, s) = (out, e, n, cl', st', s')"
  using assms by (rule program_on_stack)

text \<open>A program for the witness: it asks twice and prints whether the answers carry the payload sent.\<close>

definition toy_program :: program where
  "toy_program = Ask 7 (Some toy_map) (\<lambda>r. case r of Err e \<Rightarrow> Panic ''ask'' | Ok resp \<Rightarrow>
     Print (StdOut (if resp_payload resp = Some toy_map then ''same'' else ''other''))
       (Ask 7 (Some toy_map) (\<lambda>r. case r of Err e \<Rightarrow> Panic ''ask'' | Ok resp \<Rightarrow> Done)))"

lemma toy_leave: "leave_session sid (\<lambda>_ s. s) (\<lambda>_. toy_ob)"
  by (simp add: leave_session_def toy_simps)

theorem program_over_wire_witness:
  "\<exists>k cl cl' st'.
    connect client_dial quic_handshake toy_crypto [1] 5 \<lparr>ak_id = [], ak_secret = []\<rparr> [2] (snd (generate_key_pair toy_crypto [2]))
      Map.empty 9 = (Ok cl, Ok ([], k)) \<and> client_session_id cl = 9 \<and>
    run (ask_over (quic_exchange toy_crypto toy_handlers 9 [] k) (\<lambda>_. toy_nonce) (\<lambda>_. toy_ob)) toy_program
      (0, cl, store_insert (session_new 0 9 [] k) (store_new default_config), 0) = ([StdOut ''same''], Finished, 2, cl', st', 2)"
proof -
  let ?key = "\<lparr>ak_id = [], ak_secret = []\<rparr> :: api_key" and ?st = "store_new default_config"
  have run: "run_spec (promised toy_handlers 9 (ak_id ?key) (\<lambda>_ s. s)) toy_program (0, 0) = Some ([StdOut ''same''], Finished, 2, 2)"
    by (simp add: toy_program_def promised_def toy_simps toy_map_fits serve_one_def toy_echo_answer toy_response_fits)
      (simp add: reply_of_def new_response_def)
  have "\<exists>k cl cl' st'.
    connect client_dial quic_handshake toy_crypto [1] 5 ?key [2] (snd (generate_key_pair toy_crypto [2]))
      Map.empty 9 = (Ok cl, Ok (ak_id ?key, k)) \<and> client_session_id cl = 9 \<and>
    run (ask_over (quic_exchange toy_crypto toy_handlers 9 (ak_id ?key) k) (\<lambda>_. toy_nonce) (\<lambda>_. toy_ob)) toy_program
      (0, cl, store_insert (session_new 0 9 (ak_id ?key) k) ?st, 0) = ([StdOut ''same''], Finished, 2, cl', st', 2)"
    by (rule program_over_wire [OF toy_dh_ok toy_hkdf_ok toy_aead_ok _ _ _ _ _ toy_leave _ _ run])
      (simp_all add: toy_lengths toy_simps rust_string_Nil elapsed_def toy_ob_def)
  then show ?thesis by simp
qed

end
