(* ===== verification/Hush_Hub.thy ===== *)
theory Hush_Hub
  imports Hush_Tlv
begin

text \<open>
  \<open>src/hub.rs\<close>: the topic-based event hub. Its channels are tokio's \<open>broadcast\<close> channels, which
  are not part of the repository: they are the record \<open>broadcast\<close> of operations on a world of
  channels \<open>'w\<close>, with handles \<open>'h\<close> (a \<open>Sender\<close>) and \<open>'r\<close> (a \<open>Receiver\<close>), and what the hub relies
  on of them is \<open>broadcast_ok\<close>.
\<close>

section \<open>The hub\<close>

record event =
  ev_topic :: string
  ev_payload :: tlv_map
  ev_time :: u64

record ('w, 'h, 'r) broadcast =
  bc_channel :: "nat \<Rightarrow> 'w \<Rightarrow> ('h \<times> 'r) \<times> 'w"
  bc_subscribe :: "'h \<Rightarrow> 'w \<Rightarrow> 'r \<times> 'w"
  bc_drop :: "'r \<Rightarrow> 'w \<Rightarrow> 'w"
  bc_receiver_count :: "'h \<Rightarrow> 'w \<Rightarrow> nat"
  bc_send :: "'h \<Rightarrow> event \<Rightarrow> 'w \<Rightarrow> 'w"  \<comment> \<open>the result of \<open>send\<close> is discarded\<close>
  bc_receivers :: "'h \<Rightarrow> 'w \<Rightarrow> 'r list"  \<comment> \<open>specification: the channel's live receivers\<close>
  bc_queue :: "'r \<Rightarrow> 'w \<Rightarrow> event list"  \<comment> \<open>specification: what the receiver will get\<close>

record 'h hub =
  hub_topics :: "string \<rightharpoonup> 'h"

definition hub_new :: "'h hub" where
  "hub_new = \<lparr>hub_topics = Map.empty\<rparr>"

definition hub_default :: "'h hub" where
  "hub_default = hub_new"

text \<open>\<open>entry(..).or_insert_with(..)\<close>: the receiver that \<open>channel(64)\<close> returns is dropped at once.\<close>

definition hub_subscribe ::
    "('w, 'h, 'r) broadcast \<Rightarrow> string \<Rightarrow> 'h hub \<Rightarrow> 'w \<Rightarrow> 'r \<times> 'h hub \<times> 'w" where
  "hub_subscribe bc topic hub w =
     (let (tx, hub', w') = (case hub_topics hub topic of
            Some tx \<Rightarrow> (tx, hub, w)
          | None \<Rightarrow>
              let ((tx, rx0), w1) = bc_channel bc 64 w;
                  w2 = bc_drop bc rx0 w1
              in (tx, hub\<lparr>hub_topics := (hub_topics hub)(topic \<mapsto> tx)\<rparr>, w2));
          (rx, w'') = bc_subscribe bc tx w'
      in (rx, hub', w''))"

definition hub_unsubscribe :: "('w, 'h, 'r) broadcast \<Rightarrow> string \<Rightarrow> 'h hub \<Rightarrow> 'w \<Rightarrow> 'h hub" where
  "hub_unsubscribe bc topic hub w =
     (case hub_topics hub topic of
        None \<Rightarrow> hub
      | Some tx \<Rightarrow> if bc_receiver_count bc tx w = 0
          then hub\<lparr>hub_topics := (hub_topics hub)(topic := None)\<rparr> else hub)"

text \<open>\<open>unix_ms\<close> is the wall clock in milliseconds, cut to \<open>u64\<close> as \<open>as u64\<close> does.\<close>

definition hub_publish ::
    "('w, 'h, 'r) broadcast \<Rightarrow> nat \<Rightarrow> string \<Rightarrow> tlv_map \<Rightarrow> 'h hub \<Rightarrow> 'w \<Rightarrow> nat \<times> 'w" where
  "hub_publish bc unix_ms topic payload hub w =
     (let evt = \<lparr>ev_topic = topic, ev_payload = payload, ev_time = word_of_nat unix_ms\<rparr>
      in case hub_topics hub topic of
           Some tx \<Rightarrow> (bc_receiver_count bc tx w, bc_send bc tx evt w)
         | None \<Rightarrow> (0, w))"

definition topics :: "'h hub \<Rightarrow> string set" where
  "topics hub = dom (hub_topics hub)"

definition subscriber_count :: "('w, 'h, 'r) broadcast \<Rightarrow> string \<Rightarrow> 'h hub \<Rightarrow> 'w \<Rightarrow> nat" where
  "subscriber_count bc topic hub w =
     (case hub_topics hub topic of None \<Rightarrow> 0 | Some tx \<Rightarrow> bc_receiver_count bc tx w)"

interpretation hub_map: kv_store hub_topics hub_new "\<lambda>_. True"
    "\<lambda>t h hub. hub\<lparr>hub_topics := (hub_topics hub)(t \<mapsto> h)\<rparr>"
  by unfold_locales (simp_all add: hub_new_def)

section \<open>What the hub relies on\<close>

text \<open>
  The documented behaviour of \<open>tokio::sync::broadcast\<close>, on the worlds that satisfy an invariant
  \<open>ok\<close> with a set \<open>live\<close> of channels: a new channel is a new one, with one receiver; subscribing
  adds a receiver that has nothing queued; dropping removes it from its own channel; the count is
  the number of receivers; a send appends the event for the receivers of that channel (who keep
  the last \<open>64\<close>), and nothing for others.
\<close>

definition channel_law :: "('w, 'h, 'r) broadcast \<Rightarrow> ('w \<Rightarrow> bool) \<Rightarrow> ('w \<Rightarrow> 'h set) \<Rightarrow> bool" where
  "channel_law bc ok live \<longleftrightarrow> (\<forall>w h r w'. ok w \<longrightarrow> bc_channel bc 64 w = ((h, r), w') \<longrightarrow>
     ok w' \<and> h \<notin> live w \<and> live w' = insert h (live w) \<and> bc_receivers bc h w' = [r] \<and>
     (\<forall>g \<in> live w. bc_receivers bc g w' = bc_receivers bc g w \<and> r \<notin> set (bc_receivers bc g w)) \<and>
     (\<forall>q. q \<noteq> r \<longrightarrow> bc_queue bc q w' = bc_queue bc q w))"

definition subscribe_law :: "('w, 'h, 'r) broadcast \<Rightarrow> ('w \<Rightarrow> bool) \<Rightarrow> ('w \<Rightarrow> 'h set) \<Rightarrow> bool" where
  "subscribe_law bc ok live \<longleftrightarrow> (\<forall>w h r w'. ok w \<longrightarrow> h \<in> live w \<longrightarrow> bc_subscribe bc h w = (r, w') \<longrightarrow>
     ok w' \<and> live w' = live w \<and> bc_receivers bc h w' = r # bc_receivers bc h w \<and> bc_queue bc r w' = [] \<and>
     (\<forall>g \<in> live w. r \<notin> set (bc_receivers bc g w)) \<and>
     (\<forall>g \<in> live w - {h}. bc_receivers bc g w' = bc_receivers bc g w) \<and>
     (\<forall>q. q \<noteq> r \<longrightarrow> bc_queue bc q w' = bc_queue bc q w))"

definition drop_law :: "('w, 'h, 'r) broadcast \<Rightarrow> ('w \<Rightarrow> bool) \<Rightarrow> ('w \<Rightarrow> 'h set) \<Rightarrow> bool" where
  "drop_law bc ok live \<longleftrightarrow> (\<forall>w r. ok w \<longrightarrow> ok (bc_drop bc r w) \<and> live (bc_drop bc r w) = live w \<and>
     (\<forall>g \<in> live w. bc_receivers bc g (bc_drop bc r w) = removeAll r (bc_receivers bc g w)) \<and>
     (\<forall>q. q \<noteq> r \<longrightarrow> bc_queue bc q (bc_drop bc r w) = bc_queue bc q w))"

definition count_law :: "('w, 'h, 'r) broadcast \<Rightarrow> ('w \<Rightarrow> bool) \<Rightarrow> ('w \<Rightarrow> 'h set) \<Rightarrow> bool" where
  "count_law bc ok live \<longleftrightarrow> (\<forall>w h. ok w \<longrightarrow> h \<in> live w \<longrightarrow>
     bc_receiver_count bc h w = length (bc_receivers bc h w))"

definition send_law :: "('w, 'h, 'r) broadcast \<Rightarrow> ('w \<Rightarrow> bool) \<Rightarrow> ('w \<Rightarrow> 'h set) \<Rightarrow> bool" where
  "send_law bc ok live \<longleftrightarrow> (\<forall>w h e. ok w \<longrightarrow> h \<in> live w \<longrightarrow>
     ok (bc_send bc h e w) \<and> live (bc_send bc h e w) = live w \<and>
     (\<forall>g \<in> live w. bc_receivers bc g (bc_send bc h e w) = bc_receivers bc g w) \<and>
     (\<forall>r. bc_queue bc r (bc_send bc h e w) =
        (if r \<in> set (bc_receivers bc h w)
         then drop (length (bc_queue bc r w) - 63) (bc_queue bc r w) @ [e] else bc_queue bc r w)))"

definition disjoint_law :: "('w, 'h, 'r) broadcast \<Rightarrow> ('w \<Rightarrow> bool) \<Rightarrow> ('w \<Rightarrow> 'h set) \<Rightarrow> bool" where
  "disjoint_law bc ok live \<longleftrightarrow> (\<forall>w g h. ok w \<longrightarrow> g \<in> live w \<longrightarrow> h \<in> live w \<longrightarrow> g \<noteq> h \<longrightarrow>
     set (bc_receivers bc g w) \<inter> set (bc_receivers bc h w) = {})"

definition broadcast_ok :: "('w, 'h, 'r) broadcast \<Rightarrow> ('w \<Rightarrow> bool) \<Rightarrow> ('w \<Rightarrow> 'h set) \<Rightarrow> bool" where
  "broadcast_ok bc ok live \<longleftrightarrow> channel_law bc ok live \<and> subscribe_law bc ok live \<and> drop_law bc ok live \<and>
     count_law bc ok live \<and> send_law bc ok live \<and> disjoint_law bc ok live"

lemma bc_channel_ok:
  assumes "broadcast_ok bc ok live" "ok w" "bc_channel bc 64 w = ((h, r), w')"
  shows "ok w' \<and> h \<notin> live w \<and> live w' = insert h (live w) \<and> bc_receivers bc h w' = [r] \<and>
     (\<forall>g \<in> live w. bc_receivers bc g w' = bc_receivers bc g w \<and> r \<notin> set (bc_receivers bc g w)) \<and>
     (\<forall>q. q \<noteq> r \<longrightarrow> bc_queue bc q w' = bc_queue bc q w)"
proof -
  have "channel_law bc ok live" using assms(1) by (simp add: broadcast_ok_def)
  from this [unfolded channel_law_def, THEN spec, of w, THEN spec, of h, THEN spec, of r, THEN spec, of w', THEN mp, OF assms(2), THEN mp, OF assms(3)] show ?thesis .
qed

lemma bc_subscribe_ok:
  assumes "broadcast_ok bc ok live" "ok w" "h \<in> live w" "bc_subscribe bc h w = (r, w')"
  shows "ok w' \<and> live w' = live w \<and> bc_receivers bc h w' = r # bc_receivers bc h w \<and> bc_queue bc r w' = [] \<and>
     (\<forall>g \<in> live w. r \<notin> set (bc_receivers bc g w)) \<and>
     (\<forall>g \<in> live w - {h}. bc_receivers bc g w' = bc_receivers bc g w) \<and>
     (\<forall>q. q \<noteq> r \<longrightarrow> bc_queue bc q w' = bc_queue bc q w)"
proof -
  have "subscribe_law bc ok live" using assms(1) by (simp add: broadcast_ok_def)
  from this [unfolded subscribe_law_def, THEN spec, of w, THEN spec, of h, THEN spec, of r, THEN spec, of w', THEN mp, OF assms(2), THEN mp, OF assms(3), THEN mp, OF assms(4)] show ?thesis .
qed

lemma bc_drop_ok:
  assumes "broadcast_ok bc ok live" "ok w"
  shows "ok (bc_drop bc r w) \<and> live (bc_drop bc r w) = live w \<and>
     (\<forall>g \<in> live w. bc_receivers bc g (bc_drop bc r w) = removeAll r (bc_receivers bc g w)) \<and>
     (\<forall>q. q \<noteq> r \<longrightarrow> bc_queue bc q (bc_drop bc r w) = bc_queue bc q w)"
proof -
  have "drop_law bc ok live" using assms(1) by (simp add: broadcast_ok_def)
  from this [unfolded drop_law_def, THEN spec, of w, THEN spec, of r, THEN mp, OF assms(2)] show ?thesis .
qed

lemma bc_count_ok:
  "broadcast_ok bc ok live \<Longrightarrow> ok w \<Longrightarrow> h \<in> live w \<Longrightarrow>
     bc_receiver_count bc h w = length (bc_receivers bc h w)"
  unfolding broadcast_ok_def count_law_def by presburger

lemma bc_send_ok:
  assumes "broadcast_ok bc ok live" "ok w" "h \<in> live w"
  shows "ok (bc_send bc h e w) \<and> live (bc_send bc h e w) = live w \<and>
     (\<forall>g \<in> live w. bc_receivers bc g (bc_send bc h e w) = bc_receivers bc g w) \<and>
     (\<forall>r. bc_queue bc r (bc_send bc h e w) =
        (if r \<in> set (bc_receivers bc h w)
         then drop (length (bc_queue bc r w) - 63) (bc_queue bc r w) @ [e] else bc_queue bc r w))"
proof -
  have "send_law bc ok live" using assms(1) by (simp add: broadcast_ok_def)
  from this [unfolded send_law_def, THEN spec, of w, THEN spec, of h, THEN spec, of e, THEN mp, OF assms(2), THEN mp, OF assms(3)] show ?thesis .
qed

lemma bc_disjoint:
  "broadcast_ok bc ok live \<Longrightarrow> ok w \<Longrightarrow> g \<in> live w \<Longrightarrow> h \<in> live w \<Longrightarrow> g \<noteq> h \<Longrightarrow>
     set (bc_receivers bc g w) \<inter> set (bc_receivers bc h w) = {}"
  unfolding broadcast_ok_def disjoint_law_def by presburger

section \<open>Reachable hubs\<close>

inductive hub_reach ::
    "('w, 'h, 'r) broadcast \<Rightarrow> ('w \<Rightarrow> bool) \<Rightarrow> 'h hub \<Rightarrow> 'w \<Rightarrow> bool" for bc ok where
  reach_new: "ok w \<Longrightarrow> hub_reach bc ok hub_new w"
| reach_subscribe: "hub_reach bc ok hub w \<Longrightarrow> hub_subscribe bc topic hub w = (rx, hub', w') \<Longrightarrow>
    hub_reach bc ok hub' w'"
| reach_unsubscribe: "hub_reach bc ok hub w \<Longrightarrow> hub_reach bc ok (hub_unsubscribe bc topic hub w) w"
| reach_publish: "hub_reach bc ok hub w \<Longrightarrow> hub_reach bc ok hub (snd (hub_publish bc ms topic payload hub w))"
| reach_drop: "hub_reach bc ok hub w \<Longrightarrow> hub_reach bc ok hub (bc_drop bc rx w)"

text \<open>The invariant: topics have live channels of their own.\<close>

definition hub_inv :: "('w \<Rightarrow> bool) \<Rightarrow> ('w \<Rightarrow> 'h set) \<Rightarrow> 'h hub \<Rightarrow> 'w \<Rightarrow> bool" where
  "hub_inv ok live hub w \<longleftrightarrow> ok w \<and> ran (hub_topics hub) \<subseteq> live w \<and>
     (\<forall>t u h. hub_topics hub t = Some h \<and> hub_topics hub u = Some h \<longrightarrow> t = u)"

lemma hub_invD:
  assumes "hub_inv ok live hub w"
  shows "ok w" "hub_topics hub t = Some h \<Longrightarrow> h \<in> live w"
    "hub_topics hub t = Some h \<Longrightarrow> hub_topics hub u = Some h \<Longrightarrow> t = u"
  using assms by (auto simp: hub_inv_def intro: ranI)

text \<open>The channel of a topic, made when it is missing.\<close>

definition topic_channel ::
    "('w, 'h, 'r) broadcast \<Rightarrow> string \<Rightarrow> 'h hub \<Rightarrow> 'w \<Rightarrow> 'h \<times> 'h hub \<times> 'w" where
  "topic_channel bc topic hub w = (case hub_topics hub topic of
       Some tx \<Rightarrow> (tx, hub, w)
     | None \<Rightarrow> let ((tx, rx0), w1) = bc_channel bc 64 w
               in (tx, hub\<lparr>hub_topics := (hub_topics hub)(topic \<mapsto> tx)\<rparr>, bc_drop bc rx0 w1))"

lemma hub_subscribe_eq: "hub_subscribe bc topic hub w =
    (let (tx, hub', w') = topic_channel bc topic hub w; (rx, w'') = bc_subscribe bc tx w' in (rx, hub', w''))"
  by (simp add: hub_subscribe_def topic_channel_def Let_def split: option.split prod.split)

lemma topic_channel_ok:
  assumes bc: "broadcast_ok bc ok live" and inv: "hub_inv ok live hub w"
    and c: "topic_channel bc topic hub w = (tx, hub', w')"
  shows "hub_inv ok live hub' w' \<and> hub_topics hub' = (hub_topics hub)(topic \<mapsto> tx) \<and>
    live w \<subseteq> live w' \<and> (\<forall>g \<in> live w. bc_receivers bc g w' = bc_receivers bc g w \<and>
      (\<forall>q \<in> set (bc_receivers bc g w). bc_queue bc q w' = bc_queue bc q w)) \<and>
    (hub_topics hub topic = None \<longrightarrow> bc_receivers bc tx w' = [])"
proof (cases "hub_topics hub topic")
  case (Some h)
  then show ?thesis using inv c by (simp add: topic_channel_def fun_upd_idem)
next
  case None
  obtain h r w1 where ch: "bc_channel bc 64 w = ((h, r), w1)" by (metis prod.exhaust)
  then have res: "tx = h" "hub' = hub\<lparr>hub_topics := (hub_topics hub)(topic \<mapsto> h)\<rparr>" "w' = bc_drop bc r w1"
    using c None by (auto simp: topic_channel_def)
  note C = bc_channel_ok [OF bc hub_invD(1) [OF inv] ch]
  have ok1: "ok w1" using C by blast
  note D = bc_drop_ok [OF bc ok1, of r]
  have "hub_inv ok live hub' w'"
    using C D inv res None unfolding hub_inv_def by (auto simp: ran_def)
  moreover have "live w \<subseteq> live w'" using C D res by blast
  moreover have "bc_receivers bc g w' = bc_receivers bc g w \<and>
      (\<forall>q \<in> set (bc_receivers bc g w). bc_queue bc q w' = bc_queue bc q w)" if "g \<in> live w" for g
  proof -
    have g: "bc_receivers bc g w1 = bc_receivers bc g w" "r \<notin> set (bc_receivers bc g w)" "g \<in> live w1"
      using C that by auto
    then have "bc_receivers bc g w' = bc_receivers bc g w" using D res(3) by simp
    moreover have "bc_queue bc q w' = bc_queue bc q w" if "q \<in> set (bc_receivers bc g w)" for q
    proof -
      have "q \<noteq> r" using that g(2) by blast
      then show ?thesis using C D res(3) by simp
    qed
    ultimately show ?thesis by blast
  qed
  moreover have "bc_receivers bc tx w' = []" using C D res by simp
  ultimately show ?thesis using res(1,2) by simp
qed

lemma hub_subscribe_ok:
  assumes bc: "broadcast_ok bc ok live" and inv: "hub_inv ok live hub w"
    and s: "hub_subscribe bc topic hub w = (rx, hub', w')"
  shows "hub_inv ok live hub' w' \<and>
    (\<exists>tx. hub_topics hub' = (hub_topics hub)(topic \<mapsto> tx) \<and>
      bc_receivers bc tx w' = rx # (if hub_topics hub topic = None then [] else bc_receivers bc tx w)) \<and>
    bc_queue bc rx w' = [] \<and>
    (\<forall>t h. hub_topics hub t = Some h \<longrightarrow> rx \<notin> set (bc_receivers bc h w) \<and>
      (t \<noteq> topic \<longrightarrow> bc_receivers bc h w' = bc_receivers bc h w) \<and>
      (\<forall>q \<in> set (bc_receivers bc h w). bc_queue bc q w' = bc_queue bc q w))"
proof -
  obtain tx w1 where c: "topic_channel bc topic hub w = (tx, hub', w1)" and sub: "bc_subscribe bc tx w1 = (rx, w')"
    using s by (auto simp: hub_subscribe_eq Let_def split: prod.splits)
  note T = topic_channel_ok [OF bc inv c]
  have inv1: "hub_inv ok live hub' w1" and t: "hub_topics hub' = (hub_topics hub)(topic \<mapsto> tx)" using T by auto
  have tx: "tx \<in> live w1" using hub_invD(2) [OF inv1, of topic tx] t by simp
  note S = bc_subscribe_ok [OF bc hub_invD(1) [OF inv1] tx sub]
  have "hub_inv ok live hub' w'" using S inv1 by (simp add: hub_inv_def)
  moreover have "bc_receivers bc tx w' = rx # (if hub_topics hub topic = None then [] else bc_receivers bc tx w)"
  proof (cases "hub_topics hub topic")
    case (Some h)
    then have "h = tx" "w1 = w" using c by (simp_all add: topic_channel_def)
    then show ?thesis using S Some by simp
  qed (use S T in simp)
  moreover have "rx \<notin> set (bc_receivers bc h w) \<and>
      (u \<noteq> topic \<longrightarrow> bc_receivers bc h w' = bc_receivers bc h w) \<and>
      (\<forall>q \<in> set (bc_receivers bc h w). bc_queue bc q w' = bc_queue bc q w)"
    if h: "hub_topics hub u = Some h" for u h
  proof -
    have g: "h \<in> live w1" "bc_receivers bc h w1 = bc_receivers bc h w"
      "\<And>q. q \<in> set (bc_receivers bc h w) \<Longrightarrow> bc_queue bc q w1 = bc_queue bc q w"
      using T hub_invD(2) [OF inv h] by auto
    have rx: "rx \<notin> set (bc_receivers bc h w)" using S g(1,2) by auto
    have "h \<noteq> tx" if "u \<noteq> topic" using hub_invD(3) [OF inv1, of u h topic] t h that by auto
    then have "u \<noteq> topic \<longrightarrow> bc_receivers bc h w' = bc_receivers bc h w" using S g(1,2) by simp
    moreover have "bc_queue bc q w' = bc_queue bc q w" if "q \<in> set (bc_receivers bc h w)" for q
    proof -
      have "q \<noteq> rx" using that rx by blast
      then show ?thesis using S g(3) [OF that] by simp
    qed
    ultimately show ?thesis using rx by blast
  qed
  ultimately show ?thesis using S t by blast
qed

lemma hub_reach_inv:
  assumes "hub_reach bc ok hub w" and bc: "broadcast_ok bc ok live"
  shows "hub_inv ok live hub w"
  using assms(1)
proof (induction rule: hub_reach.induct)
  case (reach_new w)
  then show ?case by (simp add: hub_inv_def hub_new_def)
next
  case (reach_subscribe hub w topic rx hub' w')
  then show ?case using hub_subscribe_ok [OF bc] by blast
next
  case (reach_unsubscribe hub w topic)
  then show ?case by (auto simp: hub_inv_def hub_unsubscribe_def ran_def split: option.splits if_splits)
next
  case (reach_publish hub w ms topic payload)
  then show ?case
    using bc_send_ok [OF bc hub_invD(1,2) [OF reach_publish.IH]]
    by (auto simp: hub_publish_def Let_def hub_inv_def split: option.splits)
next
  case (reach_drop hub w rx)
  then show ?case using bc_drop_ok [OF bc hub_invD(1) [OF reach_drop.IH], of rx] by (simp add: hub_inv_def)
qed

text \<open>The receivers subscribed to a topic.\<close>

definition subscribers :: "('w, 'h, 'r) broadcast \<Rightarrow> string \<Rightarrow> 'h hub \<Rightarrow> 'w \<Rightarrow> 'r list" where
  "subscribers bc topic hub w =
     (case hub_topics hub topic of None \<Rightarrow> [] | Some tx \<Rightarrow> bc_receivers bc tx w)"

lemma subscriber_count_eq:
  "broadcast_ok bc ok live \<Longrightarrow> hub_inv ok live hub w \<Longrightarrow>
     subscriber_count bc topic hub w = length (subscribers bc topic hub w)"
  by (auto simp: subscriber_count_def subscribers_def dest: hub_invD intro!: bc_count_ok split: option.split)

section \<open>A concrete channel world\<close>

text \<open>
  Channels and receivers numbered from one counter; a world is the counter, the channels made, the
  receivers of each and the queue of each receiver. It satisfies \<open>broadcast_ok\<close>.
\<close>

type_synonym toy_world = "nat \<times> nat list \<times> (nat \<Rightarrow> nat list) \<times> (nat \<Rightarrow> event list)"

definition toy_bc :: "(toy_world, nat, nat) broadcast" where
  "toy_bc =
     \<lparr>bc_channel = (\<lambda>cap (n, hs, rs, qs). ((n, n), (n + 1, n # hs, rs(n := [n]), qs(n := [])))),
      bc_subscribe = (\<lambda>h (n, hs, rs, qs). (n, (n + 1, hs, rs(h := n # rs h), qs(n := [])))),
      bc_drop = (\<lambda>r (n, hs, rs, qs). (n, hs, (\<lambda>h. removeAll r (rs h)), qs)),
      bc_receiver_count = (\<lambda>h (n, hs, rs, qs). length (rs h)),
      bc_send = (\<lambda>h e (n, hs, rs, qs). (n, hs, rs,
         (\<lambda>r. if r \<in> set (rs h) then drop (length (qs r) - 63) (qs r) @ [e] else qs r))),
      bc_receivers = (\<lambda>h (n, hs, rs, qs). rs h),
      bc_queue = (\<lambda>r (n, hs, rs, qs). qs r)\<rparr>"

definition toy_live :: "toy_world \<Rightarrow> nat set" where
  "toy_live w = set (fst (snd w))"

definition toy_ok :: "toy_world \<Rightarrow> bool" where
  "toy_ok w \<longleftrightarrow> (\<forall>h \<in> toy_live w. h < fst w \<and> (\<forall>r \<in> set (fst (snd (snd w)) h). r < fst w)) \<and>
     (\<forall>g \<in> toy_live w. \<forall>h \<in> toy_live w. g \<noteq> h \<longrightarrow>
        set (fst (snd (snd w)) g) \<inter> set (fst (snd (snd w)) h) = {})"

lemma toy_okD:
  assumes "toy_ok (n, hs, rs, qs)"
  shows "h \<in> set hs \<Longrightarrow> h < n" "h \<in> set hs \<Longrightarrow> r \<in> set (rs h) \<Longrightarrow> r < n"
    "n \<notin> set hs" "h \<in> set hs \<Longrightarrow> n \<notin> set (rs h)" "h \<in> set hs \<Longrightarrow> h \<noteq> n"
    "g \<in> set hs \<Longrightarrow> h \<in> set hs \<Longrightarrow> g \<noteq> h \<Longrightarrow> set (rs g) \<inter> set (rs h) = {}"
  using assms by (auto simp: toy_ok_def toy_live_def)

lemma toy_okI:
  assumes "\<And>h. h \<in> set hs \<Longrightarrow> h < n" "\<And>h r. h \<in> set hs \<Longrightarrow> r \<in> set (rs h) \<Longrightarrow> r < n"
    and "\<And>g h. g \<in> set hs \<Longrightarrow> h \<in> set hs \<Longrightarrow> g \<noteq> h \<Longrightarrow> set (rs g) \<inter> set (rs h) = {}"
  shows "toy_ok (n, hs, rs, qs)"
  using assms unfolding toy_ok_def toy_live_def by simp

lemma toy_channel_ok: "toy_ok (n, hs, rs, qs) \<Longrightarrow> toy_ok (Suc n, n # hs, rs(n := [n]), qs')"
  by (rule toy_okI) (auto dest: toy_okD split: if_splits intro: less_SucI)

lemma toy_subscribe_ok:
  "toy_ok (n, hs, rs, qs) \<Longrightarrow> h \<in> set hs \<Longrightarrow> toy_ok (Suc n, hs, rs(h := n # rs h), qs')"
  by (rule toy_okI) (auto dest: toy_okD split: if_splits intro: less_SucI)

lemma toy_drop_ok: "toy_ok (n, hs, rs, qs) \<Longrightarrow> toy_ok (n, hs, \<lambda>h. removeAll r (rs h), qs')"
  by (rule toy_okI) (auto dest: toy_okD)

lemma toy_broadcast_ok: "broadcast_ok toy_bc toy_ok toy_live"
proof -
  have "channel_law toy_bc toy_ok toy_live"
    unfolding channel_law_def
    by (auto simp: toy_bc_def toy_live_def toy_channel_ok dest: toy_okD(3-5))
  moreover have "subscribe_law toy_bc toy_ok toy_live"
    unfolding subscribe_law_def
    by (auto simp: toy_bc_def toy_live_def toy_subscribe_ok dest: toy_okD(3-5))
  moreover have "drop_law toy_bc toy_ok toy_live"
    unfolding drop_law_def by (auto simp: toy_bc_def toy_live_def toy_drop_ok)
  moreover have "count_law toy_bc toy_ok toy_live"
    unfolding count_law_def by (auto simp: toy_bc_def)
  moreover have "send_law toy_bc toy_ok toy_live"
    unfolding send_law_def by (auto simp: toy_bc_def toy_live_def toy_ok_def)
  moreover have "disjoint_law toy_bc toy_ok toy_live"
    unfolding disjoint_law_def by (auto simp: toy_bc_def toy_live_def dest: toy_okD(6))
  ultimately show ?thesis unfolding broadcast_ok_def by blast
qed

definition toy_start :: toy_world where
  "toy_start = (0, [], \<lambda>_. [], \<lambda>_. [])"

lemma toy_start_ok: "hub_reach toy_bc toy_ok hub_new toy_start"
  by (rule reach_new) (simp add: toy_ok_def toy_live_def toy_start_def)

section \<open>Properties\<close>

text \<open>
  Publishing: the number of subscribers of the topic is returned and the event is queued for exactly
  those, behind at most 63 earlier events of each; the subscriptions stay as they are.
\<close>

lemma hub_publish_ok:
  assumes "broadcast_ok bc ok live" and "hub_reach bc ok hub w"
    and "hub_publish bc ms topic payload hub w = (n, w')"
  shows "n = subscriber_count bc topic hub w \<and>
    (\<forall>t. subscribers bc t hub w' = subscribers bc t hub w) \<and>
    (\<forall>rx. bc_queue bc rx w' = (if rx \<in> set (subscribers bc topic hub w)
       then drop (length (bc_queue bc rx w) - 63) (bc_queue bc rx w) @
         [\<lparr>ev_topic = topic, ev_payload = payload, ev_time = word_of_nat ms\<rparr>]
       else bc_queue bc rx w))"
proof (cases "hub_topics hub topic")
  case None
  then show ?thesis using assms(3) by (simp add: hub_publish_def subscriber_count_def subscribers_def Let_def)
next
  case (Some tx)
  let ?e = "\<lparr>ev_topic = topic, ev_payload = payload, ev_time = word_of_nat ms\<rparr>"
  have inv: "hub_inv ok live hub w" by (rule hub_reach_inv [OF assms(2,1)])
  note S = bc_send_ok [OF assms(1) hub_invD(1) [OF inv] hub_invD(2) [OF inv Some], of ?e]
  have w': "n = bc_receiver_count bc tx w" "w' = bc_send bc tx ?e w"
    using assms(3) Some by (simp_all add: hub_publish_def Let_def)
  have "subscribers bc t hub w' = subscribers bc t hub w" for t
    using S hub_invD(2) [OF inv, of t] w'(2) by (simp add: subscribers_def split: option.split)
  then show ?thesis using S w' Some by (simp add: subscriber_count_def subscribers_def)
qed

text \<open>
  C40. Subscribing and unsubscribing. A new subscriber of a topic is a receiver nobody had, with
  nothing queued, and is added to that topic's subscribers alone. \<open>unsubscribe\<close> changes no
  subscription: it forgets a topic exactly when nobody is subscribed to it, so until it is called
  \<open>topics\<close> lists topics without subscribers.
\<close>

theorem subscriptions_spec:
  assumes "broadcast_ok bc ok live" and "hub_reach bc ok hub w"
    and "hub_subscribe bc topic hub w = (rx, hub', w')"
  shows "(\<forall>t. subscribers bc t hub' w' = (if t = topic then rx # subscribers bc t hub w else subscribers bc t hub w)) \<and>
    bc_queue bc rx w' = [] \<and> (\<forall>t. rx \<notin> set (subscribers bc t hub w)) \<and> topic \<in> topics hub' \<and>
    (\<forall>t u. subscribers bc t (hub_unsubscribe bc u hub w) w = subscribers bc t hub w) \<and>
    (\<forall>t. topics (hub_unsubscribe bc t hub w) =
       (if subscribers bc t hub w = [] then topics hub - {t} else topics hub))"
proof -
  have inv: "hub_inv ok live hub w" by (rule hub_reach_inv [OF assms(2,1)])
  note S = hub_subscribe_ok [OF assms(1) inv assms(3)]
  obtain tx where tx: "hub_topics hub' = (hub_topics hub)(topic \<mapsto> tx)"
    "bc_receivers bc tx w' = rx # (if hub_topics hub topic = None then [] else bc_receivers bc tx w)"
    using S by blast
  have same: "hub_topics hub topic = Some h \<Longrightarrow> h = tx" for h
    using assms(3) tx(1) by (auto simp: hub_subscribe_def Let_def split: prod.splits dest: fun_cong [of _ _ topic])
  have "subscribers bc t hub' w' = (if t = topic then rx # subscribers bc t hub w else subscribers bc t hub w)" for t
    using tx S same by (auto simp: subscribers_def split: option.split)
  moreover have "rx \<notin> set (subscribers bc t hub w)" for t
    using S by (auto simp: subscribers_def split: option.split)
  moreover have "topic \<in> topics hub'" using tx(1) by (simp add: topics_def)
  moreover have "subscribers bc t (hub_unsubscribe bc u hub w) w = subscribers bc t hub w"
    "topics (hub_unsubscribe bc u hub w) = (if subscribers bc u hub w = [] then topics hub - {u} else topics hub)" for t u
    using subscriber_count_eq [OF assms(1) inv, of u]
    by (auto simp: hub_unsubscribe_def subscribers_def subscriber_count_def topics_def split: option.splits)
  ultimately show ?thesis using S by blast
qed

theorem subscriptions_spec_witness:
  "\<forall>t. subscribers toy_bc t (fst (snd (hub_subscribe toy_bc ''chat'' hub_new toy_start)))
      (snd (snd (hub_subscribe toy_bc ''chat'' hub_new toy_start))) =
    (if t = ''chat'' then [fst (hub_subscribe toy_bc ''chat'' hub_new toy_start)] else [])"
proof -
  obtain rx hub w where s: "hub_subscribe toy_bc ''chat'' hub_new toy_start = (rx, hub, w)"
    by (metis prod.exhaust)
  have none: "subscribers toy_bc t hub_new toy_start = []" for t
    by (simp add: subscribers_def hub_new_def)
  show ?thesis
    using subscriptions_spec [OF toy_broadcast_ok toy_start_ok s] s none by simp
qed

end
