(* ===== verification/Hush_Crud.thy ===== *)
theory Hush_Crud
  imports Hush_Middleware Hush_Tlv_Encode
begin

text \<open>
  The note service of \<open>examples/crud.rs\<close>: its five handlers over the state their closures share, a
  map of notes and the counter of identifiers. They are handlers as the server registers them, so
  they show the handler contract on code of the repository.
\<close>

record crud =
  cr_notes :: "u64 \<rightharpoonup> string"
  cr_next_id :: u64

definition crud_init :: crud where
  "crud_init = \<lparr>cr_notes = Map.empty, cr_next_id = 1\<rparr>"

definition reply :: "status_code \<Rightarrow> tlv_map \<Rightarrow> outcome" where
  "reply status m = Returns (Ok \<lparr>resp_status = status, resp_payload = Some m, resp_seq = 0\<rparr>)"

definition reply_error :: "status_code \<Rightarrow> string \<Rightarrow> outcome" where
  "reply_error status msg = reply status (map_set ''error'' (String msg) map_new)"

text \<open>0x0001, Create.\<close>

definition crud_create :: "crud sync_handler" where
  "crud_create req s =
     (case get_string (sr_payload req) ''text'' of
        None \<Rightarrow> (reply_error BadRequest ''text required'', s)
      | Some text \<Rightarrow>
          let i = cr_next_id s;
              s' = s\<lparr>cr_next_id := cr_next_id s + 1, cr_notes := (cr_notes s)(i \<mapsto> text)\<rparr>
          in (reply Success (map_set ''id'' (Uint64 i) map_new), s'))"

text \<open>
  0x0002, List. The iteration order of a \<open>HashMap\<close> is unspecified: \<open>entries\<close> enumerates a map in
  some order.
\<close>

definition note_item :: "u64 \<times> string \<Rightarrow> tlv_value" where
  "note_item e = (case e of (i, text) \<Rightarrow>
     Map (map_set ''text'' (String text) (map_set ''id'' (Uint64 i) map_new)))"

definition crud_list :: "((u64 \<rightharpoonup> string) \<Rightarrow> (u64 \<times> string) list) \<Rightarrow> crud sync_handler" where
  "crud_list entries req s =
     (let snapshot = cr_notes s;
          items = map note_item (entries snapshot)
      in (reply Success (map_set ''count'' (Uint64 (word_of_nat (card (dom snapshot))))
            (map_set ''notes'' (Array items) map_new)), s))"

text \<open>\<open>match req.payload.get_uint64("id") { Some(id) if id != 0 => .. }\<close>\<close>

definition note_id :: "server_request \<Rightarrow> u64 option" where
  "note_id req = (case get_uint64 (sr_payload req) ''id'' of
     Some i \<Rightarrow> if i \<noteq> 0 then Some i else None | None \<Rightarrow> None)"

text \<open>0x0003, Get.\<close>

definition crud_get :: "crud sync_handler" where
  "crud_get req s =
     (case note_id req of
        None \<Rightarrow> (reply_error BadRequest ''id required'', s)
      | Some i \<Rightarrow>
          (case cr_notes s i of
             Some text \<Rightarrow>
               (reply Success (map_set ''text'' (String text) (map_set ''id'' (Uint64 i) map_new)), s)
           | None \<Rightarrow> (reply_error NotFound ''note not found'', s)))"

text \<open>0x0004, Update.\<close>

definition crud_update :: "crud sync_handler" where
  "crud_update req s =
     (case note_id req of
        None \<Rightarrow> (reply_error BadRequest ''id required'', s)
      | Some i \<Rightarrow>
          (case get_string (sr_payload req) ''text'' of
             None \<Rightarrow> (reply_error BadRequest ''text required'', s)
           | Some text \<Rightarrow>
               if cr_notes s i \<noteq> None
               then (reply Success (map_set ''updated'' (Bool True) (map_set ''id'' (Uint64 i) map_new)),
                     s\<lparr>cr_notes := (cr_notes s)(i \<mapsto> text)\<rparr>)
               else (reply_error NotFound ''note not found'', s)))"

text \<open>0x0005, Delete.\<close>

definition crud_delete :: "crud sync_handler" where
  "crud_delete req s =
     (case note_id req of
        None \<Rightarrow> (reply_error BadRequest ''id required'', s)
      | Some i \<Rightarrow>
          let existed = cr_notes s i \<noteq> None;
              s' = s\<lparr>cr_notes := (cr_notes s)(i := None)\<rparr>
          in (reply Success (map_set ''deleted'' (Bool existed) map_new), s'))"

section \<open>The service as a store of notes\<close>

text \<open>The requests a client makes, and the state after the service has handled a sequence of requests.\<close>

definition crud_table :: "((u64 \<rightharpoonup> string) \<Rightarrow> (u64 \<times> string) list) \<Rightarrow> u16 \<rightharpoonup> crud sync_handler" where
  "crud_table entries = [1 \<mapsto> crud_create, 2 \<mapsto> crud_list entries, 3 \<mapsto> crud_get, 4 \<mapsto> crud_update, 5 \<mapsto> crud_delete]"

definition crud_step :: "((u64 \<rightharpoonup> string) \<Rightarrow> (u64 \<times> string) list) \<Rightarrow> server_request \<Rightarrow> crud \<Rightarrow> crud" where
  "crud_step entries req s =
     (case crud_table entries (sr_opcode req) of None \<Rightarrow> s | Some h \<Rightarrow> snd (h req s))"

definition crud_run :: "((u64 \<rightharpoonup> string) \<Rightarrow> (u64 \<times> string) list) \<Rightarrow> server_request list \<Rightarrow> crud" where
  "crud_run entries reqs = fold (crud_step entries) reqs crud_init"

text \<open>Identifiers are handed out in sequence: those in use are below the number of creations.\<close>

definition crud_inv :: "nat \<Rightarrow> crud \<Rightarrow> bool" where
  "crud_inv n s \<longleftrightarrow> (\<exists>k \<le> n. cr_next_id s = word_of_nat (Suc k) \<and> dom (cr_notes s) \<subseteq> word_of_nat ` {1..k})"

lemmas handler_defs = crud_create_def crud_list_def crud_get_def crud_update_def crud_delete_def

lemma crud_step_cases:
  "cr_next_id (crud_step entries req s) = cr_next_id s \<and>
     dom (cr_notes (crud_step entries req s)) \<subseteq> dom (cr_notes s) \<or>
   cr_next_id (crud_step entries req s) = cr_next_id s + 1 \<and>
     dom (cr_notes (crud_step entries req s)) \<subseteq> insert (cr_next_id s) (dom (cr_notes s))"
  by (auto simp: crud_step_def crud_table_def handler_defs Let_def split: option.splits if_splits)

lemma crud_inv_grow:
  assumes "crud_inv n s" and "cr_next_id s' = cr_next_id s + 1"
    and "dom (cr_notes s') \<subseteq> insert (cr_next_id s) (dom (cr_notes s))"
  shows "crud_inv (Suc n) s'"
proof -
  obtain k where k: "k \<le> n" "cr_next_id s = word_of_nat (Suc k)" "dom (cr_notes s) \<subseteq> word_of_nat ` {1..k}"
    using assms(1) unfolding crud_inv_def by blast
  have "insert (word_of_nat (Suc k)) (word_of_nat ` {1..k}) \<subseteq> (word_of_nat ` {1..Suc k} :: u64 set)"
    by (force simp del: of_nat_Suc)
  moreover have "dom (cr_notes s') \<subseteq> insert (word_of_nat (Suc k)) (word_of_nat ` {1..k})"
    using assms(3) insert_mono [OF k(3)] unfolding k(2) by (rule order_trans)
  ultimately have d: "dom (cr_notes s') \<subseteq> word_of_nat ` {1..Suc k}" by (rule order_trans [rotated])
  have "cr_next_id s' = word_of_nat (Suc (Suc k))" using assms(2) k(2) by (simp add: add.commute)
  with d k(1) show ?thesis unfolding crud_inv_def by (intro exI [of _ "Suc k"] conjI) (simp, assumption+)
qed

lemma crud_step_inv:
  assumes "crud_inv n s"
  shows "crud_inv (Suc n) (crud_step entries req s)"
  using crud_step_cases [of entries req s]
proof (elim disjE conjE)
  assume a: "cr_next_id (crud_step entries req s) = cr_next_id s"
    "dom (cr_notes (crud_step entries req s)) \<subseteq> dom (cr_notes s)"
  obtain k where k: "k \<le> n" "cr_next_id s = word_of_nat (Suc k)" "dom (cr_notes s) \<subseteq> word_of_nat ` {1..k}"
    using assms unfolding crud_inv_def by blast
  show ?thesis unfolding crud_inv_def a(1)
    by (intro exI [of _ k] conjI le_SucI k order_trans [OF a(2)])
qed (rule crud_inv_grow [OF assms])

lemma crud_run_inv: "crud_inv (length reqs) (crud_run entries reqs)"
proof -
  have "crud_inv n s \<Longrightarrow> crud_inv (n + length reqs) (fold (crud_step entries) reqs s)" for n s
  proof (induction reqs arbitrary: n s)
    case (Cons req reqs)
    from Cons.IH [OF crud_step_inv [OF Cons.prems]] show ?case by simp
  qed simp
  from this [of 0 crud_init] show ?thesis by (simp add: crud_run_def crud_init_def crud_inv_def)
qed

text \<open>
  The note service. After any history of fewer than \<open>2^64 - 1\<close> requests, a \<open>Create\<close> with a text
  answers with an identifier that is not zero and names no note, and changes no other note; a \<open>Get\<close>
  of that identifier then returns the text, and after a \<open>Delete\<close> of it the answer is \<open>NotFound\<close>.
\<close>

theorem crud_create_get_delete:
  assumes "length reqs < 2 ^ 64 - 1" and "s = crud_run entries reqs"
    and "get_string (sr_payload req) ''text'' = Some text" and "crud_create req s = (out, s1)"
  shows "\<exists>i. i \<noteq> 0 \<and> cr_notes s i = None \<and> out = reply Success [(''id'', Uint64 i)] \<and>
    (\<forall>j. j \<noteq> i \<longrightarrow> cr_notes s1 j = cr_notes s j) \<and>
    (\<forall>get. get_uint64 (sr_payload get) ''id'' = Some i \<longrightarrow>
       crud_get get s1 = (reply Success [(''id'', Uint64 i), (''text'', String text)], s1) \<and>
       (\<forall>s2. crud_delete get s1 = (reply Success [(''deleted'', Bool True)], s2) \<longrightarrow>
          crud_get get s2 = (reply_error NotFound ''note not found'', s2)) \<and>
       (\<exists>s2. crud_delete get s1 = (reply Success [(''deleted'', Bool True)], s2)))"
proof -
  obtain k where k: "k < 2 ^ 64 - 1" "cr_next_id s = word_of_nat (Suc k)" "dom (cr_notes s) \<subseteq> word_of_nat ` {1..k}"
    using crud_run_inv [of reqs entries] assms(1,2) unfolding crud_inv_def by (meson le_less_trans)
  have n: "unat (word_of_nat (Suc k) :: u64) = Suc k" using k(1) by (simp only: unat_of_nat) simp
  then have nz: "cr_next_id s \<noteq> 0" using k(2) by (metis nat.distinct(1) unat_0)
  have "(word_of_nat (Suc k) :: u64) \<notin> word_of_nat ` {1..k}"
  proof
    assume "(word_of_nat (Suc k) :: u64) \<in> word_of_nat ` {1..k}"
    then obtain m where m: "m \<le> k" "(word_of_nat (Suc k) :: u64) = word_of_nat m" by auto
    have "unat (word_of_nat m :: u64) = m" using m(1) k(1) by (simp only: unat_of_nat) simp
    then show False using n m by simp
  qed
  then have fresh: "cr_notes s (cr_next_id s) = None" using k(2,3) by (auto simp: domIff)
  show ?thesis
    using assms(3,4) nz fresh
    by (intro exI [of _ "cr_next_id s"])
      (auto simp: crud_create_def crud_get_def crud_delete_def note_id_def Let_def map_new_def)
qed

theorem crud_create_get_delete_witness:
  "\<exists>i s1. crud_create \<lparr>sr_opcode = 1, sr_payload = [(''text'', String ''hi'')], sr_session_id = 1, sr_api_key_id = []\<rparr>
      (crud_run (\<lambda>_. []) []) = (reply Success [(''id'', Uint64 i)], s1) \<and>
    crud_get \<lparr>sr_opcode = 3, sr_payload = [(''id'', Uint64 i)], sr_session_id = 1, sr_api_key_id = []\<rparr> s1 =
      (reply Success [(''id'', Uint64 i), (''text'', String ''hi'')], s1)"
proof -
  let ?req = "\<lparr>sr_opcode = 1, sr_payload = [(''text'', String ''hi'')], sr_session_id = 1, sr_api_key_id = []\<rparr>"
  obtain out s1 where c: "crud_create ?req (crud_run (\<lambda>_. []) []) = (out, s1)" by fastforce
  have t: "get_string (sr_payload ?req) ''text'' = Some ''hi''" by (simp add: get_string_def map_get_def)
  have g: "get_uint64 (sr_payload \<lparr>sr_opcode = 3, sr_payload = [(''id'', Uint64 i)], sr_session_id = 1, sr_api_key_id = []\<rparr>)
      ''id'' = Some i" for i by (simp add: get_uint64_def map_get_def)
  from crud_create_get_delete [OF _ refl t c] obtain i where "out = reply Success [(''id'', Uint64 i)]"
    "\<forall>get. get_uint64 (sr_payload get) ''id'' = Some i \<longrightarrow>
       crud_get get s1 = (reply Success [(''id'', Uint64 i), (''text'', String ''hi'')], s1)" by auto
  then show ?thesis using c g by blast
qed

end
