(* ===== verification/Hush_Chat.thy ===== *)
theory Hush_Chat
  imports Hush_Hub Hush_Crud Hush_Server_Props
begin

text \<open>
  The chat of \<open>examples/chat.rs\<close>: a handler that publishes messages on the hub, and a streaming
  handler that forwards the events of a topic over its stream, one response frame each. The hub
  and the world of its channels are the application's state. What \<open>recv\<close> returns, one call after the
  other, is an argument (a list: when it is used up, the handler is waiting), and so is what other
  tasks do to the hub in the meantime. And the handler of \<open>examples/weather.rs\<close>.
\<close>

section \<open>Sending\<close>

text \<open>0x0001, Send message.\<close>

definition chat_send ::
    "('w, 'h, 'r) broadcast \<Rightarrow> nat \<Rightarrow> ('h hub \<times> 'w) sync_handler" where
  "chat_send bc unix_ms req hw =
     (case get_string (sr_payload req) ''nick'' of
        None \<Rightarrow> (reply_error BadRequest ''nick required'', hw)
      | Some nick \<Rightarrow>
          (case get_string (sr_payload req) ''message'' of
             None \<Rightarrow> (reply_error BadRequest ''message required'', hw)
           | Some msg \<Rightarrow>
               let (hub, w) = hw;
                   (n, w') = hub_publish bc unix_ms ''chat''
                     (map_set ''message'' (String msg) (map_set ''nick'' (String nick) map_new)) hub w
               in (reply Success (map_set ''sent'' (Bool True) map_new), (hub, w'))))"

section \<open>Subscribing\<close>

datatype recv_error = Lagged nat | ChannelClosed

definition chat_ack :: "string \<Rightarrow> response" where
  "chat_ack topic = \<lparr>resp_status = Success,
     resp_payload = Some (map_set ''topic'' (String topic) (map_set ''event'' (String ''subscribed'') map_new)),
     resp_seq = 0\<rparr>"

definition chat_message :: "event \<Rightarrow> u32 \<Rightarrow> response" where
  "chat_message evt seq = \<lparr>resp_status = Success,
     resp_payload = Some (map_set ''payload'' (Map (ev_payload evt)) (map_set ''topic'' (String (ev_topic evt))
       (map_set ''event'' (String ''message'') map_new))),
     resp_seq = seq\<rparr>"

text \<open>The loop of the handler; \<open>nonces\<close> are the random nonces drawn from the \<open>i\<close>th on.\<close>

fun chat_deliver ::
    "crypto \<Rightarrow> (nat \<Rightarrow> bytes) \<Rightarrow> nat \<Rightarrow> bytes \<Rightarrow> u32 \<Rightarrow> (recv_error + event) list \<Rightarrow> conn \<Rightarrow> conn" where
  "chat_deliver cr nonces i key seq [] c = c"
| "chat_deliver cr nonces i key seq (Ok evt # rest) c =
     (let resp = chat_message evt seq;
          (_, c') = stream_write_response cr (nonces i) c key (resp_seq resp) resp
      in chat_deliver cr nonces (i + 1) key (seq + 1) rest c')"
| "chat_deliver cr nonces i key seq (Err e # rest) c = c"

text \<open>
  0x0002, Subscribe to chat. When the handler returns, its receiver is dropped.
\<close>

definition chat_subscribe ::
    "crypto \<Rightarrow> ('w, 'h, 'r) broadcast \<Rightarrow> (nat \<Rightarrow> bytes) \<Rightarrow> ('r \<Rightarrow> (recv_error + event) list) \<Rightarrow>
       ('r \<Rightarrow> 'h hub \<times> 'w \<Rightarrow> 'h hub \<times> 'w) \<Rightarrow> ('h hub \<times> 'w) stream_handler" where
  "chat_subscribe cr bc nonces recvs others req stream key hw =
     (let topic = (case get_string (sr_payload req) ''topic'' of None \<Rightarrow> ''chat'' | Some t \<Rightarrow> t);
          (rx, hub', w') = hub_subscribe bc topic (fst hw) (snd hw);
          ack = chat_ack topic;
          (r, c1) = stream_write_response cr (nonces 0) stream key 0 ack
      in case r of
           Err e \<Rightarrow> (c1, (hub', bc_drop bc rx w'))
         | Ok _ \<Rightarrow>
             let c2 = chat_deliver cr nonces 1 key 1 (recvs rx) c1;
                 (hub2, w2) = others rx (hub', w')
             in (c2, (hub2, bc_drop bc rx w2)))"

section \<open>The weather handler\<close>

text \<open>\<open>fetch\<close> is the HTTP client: the body as a string, or an error as it is printed.\<close>

definition weather_url :: "string \<Rightarrow> string" where
  "weather_url city = ''https://wttr.in/'' @ city @ ''?format=%C+%t+%w+%h''"

definition weather :: "(string \<Rightarrow> string \<Rightarrow> string + string option) \<Rightarrow> 's sync_handler" where
  "weather fetch req s =
     (case get_string (sr_payload req) ''city'' of
        None \<Rightarrow> (reply_error BadRequest ''city required'', s)
      | Some city \<Rightarrow>
          (case fetch (weather_url city) ''curl/8.0'' of
             Ok r \<Rightarrow>
               let body = (case r of None \<Rightarrow> [] | Some b \<Rightarrow> b)
               in (reply Success (map_set ''weather'' (String body) (map_set ''city'' (String city) map_new)), s)
           | Err e \<Rightarrow> (reply_error InternalError (''fetch failed: '' @ e), s)))"

section \<open>From the sender to the stream\<close>

lemma stream_write_ok:
  assumes "aead_ok cr" "good_key key" "good_nonce nonce" "response_fits resp" "c_cap c = None"
  obtains b where "stream_write_response cr nonce c key seq resp = (Ok (), c\<lparr>c_out := c_out c @ b\<rparr>)"
    "reply_bytes cr key seq resp b"
  using reply_frame [OF assms(1-4), of seq] assms(5)
  by (metis (no_types, lifting) send_frame_eq(2))

text \<open>The frames that carry a list of events, numbered from \<open>seq\<close>.\<close>

fun event_frames :: "crypto \<Rightarrow> bytes \<Rightarrow> u32 \<Rightarrow> event list \<Rightarrow> bytes list \<Rightarrow> bool" where
  "event_frames cr key seq [] [] = True"
| "event_frames cr key seq (e # es) (b # bs) \<longleftrightarrow>
     reply_bytes cr key seq (chat_message e seq) b \<and> event_frames cr key (seq + 1) es bs"
| "event_frames cr key seq _ _ = False"

lemma chat_deliver_ok:
  assumes "aead_ok cr" "good_key key" "\<And>i. good_nonce (nonces i)" "c_cap c = None"
    and "\<And>e. e \<in> set es \<Longrightarrow> map_fits (the (resp_payload (chat_message e 0)))"
  shows "\<exists>bs. event_frames cr key seq es bs \<and>
    (\<forall>tail. chat_deliver cr nonces i key seq (map Ok es @ tail) c =
       chat_deliver cr nonces (i + length es) key (seq + word_of_nat (length es)) tail (c\<lparr>c_out := c_out c @ concat bs\<rparr>))"
  using assms(4,5)
proof (induction es arbitrary: i seq c)
  case Nil
  show ?case by (intro exI [of _ "[]"]) simp
next
  case (Cons e es)
  have "response_fits (chat_message e seq)"
    using Cons.prems(2) [of e] by (simp add: response_fits_def chat_message_def)
  then obtain b where b: "stream_write_response cr (nonces i) c key seq (chat_message e seq) =
      (Ok (), c\<lparr>c_out := c_out c @ b\<rparr>)" "reply_bytes cr key seq (chat_message e seq) b"
    using stream_write_ok [OF assms(1-3)] Cons.prems(1) by metis
  let ?c = "c\<lparr>c_out := c_out c @ b\<rparr>"
  have "c_cap ?c = None" using Cons.prems(1) by simp
  from Cons.IH [OF this, of "seq + 1" "i + 1"] Cons.prems(2)
  obtain bs where bs: "event_frames cr key (seq + 1) es bs"
    "\<And>tail. chat_deliver cr nonces (i + 1) key (seq + 1) (map Ok es @ tail) ?c =
      chat_deliver cr nonces (i + 1 + length es) key (seq + 1 + word_of_nat (length es)) tail
        (?c\<lparr>c_out := c_out ?c @ concat bs\<rparr>)" by (meson list.set_intros(2))
  have "resp_seq (chat_message e seq) = seq" by (simp add: chat_message_def)
  then show ?case using b bs by (intro exI [of _ "b # bs"]) (simp add: add.assoc)
qed

text \<open>
  C19. A chat message arrives. When a request with a nick and a message is handled, the sender is told
  so, and for every subscriber of the topic with fewer than 64 events pending the message is
  queued behind them; the subscriber's handler writes all of them to its stream, in order, each in a
  response frame of its own under consecutive sequence numbers, the new message last. A subscriber
  that has lagged gets no further frame, whatever is queued: its stream ends.
\<close>

theorem chat_message_delivered:
  assumes "broadcast_ok bc ok live" and "hub_reach bc ok hub w"
    and "rx \<in> set (subscribers bc ''chat'' hub w)" and "length (bc_queue bc rx w) < 64"
    and "get_string (sr_payload req) ''nick'' = Some nick" and "get_string (sr_payload req) ''message'' = Some msg"
    and "chat_send bc ms req (hub, w) = (out, hub', w')"
    and "aead_ok cr" and "length key = KEY_SIZE" and "\<forall>i. length (nonces i) = NONCE_SIZE" and "c_cap c = None"
    and "\<forall>e \<in> set (bc_queue bc rx w'). map_fits (the (resp_payload (chat_message e 0)))"
  shows "out = reply Success [(''sent'', Bool True)] \<and>
    (\<exists>evt bs. bc_queue bc rx w' = bc_queue bc rx w @ [evt] \<and> ev_topic evt = ''chat'' \<and>
       ev_payload evt = [(''nick'', String nick), (''message'', String msg)] \<and>
       event_frames cr key seq (bc_queue bc rx w') bs \<and>
       c_out (chat_deliver cr nonces i key seq (map Ok (bc_queue bc rx w')) c) = c_out c @ concat bs \<and>
       chat_deliver cr nonces i key seq (map Ok (bc_queue bc rx w') @ Err (Lagged n) # rest) c =
         chat_deliver cr nonces i key seq (map Ok (bc_queue bc rx w')) c)"
proof -
  let ?evt = "\<lparr>ev_topic = ''chat'', ev_payload = [(''nick'', String nick), (''message'', String msg)], ev_time = word_of_nat ms\<rparr>"
  obtain k where p: "hub_publish bc ms ''chat'' [(''nick'', String nick), (''message'', String msg)] hub w = (k, w')"
    and out: "out = reply Success [(''sent'', Bool True)]"
    using assms(5-7) by (auto simp: chat_send_def map_new_def Let_def split: prod.splits)
  have q: "bc_queue bc rx w' = bc_queue bc rx w @ [?evt]"
    using hub_publish_ok [OF assms(1,2) p] assms(3,4) by simp
  have good: "good_key key" "\<And>i. good_nonce (nonces i)"
    using assms(9,10) by (simp_all add: good_key_def good_nonce_def)
  have fits: "\<And>e. e \<in> set (bc_queue bc rx w') \<Longrightarrow> map_fits (the (resp_payload (chat_message e 0)))"
    using assms(12) by blast
  obtain bs where bs: "event_frames cr key seq (bc_queue bc rx w') bs"
    "\<And>tail. chat_deliver cr nonces i key seq (map Ok (bc_queue bc rx w') @ tail) c =
       chat_deliver cr nonces (i + length (bc_queue bc rx w')) key (seq + word_of_nat (length (bc_queue bc rx w'))) tail
         (c\<lparr>c_out := c_out c @ concat bs\<rparr>)"
    using chat_deliver_ok [where nonces = nonces and es = "bc_queue bc rx w'" and i = i and seq = seq,
        OF assms(8) good assms(11) fits] by blast
  have "c_out (chat_deliver cr nonces i key seq (map Ok (bc_queue bc rx w')) c) = c_out c @ concat bs"
    "chat_deliver cr nonces i key seq (map Ok (bc_queue bc rx w') @ Err (Lagged n) # rest) c =
       chat_deliver cr nonces i key seq (map Ok (bc_queue bc rx w')) c"
    using bs(2) [of "[]"] bs(2) [of "Err (Lagged n) # rest"] by simp_all
  then show ?thesis using out q bs(1) by (intro conjI exI [of _ ?evt] exI [of _ bs]) simp_all
qed

theorem chat_message_delivered_witness:
  "\<exists>rx hub w out w' b. hub_subscribe toy_bc ''chat'' hub_new toy_start = (rx, hub, w) \<and>
     chat_send toy_bc 7 \<lparr>sr_opcode = 1, sr_payload = [(''nick'', String ''ann''), (''message'', String ''hi'')],
       sr_session_id = 1, sr_api_key_id = []\<rparr> (hub, w) = (out, hub, w') \<and>
     c_out (chat_deliver toy_crypto (\<lambda>_. toy_nonce) 1 toy_key 1 (map Ok (bc_queue toy_bc rx w')) (toy_conn [])) = b \<and>
     reply_bytes toy_crypto toy_key 1 (chat_message \<lparr>ev_topic = ''chat'',
       ev_payload = [(''nick'', String ''ann''), (''message'', String ''hi'')], ev_time = 7\<rparr> 1) b"
proof -
  let ?req = "\<lparr>sr_opcode = 1, sr_payload = [(''nick'', String ''ann''), (''message'', String ''hi'')],
       sr_session_id = 1, sr_api_key_id = []\<rparr>"
  let ?m = "[(''nick'', String ''ann''), (''message'', String ''hi'')]"
  let ?evt = "\<lparr>ev_topic = ''chat'', ev_payload = ?m, ev_time = 7\<rparr>"
  obtain rx hub w where s: "hub_subscribe toy_bc ''chat'' hub_new toy_start = (rx, hub, w)"
    by (metis prod.exhaust)
  have r: "hub_reach toy_bc toy_ok hub w" by (rule reach_subscribe [OF toy_start_ok s])
  have h: "subscribers toy_bc ''chat'' hub w = [rx]" "bc_queue toy_bc rx w = []"
    using s by (auto simp: hub_subscribe_def hub_new_def toy_bc_def toy_start_def subscribers_def)
  have g: "get_string (sr_payload ?req) ''nick'' = Some ''ann''" "get_string (sr_payload ?req) ''message'' = Some ''hi''"
    by (simp_all add: get_string_def map_get_def)
  obtain n w' where p: "hub_publish toy_bc 7 ''chat'' ?m hub w = (n, w')" by (metis prod.exhaust)
  have c: "chat_send toy_bc 7 ?req (hub, w) = (reply Success [(''sent'', Bool True)], hub, w')"
    using g p by (simp add: chat_send_def map_new_def)
  have q: "bc_queue toy_bc rx w' = [?evt]"
    using hub_publish_ok [OF toy_broadcast_ok r p] h by simp
  have l: "length (tlv v) \<le> length (tlv_body v) + 11" for v by (rule length_tlv_le)
  have d: "vdepth (Map ?m) = 1" by (simp add: vdepth.simps)
  have ids: "rust_string ''nick''" "rust_string ''message''" "rust_string ''ann''" "rust_string ''hi''"
    "rust_string ''event''" "rust_string ''topic''" "rust_string ''chat''" "rust_string ''payload''"
    by (rule rust_string_ascii; simp)+
  have fits: "map_fits (the (resp_payload (chat_message ?evt 0)))"
    using l [of "String ''event''"] l [of "String ''message''"] l [of "String ''topic''"] l [of "String ''chat''"]
      l [of "String ''payload''"] l [of "Map ?m"] l [of "String ''nick''"] l [of "String ''ann''"]
      l [of "String ''hi''"] d
    by (simp add: chat_message_def map_new_def map_fits_def wf_map_def ids fits_def MAX_DECODE_DEPTH_def vdepth.simps)
  have side: "rx \<in> set (subscribers toy_bc ''chat'' hub w)" "length (bc_queue toy_bc rx w) < 64"
    "length toy_key = KEY_SIZE" "\<forall>i :: nat. length toy_nonce = NONCE_SIZE" "c_cap (toy_conn []) = None"
    "\<forall>e \<in> set (bc_queue toy_bc rx w'). map_fits (the (resp_payload (chat_message e 0)))"
    using h q fits by (simp_all add: toy_lengths)
  note d = chat_message_delivered [OF toy_broadcast_ok r side(1,2) g c toy_aead_ok side(3-6),
      where seq = 1 and i = 1 and n = 0 and rest = "[]"]
  from conjunct2 [OF d] obtain evt bs where e: "event_frames toy_crypto toy_key 1 (bc_queue toy_bc rx w') bs"
    "c_out (chat_deliver toy_crypto (\<lambda>_. toy_nonce) 1 toy_key 1 (map Ok (bc_queue toy_bc rx w')) (toy_conn [])) =
       c_out (toy_conn []) @ concat bs" by blast
  obtain b where "bs = [b]" "reply_bytes toy_crypto toy_key 1 (chat_message ?evt 1) b"
    using e(1) q by (cases bs rule: remdups_adj.cases) auto
  then show ?thesis using s c e(2) by (intro exI conjI) (assumption | simp)+
qed

end
