(* ===== verification/Hush_Transport.thy ===== *)
theory Hush_Transport
  imports Hush_Server
begin

text \<open>
  \<open>src/transport.rs\<close> and \<open>Server::load_tls\<close>: setting up the connections. Everything that is done
  there is done by \<open>rustls\<close>, \<open>quinn\<close> and \<open>tokio\<close>; what the repository adds is the order of the steps,
  the error of each, the protocol name it offers and the server name it asks for. The library's
  functions are arguments, their errors the text they print.
\<close>

datatype transport_error = TConfig string

definition DEFAULT_ALPN :: string where "DEFAULT_ALPN = ''hush/1''"

text \<open>\<open>map_err(|e| TransportError::Config(format!("<what>: {}", e)))\<close>\<close>

definition t_err :: "string \<Rightarrow> string + 'a \<Rightarrow> transport_error + 'a" where
  "t_err what r = map_err (\<lambda>e. TConfig (what @ '': '' @ e)) r"

section \<open>QUIC\<close>

definition bind_endpoint ::
    "('tls \<Rightarrow> string + 'quic) \<Rightarrow> (string \<Rightarrow> string + 'addr) \<Rightarrow> ('quic \<Rightarrow> 'addr \<Rightarrow> string + 'ep) \<Rightarrow>
       string \<Rightarrow> 'tls \<Rightarrow> transport_error + 'ep" where
  "bind_endpoint quic_server_config parse endpoint_server addr server_tls =
     and_then (t_err ''quic config'' (quic_server_config server_tls)) (\<lambda>quic_config.
     and_then (t_err ''addr parse'' (parse addr)) (\<lambda>a.
     t_err ''bind'' (endpoint_server quic_config a)))"

text \<open>\<open>ip_of\<close> is \<open>addr.ip().to_string()\<close>; \<open>handshake\<close> is what awaiting the connection gives.\<close>

definition dial ::
    "('tls \<Rightarrow> string + 'quic) \<Rightarrow> (string + 'ep) \<Rightarrow> (string \<Rightarrow> string + 'addr) \<Rightarrow> ('addr \<Rightarrow> string) \<Rightarrow>
       ('ep \<Rightarrow> 'quic \<Rightarrow> 'addr \<Rightarrow> string \<Rightarrow> string + 'connecting) \<Rightarrow> ('connecting \<Rightarrow> string + 'conn) \<Rightarrow> 'tls \<Rightarrow>
       string \<Rightarrow> 'tls option \<Rightarrow> transport_error + ('conn \<times> 'ep)" where
  "dial quic_client_config endpoint_client parse ip_of connect_with await insecure addr client_tls =
     (let tls = (case client_tls of None \<Rightarrow> insecure | Some t \<Rightarrow> t)
      in and_then (t_err ''quic config'' (quic_client_config tls)) (\<lambda>quic_config.
         and_then (t_err ''bind'' endpoint_client) (\<lambda>endpoint.
         and_then (t_err ''addr parse'' (parse addr)) (\<lambda>a.
         let server_name = ip_of a
         in and_then (t_err ''connect'' (connect_with endpoint quic_config a server_name)) (\<lambda>connecting.
            and_then (t_err ''handshake'' (await connecting)) (\<lambda>conn. Ok (conn, endpoint)))))))"

text \<open>
  \<open>SkipVerify\<close>, the certificate verifier of \<open>insecure_client_tls\<close>, and the signature schemes it
  lists.
\<close>

definition skip_verify_server_cert :: "'cert \<Rightarrow> 'cert list \<Rightarrow> 'name \<Rightarrow> bytes \<Rightarrow> instant \<Rightarrow> 'e + unit" where
  "skip_verify_server_cert end_entity intermediates server_name ocsp now = Ok ()"

definition skip_verify_signature :: "bytes \<Rightarrow> 'cert \<Rightarrow> 'sig \<Rightarrow> 'e + unit" where
  "skip_verify_signature message cert dss = Ok ()"

datatype signature_scheme = RSA_PKCS1_SHA256 | RSA_PSS_SHA256 | ECDSA_NISTP256_SHA256 | ED25519

definition supported_verify_schemes :: "signature_scheme list" where
  "supported_verify_schemes = [RSA_PKCS1_SHA256, RSA_PSS_SHA256, ECDSA_NISTP256_SHA256, ED25519]"

section \<open>TCP\<close>

text \<open>
  \<open>set_alpn\<close> assigns the field \<open>alpn_protocols\<close>. The acceptor and the connector are their configuration.
\<close>

definition tcp_bind ::
    "(bytes list \<Rightarrow> 'tls \<Rightarrow> 'tls) \<Rightarrow> (string \<Rightarrow> string + 'listener) \<Rightarrow> string \<Rightarrow> 'tls \<Rightarrow>
       transport_error + ('listener \<times> 'tls)" where
  "tcp_bind set_alpn listener_bind addr tls_config =
     (let cfg = set_alpn [as_bytes DEFAULT_ALPN] tls_config
      in and_then (t_err (''tcp bind '' @ addr) (listener_bind addr)) (\<lambda>listener. Ok (listener, cfg)))"

definition tcp_accept ::
    "('listener \<Rightarrow> string + ('tcp \<times> string)) \<Rightarrow> ('tls \<Rightarrow> 'tcp \<Rightarrow> string + 'stream) \<Rightarrow> 'listener \<Rightarrow> 'tls \<Rightarrow>
       transport_error + 'stream" where
  "tcp_accept accept_tcp accept_tls listener acceptor =
     and_then (t_err ''tcp accept'' (accept_tcp listener)) (\<lambda>(stream, peer_addr).
       t_err (''tls accept from '' @ peer_addr) (accept_tls acceptor stream))"

text \<open>\<open>addr.split(':').next().unwrap_or(addr)\<close>\<close>

definition server_name_of :: "string \<Rightarrow> string" where
  "server_name_of addr = takeWhile (\<lambda>ch. ch \<noteq> CHR '':'') addr"

definition tcp_dial ::
    "(bytes list \<Rightarrow> 'tls \<Rightarrow> 'tls) \<Rightarrow> (string \<Rightarrow> string + 'tcp) \<Rightarrow> (string \<Rightarrow> string + 'name) \<Rightarrow>
       ('tls \<Rightarrow> 'name \<Rightarrow> 'tcp \<Rightarrow> string + 'stream) \<Rightarrow> string \<Rightarrow> 'tls \<Rightarrow> transport_error + 'stream" where
  "tcp_dial set_alpn connect parse_name connect_tls addr tls_config =
     (let cfg = set_alpn [as_bytes DEFAULT_ALPN] tls_config
      in and_then (t_err (''tcp connect '' @ addr) (connect addr)) (\<lambda>stream.
         let server_name = server_name_of addr
         in and_then (t_err (''invalid server name '' @ [CHR 0x27] @ server_name @ [CHR 0x27]) (parse_name server_name))
              (\<lambda>domain. t_err (''tls handshake to '' @ addr) (connect_tls cfg domain stream))))"

section \<open>Loading the server's certificate\<close>

definition s_err :: "string \<Rightarrow> string + 'a \<Rightarrow> server_error + 'a" where
  "s_err what r = map_err (\<lambda>e. SvConfig (what @ '': '' @ e)) r"

definition load_tls ::
    "(string \<Rightarrow> string + bytes) \<Rightarrow> (bytes \<Rightarrow> string + 'cert list) \<Rightarrow> (bytes \<Rightarrow> string + 'key option) \<Rightarrow>
       ('cert list \<Rightarrow> 'key \<Rightarrow> string + 'tls) \<Rightarrow> string \<Rightarrow> string \<Rightarrow> server_error + 'tls" where
  "load_tls read_file parse_certs private_key with_single_cert cert_path key_path =
     and_then (s_err ''read cert'' (read_file cert_path)) (\<lambda>cert_pem.
     and_then (s_err ''read key'' (read_file key_path)) (\<lambda>key_pem.
     and_then (s_err ''parse cert'' (parse_certs cert_pem)) (\<lambda>certs.
     and_then (and_then (s_err ''parse key'' (private_key key_pem)) (ok_or (SvConfig ''no private key''))) (\<lambda>key.
     s_err ''tls'' (with_single_cert certs key)))))"

text \<open>\<open>listen_on_conn\<close> up to \<open>listen_on\<close>: the only place where a QUIC server gets the protocol name.\<close>

definition conn_endpoint ::
    "(bytes list \<Rightarrow> 'tls \<Rightarrow> 'tls) \<Rightarrow> ('tls \<Rightarrow> string + 'quic) \<Rightarrow> ('quic \<Rightarrow> 'udp \<Rightarrow> string + 'ep) \<Rightarrow> 'udp \<Rightarrow>
       ('s, 'tls) server \<Rightarrow> server_error + 'ep" where
  "conn_endpoint set_alpn quic_server_config endpoint_new conn sv =
     and_then (ok_or (SvConfig ''TLS config required; use with_tls()'') (sv_tls_config sv)) (\<lambda>tls.
       let tls_clone = set_alpn [as_bytes DEFAULT_ALPN] tls
       in and_then (s_err ''quic config'' (quic_server_config tls_clone)) (\<lambda>quic_config.
            s_err ''endpoint'' (endpoint_new quic_config conn)))"

section \<open>Names\<close>

text \<open>
  With a host name or an IPv4 address the name asked for is the part before the port; with an IPv6
  address in brackets it is whatever precedes its first colon, at most the bracket and four digits, which
  is not a name: a library that rejects it makes the dial fail although the TCP connection stood.
\<close>

theorem tcp_dial_server_name:
  assumes "CHR '':'' \<notin> set host"
  shows "server_name_of (host @ '':'' @ port) = host \<and> server_name_of host = host \<and>
    server_name_of (''['' @ host @ '':'' @ rest) = ''['' @ host \<and>
    (connect (''['' @ host @ '':'' @ rest) = Ok stream \<and> parse_name (''['' @ host) = Err e \<longrightarrow>
       (\<exists>msg. tcp_dial set_alpn connect parse_name connect_tls (''['' @ host @ '':'' @ rest) tls = Err (TConfig msg)))"
proof -
  have t: "takeWhile (\<lambda>ch. ch \<noteq> CHR '':'') (host @ ys) = host @ takeWhile (\<lambda>ch. ch \<noteq> CHR '':'') ys" for ys
    using assms by (intro takeWhile_append2) auto
  then have "server_name_of (host @ '':'' @ port) = host" "server_name_of (''['' @ host @ '':'' @ rest) = ''['' @ host"
    "server_name_of host = host"
    using t [of "[]"] by (simp_all add: server_name_of_def)
  then show ?thesis by (simp add: tcp_dial_def t_err_def)
qed

theorem tcp_dial_server_name_witness:
  "server_name_of ''example.org:443'' = ''example.org'' \<and> server_name_of ''[2001:db8::1]:443'' = ''[2001''"
proof -
  have "CHR '':'' \<notin> set ''example.org''" "CHR '':'' \<notin> set ''2001''" by simp_all
  note t = tcp_dial_server_name [OF this(1), of "''443''", THEN conjunct1]
    tcp_dial_server_name [OF this(2), of "[]" "''db8::1]:443''", THEN conjunct2, THEN conjunct2, THEN conjunct1]
  show ?thesis using t by simp
qed

end
