(* ===== verification/Hush_Logger.thy ===== *)
theory Hush_Logger
  imports Hush_Prelude
begin

text \<open>
  \<open>src/logger.rs\<close>: the line a logger writes for a message. The wall clock (\<open>SystemTime::now\<close> since the
  epoch, in seconds) is an argument, and the message is the text that \<open>fmt::Arguments\<close> prints; the
  result of the write to \<open>stderr\<close> is dropped, so a line is all there is. And the choice of
  the level by \<open>Server::log\<close>.
\<close>

definition RESET :: string where "RESET = CHR 0x1B # ''[0m''"
definition DIM :: string where "DIM = CHR 0x1B # ''[90m''"
definition BLUE :: string where "BLUE = CHR 0x1B # ''[34m''"
definition YELLOW :: string where "YELLOW = CHR 0x1B # ''[33m''"
definition RED :: string where "RED = CHR 0x1B # ''[31m''"

record logger =
  lg_tag :: string

definition logger_new :: "string \<Rightarrow> logger" where
  "logger_new tag = \<lparr>lg_tag = tag\<rparr>"

text \<open>Decimal digits, and \<open>{n:02}\<close>.\<close>

definition digit :: "nat \<Rightarrow> char" where
  "digit d = char_of (48 + d)"

fun decimal :: "nat \<Rightarrow> string" where
  "decimal n = (if n < 10 then [digit n] else decimal (n div 10) @ [digit (n mod 10)])"

definition pad2 :: "nat \<Rightarrow> string" where
  "pad2 n = (let s = decimal n in replicate (2 - length s) CHR ''0'' @ s)"

definition timestamp :: "u64 \<Rightarrow> string" where
  "timestamp secs =
     (let h = (secs div 3600) mod 24;
          m = (secs div 60) mod 60;
          s = secs mod 60
      in pad2 (unat h) @ '':'' @ pad2 (unat m) @ '':'' @ pad2 (unat s))"

definition logger_write :: "u64 \<Rightarrow> string \<Rightarrow> string \<Rightarrow> string \<Rightarrow> logger \<Rightarrow> string" where
  "logger_write now_secs level color msg l =
     (let ts = timestamp now_secs;
          tag = (if lg_tag l = [] then [] else '' '' @ DIM @ ''['' @ lg_tag l @ '']'' @ RESET)
      in DIM @ ts @ RESET @ tag @ '' '' @ color @ ''['' @ level @ '']'' @ RESET @ '' '' @ msg @ [CHR 0x0A])"

definition logger_info :: "u64 \<Rightarrow> string \<Rightarrow> logger \<Rightarrow> string" where
  "logger_info now_secs msg l = logger_write now_secs ''INF'' BLUE msg l"

definition logger_warn :: "u64 \<Rightarrow> string \<Rightarrow> logger \<Rightarrow> string" where
  "logger_warn now_secs msg l = logger_write now_secs ''WRN'' YELLOW msg l"

definition logger_error :: "u64 \<Rightarrow> string \<Rightarrow> logger \<Rightarrow> string" where
  "logger_error now_secs msg l = logger_write now_secs ''ERR'' RED msg l"

text \<open>\<open>Server::log\<close>: without a logger nothing is written; an unknown level counts as \<open>INF\<close>.\<close>

definition server_log :: "u64 \<Rightarrow> string \<Rightarrow> string \<Rightarrow> logger option \<Rightarrow> string" where
  "server_log now_secs level msg lg =
     (case lg of None \<Rightarrow> []
      | Some l \<Rightarrow>
          if level = ''INF'' then logger_info now_secs msg l
          else if level = ''WRN'' then logger_warn now_secs msg l
          else if level = ''ERR'' then logger_error now_secs msg l
          else logger_info now_secs msg l)"

section \<open>The time stamp is the time of day\<close>

lemma digit_value: "d < 10 \<Longrightarrow> of_char (digit d) = 48 + d"
  by (simp add: digit_def)

lemma pad2_digits:
  assumes "n < 100"
  shows "pad2 n = [digit (n div 10), digit (n mod 10)]"
proof (cases "n < 10")
  case True
  then have "pad2 n = [CHR ''0'', digit n]" by (simp add: pad2_def)
  moreover have "digit 0 = CHR ''0''" by (simp add: digit_def char_of_eq_iff)
  ultimately show ?thesis using True by simp
next
  case False
  then have "decimal n = [digit (n div 10), digit (n mod 10)]"
    using assms decimal.simps [of n] decimal.simps [of "n div 10"] by simp
  then show ?thesis by (simp add: pad2_def)
qed

definition value_of_2 :: "char \<Rightarrow> char \<Rightarrow> nat" where
  "value_of_2 a b = (of_char a - 48) * 10 + (of_char b - 48)"

lemma value_of_pad2: "n < 100 \<Longrightarrow> value_of_2 (pad2 n ! 0) (pad2 n ! 1) = n"
  by (simp add: pad2_digits value_of_2_def digit_value)

definition seconds_of :: "string \<Rightarrow> nat" where
  "seconds_of t = value_of_2 (t ! 0) (t ! 1) * 3600 + value_of_2 (t ! 3) (t ! 4) * 60 + value_of_2 (t ! 6) (t ! 7)"

text \<open>A time stamp is eight characters and reads back as the seconds since midnight (UTC).\<close>

theorem timestamp_roundtrip:
  "length (timestamp secs) = 8 \<and> timestamp secs ! 2 = CHR '':'' \<and> timestamp secs ! 5 = CHR '':'' \<and>
   seconds_of (timestamp secs) = unat secs mod 86400"
proof -
  let ?h = "unat ((secs div 3600) mod 24)" and ?m = "unat ((secs div 60) mod 60)" and ?s = "unat (secs mod 60)"
  have v: "?h = unat secs div 3600 mod 24" "?m = unat secs div 60 mod 60" "?s = unat secs mod 60"
    by (simp_all add: unat_mod_distrib unat_div_distrib)
  have b: "?h < 100" "?m < 100" "?s < 100"
    unfolding v by (rule less_le_trans [OF mod_less_divisor], simp, simp)+
  have t: "timestamp secs = [digit (?h div 10), digit (?h mod 10), CHR '':'', digit (?m div 10), digit (?m mod 10),
      CHR '':'', digit (?s div 10), digit (?s mod 10)]"
    by (simp only: timestamp_def Let_def pad2_digits [OF b(1)] pad2_digits [OF b(2)] pad2_digits [OF b(3)]) simp
  have "seconds_of (timestamp secs) = ?h * 3600 + ?m * 60 + ?s"
    using b by (simp add: t seconds_of_def value_of_2_def digit_value nth_Cons')
  also have "\<dots> = unat secs mod 86400"
    unfolding v using mod_mult2_eq [of "unat secs" 60 1440] mod_mult2_eq [of "unat secs div 60" 60 24]
    by (simp add: div_mult2_eq [symmetric])
  finally show ?thesis by (simp add: t)
qed

end
