(* ===== verification/Hush_Trim.thy ===== *)
theory Hush_Trim
  imports Hush_Utf8
begin

text \<open>
  \<open>str::trim\<close> of Rust's standard library, which the chat client uses: it removes the characters with the
  Unicode property \<open>White_Space\<close> at both ends. Strings are lists of UTF-8 bytes, so a character to
  be removed is one of the byte sequences below.
\<close>

definition white_space :: "string list" where
  "white_space =
     [[CHR 0x09], [CHR 0x0A], [CHR 0x0B], [CHR 0x0C], [CHR 0x0D], [CHR 0x20], [CHR 0xC2, CHR 0x85], [CHR 0xC2, CHR 0xA0],
      [CHR 0xE1, CHR 0x9A, CHR 0x80],
      [CHR 0xE2, CHR 0x80, CHR 0x80], [CHR 0xE2, CHR 0x80, CHR 0x81], [CHR 0xE2, CHR 0x80, CHR 0x82],
      [CHR 0xE2, CHR 0x80, CHR 0x83], [CHR 0xE2, CHR 0x80, CHR 0x84], [CHR 0xE2, CHR 0x80, CHR 0x85],
      [CHR 0xE2, CHR 0x80, CHR 0x86], [CHR 0xE2, CHR 0x80, CHR 0x87], [CHR 0xE2, CHR 0x80, CHR 0x88],
      [CHR 0xE2, CHR 0x80, CHR 0x89], [CHR 0xE2, CHR 0x80, CHR 0x8A], [CHR 0xE2, CHR 0x80, CHR 0xA8],
      [CHR 0xE2, CHR 0x80, CHR 0xA9], [CHR 0xE2, CHR 0x80, CHR 0xAF], [CHR 0xE2, CHR 0x81, CHR 0x9F],
      [CHR 0xE3, CHR 0x80, CHR 0x80]]"

text \<open>Removing sequences from the front as long as there is one; the end is the front of the reverse.\<close>

function strip_front :: "'a list list \<Rightarrow> 'a list \<Rightarrow> 'a list" where
  "strip_front ws s = (case find (\<lambda>w. w \<noteq> [] \<and> take (length w) s = w) ws of
     None \<Rightarrow> s | Some w \<Rightarrow> strip_front ws (drop (length w) s))"
  by pat_completeness auto

termination
  by (relation "measure (\<lambda>(ws, s). length s)")
    (auto simp: find_Some_iff, metis append_Nil2 diff_less length_greater_0_conv take_Nil)

declare strip_front.simps [simp del]

definition trim :: "string \<Rightarrow> string" where
  "trim s = rev (strip_front (map rev white_space) (rev (strip_front white_space s)))"

section \<open>What remains\<close>

lemma strip_front_spec: "\<exists>ds. s = concat ds @ strip_front ws s \<and> set ds \<subseteq> set ws"
proof (induction ws s rule: strip_front.induct)
  case (1 ws s)
  show ?case
  proof (cases "find (\<lambda>w. w \<noteq> [] \<and> take (length w) s = w) ws")
    case None
    then show ?thesis by (intro exI [of _ "[]"]) (simp add: strip_front.simps [of ws s])
  next
    case (Some w)
    then obtain ds where "drop (length w) s = concat ds @ strip_front ws (drop (length w) s)" "set ds \<subseteq> set ws"
      using "1" by blast
    moreover have "w \<in> set ws" "take (length w) s = w" using Some by (auto simp: find_Some_iff)
    ultimately show ?thesis
      by (intro exI [of _ "w # ds"]) (simp add: strip_front.simps [of ws s] Some, metis append_take_drop_id)
  qed
qed

lemma strip_front_none: "w \<in> set ws \<Longrightarrow> w \<noteq> [] \<Longrightarrow> take (length w) (strip_front ws s) \<noteq> w"
proof (induction ws s rule: strip_front.induct)
  case (1 ws s)
  show ?case
  proof (cases "find (\<lambda>w. w \<noteq> [] \<and> take (length w) s = w) ws")
    case None
    then have "strip_front ws s = s" by (simp add: strip_front.simps [of ws s])
    then show ?thesis using None "1.prems" by (auto simp: find_None_iff)
  next
    case (Some v)
    then show ?thesis using "1.IH" [OF Some "1.prems"] by (simp add: strip_front.simps [of ws s])
  qed
qed

lemma trim_spec: "\<exists>as bs. s = concat as @ trim s @ concat bs \<and> set as \<subseteq> set white_space \<and> set bs \<subseteq> set white_space"
proof -
  obtain as where a: "s = concat as @ strip_front white_space s" "set as \<subseteq> set white_space"
    using strip_front_spec by blast
  let ?r = "rev (strip_front white_space s)"
  obtain bs where b: "?r = concat bs @ strip_front (map rev white_space) ?r" "set bs \<subseteq> set (map rev white_space)"
    using strip_front_spec by blast
  then have "strip_front white_space s = trim s @ concat (map rev (rev bs))"
    by (metis rev_append rev_concat rev_rev_ident trim_def rev_map)
  then show ?thesis using a b(2) by (intro exI [of _ as] exI [of _ "map rev (rev bs)"]) auto
qed

text \<open>The removed sequences are whole characters, so text remains text.\<close>

definition starts_char :: "u8 \<Rightarrow> bool" where
  "starts_char b \<longleftrightarrow> \<not> is_cont b \<and> \<not> (0x80 \<le> b \<and> b \<le> 0xBF)"

lemma utf8_step_conts:
  assumes "utf8_step b r = (True, n)" "i < n"
  shows "\<not> starts_char (safe_get r i)"
proof -
  have "second_of_3 b c \<Longrightarrow> 0x80 \<le> c \<and> c \<le> 0xBF" "second_of_4 b c \<Longrightarrow> 0x80 \<le> c \<and> c \<le> 0xBF" for c
    by (auto simp: second_of_3_def second_of_4_def word_le_nat_alt split: if_splits)
  then show ?thesis
    using assms
    by (auto simp: utf8_step_def starts_char_def less_Suc_eq numeral_2_eq_2 numeral_3_eq_3 split: if_splits)
qed

lemma utf8_valid_front:
  "utf8_valid (a @ b) \<Longrightarrow> b = [] \<or> starts_char (hd b) \<Longrightarrow> utf8_valid a"
proof (induction a rule: utf8_valid.induct)
  case (2 x r)
  obtain n where s: "utf8_step x (r @ b) = (True, n)" and v: "utf8_valid (drop n (r @ b))"
    using "2.prems"(1) by (cases "utf8_step x (r @ b)") auto
  have n: "n \<le> length r"
  proof (rule ccontr)
    assume "\<not> n \<le> length r"
    then have i: "length r < n" by simp
    have "b \<noteq> []" using utf8_step_length [OF s] i by auto
    then have "safe_get (r @ b) (length r) = hd b" by (simp add: safe_get_def nth_append hd_conv_nth)
    then show False using utf8_step_conts [OF s i] "2.prems"(2) \<open>b \<noteq> []\<close> by simp
  qed
  then have r: "utf8_step x r = (True, n)"
    by (intro utf8_step_cong [OF s]) (simp add: safe_get_append)
  have "utf8_valid (drop n r)"
    using "2.IH" [OF r [symmetric]] "2.prems"(2) v n by simp
  then show ?case using r by simp
qed simp

lemma white_space_char: "w \<in> set white_space \<Longrightarrow> utf8_valid (as_bytes w) \<and> w \<noteq> [] \<and> starts_char (hd (as_bytes w))"
  by (auto simp: white_space_def as_bytes_def utf8_step_def is_cont_def safe_get_def second_of_3_def starts_char_def)

lemma utf8_strip_back:
  "utf8_valid (as_bytes (s @ concat bs)) \<Longrightarrow> set bs \<subseteq> set white_space \<Longrightarrow> utf8_valid (as_bytes s)"
proof (induction bs arbitrary: s rule: rev_induct)
  case (snoc w bs)
  have "utf8_valid (as_bytes (s @ concat bs) @ as_bytes w)" using snoc.prems(1) by simp
  moreover have "starts_char (hd (as_bytes w))" using white_space_char [of w] snoc.prems(2) by simp
  ultimately have "utf8_valid (as_bytes (s @ concat bs))" by (blast intro: utf8_valid_front)
  then show ?case using snoc.IH [of s] snoc.prems(2) by simp
qed simp

lemma utf8_strip_front:
  "utf8_valid (as_bytes (concat as @ s)) \<Longrightarrow> set as \<subseteq> set white_space \<Longrightarrow> utf8_valid (as_bytes s)"
  using white_space_char by (induction as) (auto simp: utf8_valid_append)

lemma rust_string_trim: "rust_string s \<Longrightarrow> rust_string (trim s)"
  using trim_spec [of s] unfolding rust_string_def
  by (metis utf8_strip_back utf8_strip_front append.assoc)

lemma length_trim: "length (trim s) \<le> length s"
  using trim_spec [of s] by (metis le_add1 le_add2 length_append order_trans)

lemma trim_Nil [simp]: "trim [] = []"
  using length_trim [of "[]"] by simp

end
