(* ===== verification/Hush_Examples.thy ===== *)
theory Hush_Examples
  imports Hush_Program Hush_Chat Hush_Accept Hush_Transport Hush_Logger Hush_Trim
begin

text \<open>
  The programs around the handlers of \<open>examples/\<close>: \<open>main\<close> with its arguments, the set-up of the three
  servers, and the three clients, as programs of \<open>Hush_Program\<close>. A client's panic carries the text of its
  \<open>expect\<close>, or \<open>unwrap\<close>. What is written is the text with its line ends; flushing is not modelled.
\<close>

declare decimal.simps [simp del]

section \<open>What the examples share\<close>

definition println :: "string \<Rightarrow> written" where "println s = StdOut (s @ [CHR 0x0A])"
definition eprintln :: "string \<Rightarrow> written" where "eprintln s = StdErr (s @ [CHR 0x0A])"

text \<open>\<open>main\<close>: \<open>n\<close> is the number of arguments a client needs.\<close>

definition example_main ::
    "nat \<Rightarrow> string \<Rightarrow> string \<Rightarrow> (written list \<Rightarrow> 'r) \<Rightarrow> 'r \<Rightarrow> (string list \<Rightarrow> 'r) \<Rightarrow> string list \<Rightarrow> 'r" where
  "example_main n server_line client_line output run_server run_client args =
     (if length args < 2 then
        output [eprintln ''Usage:'', eprintln (''  '' @ server_line), eprintln (''  '' @ client_line)]
      else if args ! 1 = ''server'' then run_server
      else if args ! 1 = ''client'' then
        (if length args < n then output [eprintln (''Usage: '' @ client_line)] else run_client (drop 2 args))
      else output [eprintln (''unknown command: '' @ args ! 1)])"

definition crud_main where
  "crud_main output run_server run_client =
     example_main 5 ''cargo run --example crud server'' ''cargo run --example crud client <id> <secret> <port>''
       output run_server (\<lambda>args. run_client (args ! 0) (args ! 1) (args ! 2))"

definition chat_main where
  "chat_main output run_server run_client =
     example_main 6 ''cargo run --example chat server'' ''cargo run --example chat client <id> <secret> <port> <nick>''
       output run_server (\<lambda>args. run_client (args ! 0) (args ! 1) (args ! 2) (args ! 3))"

definition weather_main where
  "weather_main output run_server run_client =
     example_main 6 ''cargo run --example weather server'' ''cargo run --example weather client <id> <secret> <port> <city>''
       output run_server (\<lambda>args. run_client (args ! 0) (args ! 1) (args ! 2) (args ! 3))"

text \<open>\<open>KeyStore\<close>, made of the one key of the run.\<close>

definition example_key_store :: "api_key \<Rightarrow> string \<Rightarrow> bytes option" where
  "example_key_store api_key = [ak_id api_key \<mapsto> ak_secret api_key]"

text \<open>
  The end of \<open>run_server\<close>: the certificate, the endpoint, the announcement and the accept loop.
  \<open>load\<close>, \<open>bind_at\<close>, \<open>local_addr\<close> and \<open>port_of\<close> are the transport's. The result: what is written,
  the panic if there is one, and the connection tasks with the server once it listens.
\<close>

definition example_serve ::
    "(string \<Rightarrow> string \<Rightarrow> server_error + 'tls) \<Rightarrow> (string \<Rightarrow> 'tls \<Rightarrow> transport_error + 'ep) \<Rightarrow> ('ep \<Rightarrow> string + 'addr) \<Rightarrow>
       ('addr \<Rightarrow> u16) \<Rightarrow> 'c incoming list \<Rightarrow> (string \<Rightarrow> written list) \<Rightarrow> ('s, 'tls) server \<Rightarrow>
       written list \<times> exit option \<times> (('c \<times> u64) list \<times> ('s, 'tls) server) option" where
  "example_serve load bind_at local_addr port_of incoming announce srv =
     (case load ''test-cert.pem'' ''test-key.pem'' of
        Err e \<Rightarrow> ([], Some (Panicked ''load TLS''), None)
      | Ok tls \<Rightarrow>
          (case bind_at ''127.0.0.1:0'' tls of
             Err e \<Rightarrow> ([], Some (Panicked ''bind''), None)
           | Ok endpoint \<Rightarrow>
               (case local_addr endpoint of
                  Err e \<Rightarrow> ([], Some (Panicked ''unwrap''), None)
                | Ok addr \<Rightarrow>
                    let port = decimal (unat (port_of addr));
                        (r, gc, tasks, srv') = listen_on (local_addr endpoint) incoming srv
                    in (announce port, (case r of None \<Rightarrow> None | Some e \<Rightarrow> Some (Panicked ''unwrap'')), Some (tasks, srv')))))"

definition announce_key :: "(bytes \<Rightarrow> string) \<Rightarrow> api_key \<Rightarrow> string \<Rightarrow> written list" where
  "announce_key hex_encode api_key port =
     [println (''Key ID:       '' @ ak_id api_key),
      println (''Key Secret:   '' @ hex_encode (ak_secret api_key)),
      println (''Port:         '' @ port)]"

text \<open>
  A client: it decodes the secret, dials, and runs its program. \<open>dial_to\<close> gives the client and what
  becomes of a program that asks through it.
\<close>

definition example_client ::
    "(string \<Rightarrow> string + bytes) \<Rightarrow> (string \<Rightarrow> api_key \<Rightarrow> client_error + (client \<times> (program \<Rightarrow> written list \<times> exit))) \<Rightarrow>
       (client \<Rightarrow> program) \<Rightarrow> string \<Rightarrow> string \<Rightarrow> string \<Rightarrow> written list \<times> exit" where
  "example_client hex_decode dial_to prog key_id key_secret_hex port =
     (case hex_decode key_secret_hex of
        Err e \<Rightarrow> ([], Panicked ''bad secret hex'')
      | Ok secret \<Rightarrow>
          (case dial_to (''127.0.0.1:'' @ port) \<lparr>ak_id = key_id, ak_secret = secret\<rparr> of
             Err e \<Rightarrow> ([], Panicked ''connect'')
           | Ok (client, perform) \<Rightarrow> perform (prog client)))"

definition resp_field :: "(tlv_map \<Rightarrow> string \<Rightarrow> 'a option) \<Rightarrow> string \<Rightarrow> response \<Rightarrow> 'a option" where
  "resp_field get key resp = (case resp_payload resp of None \<Rightarrow> None | Some p \<Rightarrow> get p key)"

definition or_else :: "'a \<Rightarrow> 'a option \<Rightarrow> 'a" where
  "or_else d r = (case r of None \<Rightarrow> d | Some x \<Rightarrow> x)"

primrec print_all :: "written list \<Rightarrow> program \<Rightarrow> program" where
  "print_all [] prog = prog"
| "print_all (l # ls) prog = Print l (print_all ls prog)"

text \<open>\<open>client.do_(..).await.expect(what)\<close>\<close>

definition ask_expect :: "string \<Rightarrow> u16 \<Rightarrow> tlv_map option \<Rightarrow> (response \<Rightarrow> program) \<Rightarrow> program" where
  "ask_expect what opcode payload k = Ask opcode payload (\<lambda>r. case r of Err e \<Rightarrow> Panic what | Ok resp \<Rightarrow> k resp)"

definition show_u64 :: "u64 \<Rightarrow> string" where "show_u64 n = decimal (unat n)"

section \<open>Notes\<close>

definition crud_register ::
    "((u64 \<rightharpoonup> string) \<Rightarrow> (u64 \<times> string) list) \<Rightarrow> (crud, 'tls) server \<Rightarrow> (crud, 'tls) server" where
  "crud_register entries srv =
     (let srv = handle 1 crud_create srv;
          srv = handle 2 (crud_list entries) srv;
          srv = handle 3 crud_get srv;
          srv = handle 4 crud_update srv
      in handle 5 crud_delete srv)"

definition arrow :: string where "arrow = [CHR 0xE2, CHR 0x86, CHR 0x92]"

definition crud_announce :: "(bytes \<Rightarrow> string) \<Rightarrow> api_key \<Rightarrow> string \<Rightarrow> written list" where
  "crud_announce hex_encode api_key port =
     [eprintln (''[INF] Hush CRUD Notes ready on port '' @ port)] @ announce_key hex_encode api_key port @
     map println
       [''Ops:'', ''  0x0001  Create(text)     '' @ arrow @ '' id'', ''  0x0002  List()           '' @ arrow @ '' notes[]'',
        ''  0x0003  Get(id)          '' @ arrow @ '' note'', ''  0x0004  Update(id, text) '' @ arrow @ '' ok'',
        ''  0x0005  Delete(id)       '' @ arrow @ '' ok'', '''']"

definition crud_server ::
    "crypto \<Rightarrow> ((u64 \<rightharpoonup> string) \<Rightarrow> (u64 \<times> string) list) \<Rightarrow> bytes \<Rightarrow> api_key \<Rightarrow> heap \<Rightarrow> (crud, 'tls) server \<times> heap" where
  "crud_server cr entries random api_key h =
     (let (srv, h') = server_new cr random (example_key_store api_key) h in (crud_register entries srv, h'))"

definition crud_run_server where
  "crud_run_server cr hex_encode entries secret id_bytes random load bind_at local_addr port_of incoming h =
     (let api_key = generate_api_key hex_encode secret id_bytes;
          (srv, h') = crud_server cr entries random api_key h
      in (example_serve load bind_at local_addr port_of incoming (crud_announce hex_encode api_key) srv, h'))"

definition clipboard :: string where "clipboard = [CHR 0xF0, CHR 0x9F, CHR 0x93, CHR 0x8B]"

definition note_line :: "tlv_map \<Rightarrow> written" where
  "note_line m = println (''   '' @ show_u64 (or_else 0 (get_uint64 m ''id'')) @ '': '' @ or_else ''?'' (get_string m ''text''))"

definition note_lines :: "tlv_value option \<Rightarrow> written list" where
  "note_lines notes = (case notes of
     Some (Array items) \<Rightarrow> concat (map (\<lambda>item. case item of Map m \<Rightarrow> [note_line m] | _ \<Rightarrow> []) items)
   | _ \<Rightarrow> [])"

definition crud_list_notes :: "string \<Rightarrow> program \<Rightarrow> program" where
  "crud_list_notes what prog = ask_expect ''list'' 2 None (\<lambda>resp.
     let count = or_else 0 (resp_field get_uint64 ''count'' resp)
     in Print (println (CHR 0x0A # clipboard @ '' '' @ show_u64 count @ '' notes '' @ what))
          (print_all (note_lines (resp_field map_get ''notes'' resp)) prog))"

fun crud_create_all :: "string list \<Rightarrow> u64 list \<Rightarrow> (u64 list \<Rightarrow> program) \<Rightarrow> program" where
  "crud_create_all [] ids k = k ids"
| "crud_create_all (title # titles) ids k =
     ask_expect ''create'' 1 (Some (map_set ''text'' (String title) map_new)) (\<lambda>resp.
       case resp_field get_uint64 ''id'' resp of
         None \<Rightarrow> Panic ''unwrap''
       | Some i \<Rightarrow>
           Print (println ([CHR 0xE2, CHR 0x9C, CHR 0x85] @ '' Created note '' @ show_u64 i @ '': '' @ title))
             (crud_create_all titles (ids @ [i]) k))"

definition crud_client :: "client \<Rightarrow> program" where
  "crud_client client =
     Print (println (''Session: '' @ show_u64 (client_session_id client) @ [CHR 0x0A]))
       (crud_create_all [''buy milk'', ''call mom'', ''fix the bug''] [] (\<lambda>ids.
          crud_list_notes ''total''
            (ask_expect ''update'' 4
               (Some (map_set ''text'' (String ''buy milk and eggs'') (map_set ''id'' (Uint64 (ids ! 0)) map_new))) (\<lambda>_.
             Print (println ([CHR 0x0A, CHR 0xE2, CHR 0x9C, CHR 0x8F, CHR 0xEF, CHR 0xB8, CHR 0x8F] @ ''  Updated note '' @
               show_u64 (ids ! 0)))
               (ask_expect ''get'' 3 (Some (map_set ''id'' (Uint64 (ids ! 0)) map_new)) (\<lambda>resp.
                  let text = or_else ''?'' (resp_field get_string ''text'' resp)
                  in Print (println ([CHR 0xF0, CHR 0x9F, CHR 0x94, CHR 0x8D] @ ''  Note '' @ show_u64 (ids ! 0) @ '': '' @ text))
                       (ask_expect ''delete'' 5 (Some (map_set ''id'' (Uint64 (ids ! 2)) map_new)) (\<lambda>_.
                          Print (println ([CHR 0xF0, CHR 0x9F, CHR 0x97, CHR 0x91, CHR 0xEF, CHR 0xB8, CHR 0x8F] @
                            ''  Deleted note '' @ show_u64 (ids ! 2)))
                            (crud_list_notes ''remaining'' Done)))))))))"

definition crud_run_client where
  "crud_run_client hex_decode dial_to key_id key_secret_hex port =
     example_client hex_decode dial_to crud_client key_id key_secret_hex port"

section \<open>Weather\<close>

definition weather_announce :: "(bytes \<Rightarrow> string) \<Rightarrow> api_key \<Rightarrow> string \<Rightarrow> written list" where
  "weather_announce hex_encode api_key port =
     [eprintln (''[INF] Hush Weather ready on port '' @ port)] @ announce_key hex_encode api_key port @
     [println (''Try:          cargo run --example weather client '' @ ak_id api_key @ '' '' @
        hex_encode (ak_secret api_key) @ '' '' @ port @ '' London''),
      println []]"

definition weather_server ::
    "crypto \<Rightarrow> (string \<Rightarrow> string \<Rightarrow> string + string option) \<Rightarrow> bytes \<Rightarrow> api_key \<Rightarrow> heap \<Rightarrow> ('s, 'tls) server \<times> heap" where
  "weather_server cr fetch random api_key h =
     (let (srv, h') = server_new cr random (example_key_store api_key) h in (handle 1 (weather fetch) srv, h'))"

definition weather_run_server where
  "weather_run_server cr hex_encode fetch secret id_bytes random load bind_at local_addr port_of incoming h =
     (let api_key = generate_api_key hex_encode secret id_bytes;
          (srv, h') = weather_server cr fetch random api_key h
      in (example_serve load bind_at local_addr port_of incoming (weather_announce hex_encode api_key) srv, h'))"

definition weather_client :: "string \<Rightarrow> client \<Rightarrow> program" where
  "weather_client city client =
     ask_expect ''request'' 1 (Some (map_set ''city'' (String city) map_new)) (\<lambda>resp.
       if resp_status resp \<noteq> Success then
         (let err = or_else ''unknown'' (resp_field get_string ''error'' resp)
          in Print (eprintln (''error: '' @ err)) Done)
       else
         (let report = or_else ''???'' (resp_field get_string ''weather'' resp)
          in Print (println ([CHR 0x0A, CHR 0xF0, CHR 0x9F, CHR 0x8C, CHR 0x8D] @ ''  '' @ city))
               (Print (println ([CHR 0xF0, CHR 0x9F, CHR 0x8C, CHR 0xA4] @ ''   '' @ report)) Done)))"

definition weather_run_client where
  "weather_run_client hex_decode dial_to key_id key_secret_hex port city =
     example_client hex_decode dial_to (weather_client city) key_id key_secret_hex port"

section \<open>Chat\<close>

text \<open>
  The handlers of the chat read the wall clock (for the event's time): the state of the application is
  the clock's reading, the hub and the world of its channels.
\<close>

definition clocked :: "(nat \<Rightarrow> 's sync_handler) \<Rightarrow> (nat \<times> 's) sync_handler" where
  "clocked h req x = (case x of (unix_ms, s) \<Rightarrow> case h unix_ms req s of (out, s') \<Rightarrow> (out, unix_ms, s'))"

definition clocked_stream :: "'s stream_handler \<Rightarrow> (nat \<times> 's) stream_handler" where
  "clocked_stream h req stream key x = (case x of (unix_ms, s) \<Rightarrow> case h req stream key s of (c, s') \<Rightarrow> (c, unix_ms, s'))"

definition chat_server ::
    "crypto \<Rightarrow> ('w, 'h, 'r) broadcast \<Rightarrow> (nat \<Rightarrow> bytes) \<Rightarrow> ('r \<Rightarrow> (recv_error + event) list) \<Rightarrow>
       ('r \<Rightarrow> 'h hub \<times> 'w \<Rightarrow> 'h hub \<times> 'w) \<Rightarrow> bytes \<Rightarrow> api_key \<Rightarrow> heap \<Rightarrow> (nat \<times> 'h hub \<times> 'w, 'tls) server \<times> heap" where
  "chat_server cr bc nonces recvs others random api_key h =
     (let (srv, h') = server_new cr random (example_key_store api_key) h;
          srv = handle 1 (clocked (chat_send bc)) srv
      in (handle_stream 2 (clocked_stream (chat_subscribe cr bc nonces recvs others)) srv, h'))"

definition chat_announce :: "(bytes \<Rightarrow> string) \<Rightarrow> api_key \<Rightarrow> string \<Rightarrow> written list" where
  "chat_announce hex_encode api_key port =
     [eprintln (''[INF] Hush Chat ready on port '' @ port)] @ announce_key hex_encode api_key port @
     [println (''Join:         cargo run --example chat client '' @ ak_id api_key @ '' '' @
        hex_encode (ak_secret api_key) @ '' '' @ port @ '' <nick>''),
      println []]"

definition chat_run_server where
  "chat_run_server cr bc nonces recvs others hex_encode secret id_bytes random load bind_at local_addr port_of incoming h =
     (let api_key = generate_api_key hex_encode secret id_bytes;
          (srv, h') = chat_server cr bc nonces recvs others random api_key h
      in (example_serve load bind_at local_addr port_of incoming (chat_announce hex_encode api_key) srv, h'))"

text \<open>
  The client's loop over the lines of its input (\<open>None\<close>: a line that could not be read, which counts as empty);
  \<open>show_error\<close> is \<open>Display\<close> of \<open>ClientError\<close>.
\<close>

definition prompt :: written where "prompt = StdOut ''> ''"

fun chat_loop :: "(client_error \<Rightarrow> string) \<Rightarrow> string \<Rightarrow> string option list \<Rightarrow> program" where
  "chat_loop show_error nick [] = Done"
| "chat_loop show_error nick (line # lines) =
     (let msg = trim (or_else [] line)
      in if msg = [] then Print prompt (chat_loop show_error nick lines)
         else if msg = ''/quit'' \<or> msg = ''/exit'' then Done
         else Ask 1 (Some (map_set ''message'' (String msg) (map_set ''nick'' (String nick) map_new))) (\<lambda>r.
           case r of
             Ok _ \<Rightarrow> Print prompt (chat_loop show_error nick lines)
           | Err e \<Rightarrow> Print (println (''send error: '' @ show_error e)) (Print prompt (chat_loop show_error nick lines))))"

definition chat_client :: "(client_error \<Rightarrow> string) \<Rightarrow> string \<Rightarrow> string option list \<Rightarrow> client \<Rightarrow> program" where
  "chat_client show_error nick lines client =
     Print (println ([CHR 0x0A, CHR 0xF0, CHR 0x9F, CHR 0x92, CHR 0xAC] @ '' Joined chat as '' @ nick @
         '' (session '' @ show_u64 (client_session_id client) @ '')''))
       (Print (println (''Type a message and press Enter. Ctrl+C to quit.'' @ [CHR 0x0A]))
         (Print prompt (chat_loop show_error nick lines)))"

definition chat_run_client where
  "chat_run_client hex_decode dial_to show_error lines key_id key_secret_hex port nick =
     example_client hex_decode dial_to (chat_client show_error nick lines) key_id key_secret_hex port"

end
