(* ===== verification/Hush_Examples_Run.thy ===== *)
theory Hush_Examples_Run
  imports Hush_Examples
begin

text \<open>
  Runs of the example programs from end to end: what the client of the notes example prints when it
  runs against the server of the example, whatever the transport.
\<close>

section \<open>Notes\<close>

text \<open>An enumeration of a hash map: its entries, each once, in some order.\<close>

definition enumerates :: "((u64 \<rightharpoonup> string) \<Rightarrow> (u64 \<times> string) list) \<Rightarrow> bool" where
  "enumerates entries \<longleftrightarrow> (\<forall>m. finite (dom m) \<longrightarrow> distinct (map fst (entries m)) \<and> map_of (entries m) = m)"

lemma crud_handlers:
  assumes "crud_server cr entries random api_key h = (srv, h')"
  shows "sv_handlers srv opcode = map_option SyncH (crud_table entries opcode)"
    and "sv_key_store srv = example_key_store api_key" and "(sv_priv srv, sv_pub srv) = generate_key_pair cr random"
  using assms
  by (auto simp: crud_server_def crud_register_def server_new_def handle_def wrap_handler_def crud_table_def
      generate_key_pair_def Let_def split: prod.splits)

lemma promised_reply:
  assumes "handlers opcode = Some (SyncH h)" "payload_fits payload"
    and "h (request_of \<lparr>req_opcode = opcode, req_payload = payload\<rparr> sid aid) s = (reply st m, s')" "map_fits m"
  shows "promised handlers sid aid (\<lambda>_ s. s) (n, s) opcode payload =
    Some (Ok \<lparr>resp_status = st, resp_payload = Some m, resp_seq = word_of_nat n\<rparr>, Suc n, s')"
  using assms by (simp add: promised_def serve_one_def reply_def reply_of_def response_fits_def)

lemma run_ask_expect:
  "promised handlers sid aid env a opcode payload = Some (Ok resp, a') \<Longrightarrow>
   run_spec (promised handlers sid aid env) (ask_expect what opcode payload k) a =
   run_spec (promised handlers sid aid env) (k resp) a'"
  by (simp add: ask_expect_def)

text \<open>Each request of the client, answered.\<close>

abbreviation crud_handlers_of where
  "crud_handlers_of entries \<equiv> \<lambda>opcode. map_option SyncH (crud_table entries opcode)"

abbreviation crud_promised where
  "crud_promised entries sid aid \<equiv> promised (crud_handlers_of entries) sid aid (\<lambda>_ s. s)"

definition short_text :: "string \<Rightarrow> bool" where
  "short_text t \<longleftrightarrow> rust_string t \<and> length t \<le> 1000"

lemmas fits_simps = rust_string_ascii short_text_def vdepth.simps map_new_def

lemma answer_create:
  assumes "short_text text"
  shows "crud_promised entries sid aid (n, s) 1 (Some (map_set ''text'' (String text) map_new)) =
    Some (Ok \<lparr>resp_status = Success, resp_payload = Some [(''id'', Uint64 (cr_next_id s))], resp_seq = word_of_nat n\<rparr>,
      Suc n, s\<lparr>cr_next_id := cr_next_id s + 1, cr_notes := (cr_notes s)(cr_next_id s \<mapsto> text)\<rparr>)"
  using assms
  by (intro promised_reply [where h = crud_create])
    (auto simp: crud_table_def crud_create_def request_of_def get_string_def map_get_def Let_def fits_simps
      intro!: map_fitsI)

lemma answer_get:
  assumes "i \<noteq> 0" "cr_notes s i = Some text" "short_text text"
  shows "crud_promised entries sid aid (n, s) 3 (Some (map_set ''id'' (Uint64 i) map_new)) =
    Some (Ok \<lparr>resp_status = Success, resp_payload = Some [(''id'', Uint64 i), (''text'', String text)],
      resp_seq = word_of_nat n\<rparr>, Suc n, s)"
  using assms
  by (intro promised_reply [where h = crud_get])
    (auto simp: crud_table_def crud_get_def note_id_def request_of_def get_uint64_def map_get_def Let_def fits_simps
      intro!: map_fitsI)

lemma answer_update:
  assumes "i \<noteq> 0" "cr_notes s i \<noteq> None" "short_text text"
  shows "crud_promised entries sid aid (n, s) 4
      (Some (map_set ''text'' (String text) (map_set ''id'' (Uint64 i) map_new))) =
    Some (Ok \<lparr>resp_status = Success, resp_payload = Some [(''id'', Uint64 i), (''updated'', Bool True)],
      resp_seq = word_of_nat n\<rparr>, Suc n, s\<lparr>cr_notes := (cr_notes s)(i \<mapsto> text)\<rparr>)"
  using assms
  by (intro promised_reply [where h = crud_update])
    (auto simp: crud_table_def crud_update_def note_id_def request_of_def get_uint64_def get_string_def map_get_def
      Let_def fits_simps intro!: map_fitsI)

lemma answer_delete:
  assumes "i \<noteq> 0"
  shows "crud_promised entries sid aid (n, s) 5 (Some (map_set ''id'' (Uint64 i) map_new)) =
    Some (Ok \<lparr>resp_status = Success, resp_payload = Some [(''deleted'', Bool (cr_notes s i \<noteq> None))],
      resp_seq = word_of_nat n\<rparr>, Suc n, s\<lparr>cr_notes := (cr_notes s)(i := None)\<rparr>)"
  using assms
  by (intro promised_reply [where h = crud_delete])
    (auto simp: crud_table_def crud_delete_def note_id_def request_of_def get_uint64_def map_get_def
      Let_def fits_simps intro!: map_fitsI)

lemma items_fit:
  assumes "\<forall>(i, t) \<in> set es. short_text t" "length es \<le> 100"
  shows "map_fits [(''notes'', Array (map note_item es)), (''count'', Uint64 c)]"
proof (rule map_fitsI)
  have "tlv_cost (Array (map note_item es)) \<le> 1100 * length es"
    using assms(1) by (induction es) (auto simp: note_item_def short_text_def map_new_def)
  then show "tlv_cost (Map [(''notes'', Array (map note_item es)), (''count'', Uint64 c)]) \<le> 524288"
    using assms(2) by simp
  have d: "vdepth (note_item e) \<le> 1" for e
    using vdepth_Map_le [of 0] by (auto simp: note_item_def map_new_def split: prod.split)
  have "vdepth (Array (map note_item es)) \<le> 2"
    using vdepth_Array_le [of 0 "map note_item es" 2] d by (simp add: numeral_2_eq_2)
  then show "vdepth (Map [(''notes'', Array (map note_item es)), (''count'', Uint64 c)]) \<le> 64"
    by (simp add: vdepth.simps)
qed (use assms(1) in \<open>auto simp: note_item_def fits_simps\<close>)

lemma answer_list:
  assumes "enumerates entries" "finite (dom (cr_notes s))" "card (dom (cr_notes s)) \<le> 100" "\<forall>t \<in> ran (cr_notes s). short_text t"
  shows "crud_promised entries sid aid (n, s) 2 None =
    Some (Ok \<lparr>resp_status = Success, resp_payload = Some [(''notes'', Array (map note_item (entries (cr_notes s)))),
      (''count'', Uint64 (word_of_nat (card (dom (cr_notes s)))))], resp_seq = word_of_nat n\<rparr>, Suc n, s)"
proof (intro promised_reply [where h = "crud_list entries"] items_fit)
  have e: "distinct (map fst (entries (cr_notes s)))" "map_of (entries (cr_notes s)) = cr_notes s"
    using assms(1,2) by (simp_all add: enumerates_def)
  have "card (dom (map_of (entries (cr_notes s)))) = length (entries (cr_notes s))"
    using distinct_card [OF e(1)] by (simp add: dom_map_of_conv_image_fst)
  then have "length (entries (cr_notes s)) = card (dom (cr_notes s))" by (simp only: e(2))
  then show "length (entries (cr_notes s)) \<le> 100" using assms(3) by simp
  show "\<forall>(i, t) \<in> set (entries (cr_notes s)). short_text t"
    using assms(4) map_of_is_SomeI [OF e(1)] by (auto simp: ran_def e(2))
qed (simp_all add: crud_table_def crud_list_def request_of_def Let_def map_new_def)

text \<open>What the client shows of the list.\<close>

definition note_row :: "u64 \<times> string \<Rightarrow> written" where
  "note_row e = println (''   '' @ show_u64 (fst e) @ '': '' @ snd e)"

lemma note_lines_items: "note_lines (Some (Array (map note_item es))) = map note_row es"
  by (induction es)
    (auto simp: note_lines_def note_item_def note_line_def note_row_def map_new_def get_uint64_def get_string_def
      map_get_def or_else_def)

text \<open>Output in front of a run.\<close>

definition after_output :: "written list \<Rightarrow> (written list \<times> exit \<times> 'a) option \<Rightarrow> (written list \<times> exit \<times> 'a) option" where
  "after_output ls r = map_option (\<lambda>(out, e, a). (ls @ out, e, a)) r"

lemma after_output_simps [simp]:
  "after_output ls (Some (out, e, a)) = Some (ls @ out, e, a)"
  "after_output ls (after_output ls' r) = after_output (ls @ ls') r"
  by (cases r; simp add: after_output_def split: prod.split)+

lemma run_print: "run_spec ask (Print l prog) a = after_output [l] (run_spec ask prog a)"
  by (simp add: after_output_def split: option.split)

lemma run_print_all: "run_spec ask (print_all ls prog) a = after_output ls (run_spec ask prog a)"
proof (induction ls)
  case Nil
  show ?case by (cases "run_spec ask prog a") (auto simp: after_output_def)
qed (simp only: print_all.simps run_print, simp)

lemma run_list_notes:
  assumes "enumerates entries" "finite (dom notes)" "card (dom notes) \<le> 100" "\<forall>t \<in> ran notes. short_text t" "cr_notes s = notes"
  shows "run_spec (crud_promised entries sid aid) (crud_list_notes what prog) (n, s) =
    after_output (println (CHR 0x0A # clipboard @ '' '' @ show_u64 (word_of_nat (card (dom notes))) @ '' notes '' @ what) #
      map note_row (entries notes)) (run_spec (crud_promised entries sid aid) prog (Suc n, s))"
  unfolding crud_list_notes_def run_ask_expect [OF answer_list [OF assms(1-4) [folded assms(5)]]]
  by (simp add: Let_def resp_field_def or_else_def get_uint64_def map_get_def note_lines_items run_print run_print_all assms(5)
      del: run_spec.simps(3))

text \<open>The whole client on a new server: what it prints, and the notes it leaves.\<close>

definition demo_notes :: "u64 \<rightharpoonup> string" where
  "demo_notes = [1 \<mapsto> ''buy milk'', 2 \<mapsto> ''call mom'', 3 \<mapsto> ''fix the bug'']"

definition demo_left :: "u64 \<rightharpoonup> string" where
  "demo_left = [1 \<mapsto> ''buy milk and eggs'', 2 \<mapsto> ''call mom'']"

definition demo_output :: "((u64 \<rightharpoonup> string) \<Rightarrow> (u64 \<times> string) list) \<Rightarrow> u64 \<Rightarrow> written list" where
  "demo_output entries sid =
     [println (''Session: '' @ show_u64 sid @ [CHR 0x0A]),
      println ([CHR 0xE2, CHR 0x9C, CHR 0x85] @ '' Created note 1: buy milk''),
      println ([CHR 0xE2, CHR 0x9C, CHR 0x85] @ '' Created note 2: call mom''),
      println ([CHR 0xE2, CHR 0x9C, CHR 0x85] @ '' Created note 3: fix the bug''),
      println (CHR 0x0A # clipboard @ '' 3 notes total'')] @ map note_row (entries demo_notes) @
     [println ([CHR 0x0A, CHR 0xE2, CHR 0x9C, CHR 0x8F, CHR 0xEF, CHR 0xB8, CHR 0x8F] @ ''  Updated note 1''),
      println ([CHR 0xF0, CHR 0x9F, CHR 0x94, CHR 0x8D] @ ''  Note 1: buy milk and eggs''),
      println ([CHR 0xF0, CHR 0x9F, CHR 0x97, CHR 0x91, CHR 0xEF, CHR 0xB8, CHR 0x8F] @ ''  Deleted note 3''),
      println (CHR 0x0A # clipboard @ '' 2 notes remaining'')] @ map note_row (entries demo_left)"

lemma show_u64_digit: "n < 10 \<Longrightarrow> show_u64 (word_of_nat n) = [digit n]"
  by (simp add: show_u64_def decimal.simps unat_of_nat)

lemma show_u64_simps: "show_u64 1 = ''1''" "show_u64 2 = ''2''" "show_u64 3 = ''3''"
  using show_u64_digit [of 1] show_u64_digit [of 2] show_u64_digit [of 3] by (simp_all add: digit_def char_of_eq_iff)

lemma demo_short: "short_text ''buy milk''" "short_text ''call mom''" "short_text ''fix the bug''" "short_text ''buy milk and eggs''"
  by (simp_all add: short_text_def rust_string_ascii)

lemma demo_run:
  assumes "enumerates entries"
  shows "run_spec (crud_promised entries sid aid) (crud_client cl) (0, crud_init) =
    Some (demo_output entries (client_session_id cl), Finished, 8, \<lparr>cr_notes = demo_left, cr_next_id = 4\<rparr>)"
proof -
  let ?run = "run_spec (crud_promised entries sid aid)"
  have d: "dom demo_notes = {1, 2, 3}" "dom demo_left = {1, 2}" by (auto simp: demo_notes_def demo_left_def)
  have r: "\<forall>t \<in> ran demo_notes. short_text t" "\<forall>t \<in> ran demo_left. short_text t"
    by (auto simp: demo_notes_def demo_left_def ran_def demo_short split: if_splits)
  have list3: "?run (crud_list_notes what prog) (n, s) =
      after_output (println (CHR 0x0A # clipboard @ '' 3 notes '' @ what) # map note_row (entries demo_notes)) (?run prog (Suc n, s))"
    if "cr_notes s = demo_notes" for what prog n s
    by (subst run_list_notes [OF assms _ _ r(1) that]) (simp_all add: d show_u64_simps)
  have list2: "?run (crud_list_notes what prog) (n, s) =
      after_output (println (CHR 0x0A # clipboard @ '' 2 notes '' @ what) # map note_row (entries demo_left)) (?run prog (Suc n, s))"
    if "cr_notes s = demo_left" for what prog n s
    by (subst run_list_notes [OF assms _ _ r(2) that]) (simp_all add: d show_u64_simps)
  have one: "demo_notes 1 = Some ''buy milk''" by (simp add: demo_notes_def)
  have left: "demo_notes(1 \<mapsto> ''buy milk and eggs'', 3 := None) = demo_left"
    by (auto simp: demo_notes_def demo_left_def)
  have fields: "resp_field get_uint64 ''id'' \<lparr>resp_status = st, resp_payload = Some [(''id'', Uint64 i)], resp_seq = q\<rparr> = Some i"
    "resp_field get_string ''text'' \<lparr>resp_status = st, resp_payload = Some [(''id'', Uint64 i), (''text'', String t)], resp_seq = q\<rparr> = Some t"
    for st i q t by (simp_all add: resp_field_def get_uint64_def get_string_def map_get_def)
  let ?s3 = "\<lparr>cr_notes = demo_notes, cr_next_id = 4\<rparr>"
  have create: "?run (crud_create_all [''buy milk'', ''call mom'', ''fix the bug''] [] k) (0, crud_init) =
      after_output (take 3 (drop 1 (demo_output entries sid))) (?run (k [1, 2, 3]) (3, ?s3))" for k
    by (simp add: run_ask_expect [OF answer_create] fields demo_short run_print crud_init_def show_u64_simps
        demo_output_def demo_notes_def numeral_3_eq_3 del: run_spec.simps(3))
  show ?thesis
    by (simp add: crud_client_def run_print create list3 list2 left one run_ask_expect [OF answer_update]
        run_ask_expect [OF answer_get] run_ask_expect [OF answer_delete] fields demo_short or_else_def show_u64_simps
        del: run_spec.simps(3) crud_create_all.simps)
      (simp add: demo_output_def)
qed

section \<open>Server and client together\<close>

text \<open>
  Dialling a running server: \<open>sid\<close> is the identifier its accept loop drew for the connection, \<open>st\<close>
  its session store, \<open>s\<close> the state of the application.
\<close>

definition stack_dial where
  "stack_dial dial_with handshake exchange_by cr random now since srv sid nonces obs st s addr key =
     (case connect dial_with handshake cr random now key (sv_priv srv) (sv_pub srv) (sv_key_store srv) sid of
        (Err e, _) \<Rightarrow> Err e
      | (Ok client, Err _) \<Rightarrow> Ok (client, \<lambda>prog. case run (\<lambda>p _ _. (Err (ClIo UnexpectedEof), p)) prog () of (out, e, _) \<Rightarrow> (out, e))
      | (Ok client, Ok (aid, session_key)) \<Rightarrow> Ok (client, \<lambda>prog.
          case run (ask_over (exchange_by cr (sv_handlers srv) sid aid session_key) nonces obs) prog
            (0, client, store_insert (session_new since sid aid session_key) st, s) of (out, e, _) \<Rightarrow> (out, e)))"

text \<open>What the examples rely on of the \<open>hex\<close> crate.\<close>

definition hex_ok :: "(bytes \<Rightarrow> string) \<Rightarrow> (string \<Rightarrow> string + bytes) \<Rightarrow> bool" where
  "hex_ok hex_encode hex_decode \<longleftrightarrow> (\<forall>b. hex_decode (hex_encode b) = Ok b \<and>
     rust_string (hex_encode b) \<and> length (hex_encode b) = 2 * length b)"

lemma listen_on_keeps: "listen_on local_addr incoming sv = (r, gc, tasks, sv') \<Longrightarrow> \<exists>n. sv' = sv\<lparr>sv_next_id := n\<rparr>"
proof -
  have keep: "accept_loop incoming sv = (r, tasks, sv') \<Longrightarrow> \<exists>n. sv' = sv\<lparr>sv_next_id := n\<rparr>" for r tasks
    using accept_loop_spec [of incoming sv r tasks sv'] by (cases "accepted incoming") blast
  assume "listen_on local_addr incoming sv = (r, gc, tasks, sv')"
  then show ?thesis
    by (auto simp: listen_on_def Let_def dest!: keep split: sum.splits prod.splits) (metis server.surjective server.update_convs(4))
qed

text \<open>
  The surroundings of a run: primitives and nonces as documented, a session within its timeouts, and
  other connections that leave it alone.
\<close>

definition quiet ::
    "crypto \<Rightarrow> u64 \<Rightarrow> (nat \<Rightarrow> 's \<Rightarrow> 's) \<Rightarrow> (nat \<Rightarrow> bytes) \<Rightarrow> (nat \<Rightarrow> 's observation) \<Rightarrow> instant \<Rightarrow> session_store \<Rightarrow> bool" where
  "quiet cr sid env nonces obs since st \<longleftrightarrow> dh_ok cr \<and> hkdf_ok cr \<and> aead_ok cr \<and>
     (\<forall>i. length (nonces i) = NONCE_SIZE) \<and> (\<forall>i. length (ob_nonce (obs i)) = NONCE_SIZE) \<and> leave_session sid env obs \<and>
     (\<forall>i. elapsed (ob_now (obs i)) since \<le> max_lifetime (ss_config st) \<and> elapsed (ob_later (obs i)) since \<le> idle_timeout (ss_config st))"

lemma program_connects:
  assumes "quiet cr sid env nonces obs since st" "(dial_with, handshake, exchange_by) \<in> transports"
    and "rust_string (ak_id key)" "length (ak_id key) \<le> 256" "sv_key_store srv = example_key_store key"
    and "(sv_priv srv, sv_pub srv) = generate_key_pair cr priv"
    and "\<And>cl. client_session_id cl = sid \<Longrightarrow>
      run_spec (promised (sv_handlers srv) sid (ak_id key) env) (prog cl) (0, s) = Some (out, e, n, s')"
  obtains cl k cl' st' where "connect dial_with handshake cr random now key (sv_priv srv) (sv_pub srv) (sv_key_store srv) sid =
      (Ok cl, Ok (ak_id key, k))" "client_session_id cl = sid"
    "run (ask_over (exchange_by cr (sv_handlers srv) sid (ak_id key) k) nonces obs) (prog cl)
      (0, cl, store_insert (session_new since sid (ak_id key) k) st, s) = (out, e, n, cl', st', s')"
proof -
  have known: "ak_id key \<noteq> [] \<longrightarrow> sv_key_store srv (ak_id key) = Some (ak_secret key)"
    by (simp add: assms(5) example_key_store_def)
  have pub: "sv_priv srv = priv" "sv_pub srv = snd (generate_key_pair cr priv)"
    using assms(6) by (simp_all add: generate_key_pair_def)
  from assms(2) have pair: "(dial_with, handshake) \<in> dial_pairs" by auto
  have q: "dh_ok cr" "hkdf_ok cr" "aead_ok cr" "\<forall>i. length (nonces i) = NONCE_SIZE" "\<forall>i. length (ob_nonce (obs i)) = NONCE_SIZE"
    "leave_session sid env obs" "\<forall>i. elapsed (ob_now (obs i)) since \<le> max_lifetime (ss_config st) \<and>
      elapsed (ob_later (obs i)) since \<le> idle_timeout (ss_config st)"
    using assms(1) by (simp_all add: quiet_def)
  obtain cl where cl: "connect dial_with handshake cr random now key priv (snd (generate_key_pair cr priv)) (sv_key_store srv) sid =
      (Ok cl, Ok (ak_id key, cl_session_key cl))" "client_session_id cl = sid"
    by (rule connect_ok [where key = key and key_store = "sv_key_store srv", OF pair q(1,2) assms(4,3) known])
  from program_on_stack [where key = key and key_store = "sv_key_store srv" and nonces = nonces and obs = obs and st = st,
      OF q(1-3) assms(4,3) known q(4-7) assms(2) assms(7) [OF cl(2)], of random now priv] cl
  obtain cl' st' where "run (ask_over (exchange_by cr (sv_handlers srv) sid (ak_id key) (cl_session_key cl)) nonces obs) (prog cl)
      (0, cl, store_insert (session_new since sid (ak_id key) (cl_session_key cl)) st, s) = (out, e, n, cl', st', s')" by auto
  then show thesis using that cl by (simp add: pub)
qed

lemma example_client_runs:
  assumes "quiet cr sid env nonces obs since st" and "hex_ok hex_encode hex_decode"
    and "(dial_with, handshake, exchange_by) \<in> transports"
    and "sv_key_store srv = example_key_store (generate_api_key hex_encode secret id_bytes)" "length id_bytes = 8"
    and "(sv_priv srv, sv_pub srv) = generate_key_pair cr priv"
    and "\<And>cl. client_session_id cl = sid \<Longrightarrow>
      run_spec (promised (sv_handlers srv) sid (hex_encode id_bytes) env) (prog cl) (0, s) = Some (out, e, n, s')"
  shows "example_client hex_decode (stack_dial dial_with handshake exchange_by cr random now since srv sid nonces obs st s)
    prog (hex_encode id_bytes) (hex_encode secret) port = (out, e)"
proof -
  let ?key = "generate_api_key hex_encode secret id_bytes"
  have hex: "hex_decode (hex_encode secret) = Ok secret" "rust_string (ak_id ?key)" "length (ak_id ?key) \<le> 256"
    using assms(2,5) by (simp_all add: hex_ok_def generate_api_key_def)
  show ?thesis
    by (rule program_connects [OF assms(1,3) hex(2,3) assms(4,6), of prog s out e n s' random now])
      (simp_all add: assms(7) hex(1) generate_api_key_def example_client_def stack_dial_def)
qed

lemma example_serve_listens:
  assumes "example_serve load bind_at local_addr port_of incoming announce srv = (lines, None, Some (tasks, srv'))"
  obtains n port where "srv' = srv\<lparr>sv_next_id := n\<rparr>" "lines = announce port"
  using assms
  by (auto simp: example_serve_def Let_def split: sum.splits prod.splits option.splits dest!: listen_on_keeps)

text \<open>
  C23. The notes example. When its server is up, the client started with the key id, secret and port
  that the server printed connects, over QUIC or TCP, as session \<open>sid\<close>, and prints exactly this: its session, the
  three notes it creates as 1, 2 and 3, all three notes as listed, the update of the first and its new text, the
  deletion of the third, and the two notes that remain; it does not panic. Only the order within the two
  listings depends on the server's hash map.
\<close>

theorem notes_example:
  assumes "quiet cr sid (\<lambda>_ s. s) nonces obs since st" and "hex_ok hex_encode hex_decode" and "enumerates entries"
    and "(dial_with, handshake, exchange_by) \<in> transports" and "length id_bytes = 8"
    and "crud_run_server cr hex_encode entries secret id_bytes priv load bind_at local_addr port_of incoming h =
      ((lines, None, Some (tasks, srv)), h')"
    and "(conn, sid) \<in> set tasks" and "hp_stores h' (sv_sessions srv) = Some st"
  shows "\<exists>port. lines = crud_announce hex_encode \<lparr>ak_id = hex_encode id_bytes, ak_secret = secret\<rparr> port \<and>
    crud_run_client hex_decode
      (stack_dial dial_with handshake exchange_by cr random now since srv sid nonces obs st crud_init)
      (hex_encode id_bytes) (hex_encode secret) port = (demo_output entries sid, Finished)"
proof -
  let ?key = "generate_api_key hex_encode secret id_bytes"
  from assms(6) obtain srv0 h0 where srv0: "crud_server cr entries priv ?key h = (srv0, h0)"
    and serve: "example_serve load bind_at local_addr port_of incoming (crud_announce hex_encode ?key) srv0 = (lines, None, Some (tasks, srv))"
    by (auto simp: crud_run_server_def Let_def split: prod.splits)
  obtain n port where srv: "srv = srv0\<lparr>sv_next_id := n\<rparr>" and lines: "lines = crud_announce hex_encode ?key port"
    by (rule example_serve_listens [OF serve])
  have keys: "sv_key_store srv = example_key_store ?key" "(sv_priv srv, sv_pub srv) = generate_key_pair cr priv"
    and handlers: "sv_handlers srv = crud_handlers_of entries"
    using crud_handlers [OF srv0] by (simp_all add: srv fun_eq_iff)
  have "crud_run_client hex_decode (stack_dial dial_with handshake exchange_by cr random now since srv sid nonces obs st crud_init)
      (hex_encode id_bytes) (hex_encode secret) port = (demo_output entries sid, Finished)"
    unfolding crud_run_client_def
    by (rule example_client_runs [OF assms(1,2,4) keys(1) assms(5) keys(2)], unfold handlers) (simp add: demo_run [OF assms(3)])
  then show ?thesis using lines by (auto simp: generate_api_key_def)
qed

text \<open>For the witness: two letters for a byte, and an enumeration in the order of the identifiers.\<close>

definition toy_hex :: "bytes \<Rightarrow> string" where
  "toy_hex b = concat (map (\<lambda>x. [char_of (97 + unat x div 16), char_of (97 + unat x mod 16)]) b)"

fun toy_unhex :: "string \<Rightarrow> string + bytes" where
  "toy_unhex [] = Ok []"
| "toy_unhex [c] = Err ''odd length''"
| "toy_unhex (c # d # s) = and_then (toy_unhex s) (\<lambda>b. Ok (word_of_nat ((of_char c - 97) * 16 + (of_char d - 97)) # b))"

lemma toy_hex_ok: "hex_ok toy_hex toy_unhex"
proof -
  have h: "of_char (char_of (97 + unat x div 16) :: char) = 97 + unat x div 16" "unat x div 16 < 16" for x :: u8
    using unsigned_less [of x, where ?'a = nat] by (auto simp: of_char_of mod_less)
  have l: "of_char (char_of (97 + unat x mod 16) :: char) = 97 + unat x mod 16" for x :: u8
    by (simp add: of_char_of)
  have m: "(97 + unat x div 16) mod 256 < 128" for x :: u8 using h(2) [of x] by simp
  have r: "word_of_nat ((of_char (char_of (97 + unat x div 16) :: char) - 97) * 16 +
      (of_char (char_of (97 + unat x mod 16) :: char) - 97)) = x" for x :: u8
    by (simp only: h(1) l add_diff_cancel_left' div_mult_mod_eq of_nat_unat ucast_id)
  have "toy_unhex (toy_hex b) = Ok b" for b
  proof (induction b)
    case (Cons x b)
    have "toy_hex (x # b) = char_of (97 + unat x div 16) # char_of (97 + unat x mod 16) # toy_hex b"
      by (simp add: toy_hex_def)
    then show ?case by (simp only: toy_unhex.simps r Cons.IH and_then_simps)
  qed (simp add: toy_hex_def)
  moreover have "rust_string (toy_hex b)" for b
    by (rule rust_string_ascii) (auto simp: toy_hex_def m l)
  moreover have "length (toy_hex b) = 2 * length b" for b by (induction b) (simp_all add: toy_hex_def)
  ultimately show ?thesis by (simp add: hex_ok_def)
qed

definition toy_entries :: "(u64 \<rightharpoonup> string) \<Rightarrow> (u64 \<times> string) list" where
  "toy_entries m = map (\<lambda>k. (k, the (m k))) (sorted_list_of_set (dom m))"

lemma toy_enumerates: "enumerates toy_entries"
proof -
  have "map_of (map (\<lambda>k. (k, the (m k))) (sorted_list_of_set (dom m))) = m" for m :: "u64 \<rightharpoonup> string"
    by (rule ext) (auto simp: map_of_map_restrict restrict_map_def domIff)
  then show ?thesis by (simp add: enumerates_def toy_entries_def o_def)
qed

definition still_ob :: "'s observation" where
  "still_ob = \<lparr>ob_now = 0, ob_later = 0, ob_nonce = toy_nonce, ob_env = (\<lambda>x. x)\<rparr>"

lemma still_leave: "leave_session sid (\<lambda>_ s. s) (\<lambda>_. still_ob)"
  by (simp add: leave_session_def still_ob_def)

lemma still_simps: "ob_now still_ob = 0" "ob_later still_ob = 0" "ob_nonce still_ob = toy_nonce"
  by (simp_all add: still_ob_def)

lemma still_quiet: "quiet toy_crypto sid (\<lambda>_ s. s) (\<lambda>_. toy_nonce) (\<lambda>_. still_ob) 0 (store_new (config_fill default_config))"
  by (simp add: quiet_def toy_dh_ok toy_hkdf_ok toy_aead_ok toy_lengths still_leave elapsed_def still_simps)

theorem notes_example_witness:
  "\<exists>lines tasks (srv :: (crud, unit) server) h' port.
     crud_run_server toy_crypto toy_hex toy_entries [1] (replicate 8 2) [2] (\<lambda>_ _. Ok ()) (\<lambda>_ _. Ok ()) (\<lambda>_. Ok 4433) (\<lambda>p. p)
       [Incoming ()] \<lparr>hp_stores = Map.empty, hp_fresh = 0\<rparr> = ((lines, None, Some (tasks, srv)), h') \<and>
     lines = crud_announce toy_hex \<lparr>ak_id = toy_hex (replicate 8 2), ak_secret = [1]\<rparr> port \<and>
     crud_run_client toy_unhex (stack_dial client_dial quic_handshake quic_exchange toy_crypto [3] 5 0 srv 1 (\<lambda>_. toy_nonce)
         (\<lambda>_. still_ob) (store_new (config_fill default_config)) crud_init) (toy_hex (replicate 8 2)) (toy_hex [1]) port =
       (demo_output toy_entries 1, Finished)"
proof -
  let ?h = "\<lparr>hp_stores = Map.empty, hp_fresh = 0\<rparr>" and ?st = "store_new (config_fill default_config)"
  obtain lines tasks and srv :: "(crud, unit) server" and h' where up:
    "crud_run_server toy_crypto toy_hex toy_entries [1] (replicate 8 2) [2] (\<lambda>_ _. Ok ()) (\<lambda>_ _. Ok ()) (\<lambda>_. Ok 4433) (\<lambda>p. p)
       [Incoming ()] ?h = ((lines, None, Some (tasks, srv)), h')"
    and task: "((), 1) \<in> set tasks" and st: "hp_stores h' (sv_sessions srv) = Some ?st"
    by (auto simp: crud_run_server_def crud_server_def server_new_def crud_register_def handle_def example_serve_def
        listen_on_def accept_session_id_def fetch_next_id_def heap_alloc_def Let_def)
  have "\<exists>port. lines = crud_announce toy_hex \<lparr>ak_id = toy_hex (replicate 8 2), ak_secret = [1]\<rparr> port \<and>
    crud_run_client toy_unhex (stack_dial client_dial quic_handshake quic_exchange toy_crypto [3] 5 0 srv 1 (\<lambda>_. toy_nonce)
      (\<lambda>_. still_ob) ?st crud_init) (toy_hex (replicate 8 2)) (toy_hex [1]) port = (demo_output toy_entries 1, Finished)"
    by (rule notes_example [OF still_quiet toy_hex_ok toy_enumerates _ _ up task st]) simp_all
  then show ?thesis using up by blast
qed

end
