(* ===== verification/Hush_Examples_Talk.thy ===== *)
theory Hush_Examples_Talk
  imports Hush_Examples_Run
begin

text \<open>
  Runs of the weather and the chat example from end to end: what their clients print for whatever
  the weather service answers and whatever the user types, and what the chat's hub gets.
\<close>

section \<open>Weather\<close>

definition weather_printed :: "string \<Rightarrow> string + string option \<Rightarrow> written list" where
  "weather_printed city r = (case r of
     Ok body \<Rightarrow> [println ([CHR 0x0A, CHR 0xF0, CHR 0x9F, CHR 0x8C, CHR 0x8D] @ ''  '' @ city),
                println ([CHR 0xF0, CHR 0x9F, CHR 0x8C, CHR 0xA4] @ ''   '' @ or_else [] body)]
   | Err e \<Rightarrow> [eprintln (''error: fetch failed: '' @ e)])"

text \<open>Text that fits a message together with \<open>n\<close> more bytes.\<close>

definition sendable_with :: "nat \<Rightarrow> string \<Rightarrow> bool" where
  "sendable_with n s \<longleftrightarrow> rust_string s \<and> n + length s \<le> 500000"

lemma answer_weather:
  assumes "handlers 1 = Some (SyncH (weather fetch))" "sendable_with 0 city"
    and "case fetch (weather_url city) ''curl/8.0'' of Ok r \<Rightarrow> sendable_with (length city) (or_else [] r) | Err e \<Rightarrow> sendable_with 0 e"
  shows "run_spec (promised handlers sid aid env) (weather_client city cl) (0, s) =
    Some (weather_printed city (fetch (weather_url city) ''curl/8.0''), Finished, 1, env 0 s)"
proof -
  have req: "map_fits (map_set ''city'' (String city) map_new)"
    using assms(2) by (intro map_fitsI) (auto simp: sendable_with_def fits_simps)
  show ?thesis
  proof (cases "fetch (weather_url city) ''curl/8.0''")
    case (Inl e)
    have "map_fits (map_set ''error'' (String (''fetch failed: '' @ e)) map_new)"
      using assms(3) Inl
      by (intro map_fitsI) (auto simp: sendable_with_def fits_simps intro: rust_string_append [of "''fetch failed: ''", simplified])
    then show ?thesis
      using req assms(1) Inl
      by (simp add: weather_client_def ask_expect_def promised_def serve_one_def request_of_def weather_def get_string_def
          map_get_def map_new_def reply_error_def reply_def reply_of_def response_fits_def weather_printed_def
          resp_field_def or_else_def)
  next
    case (Inr r)
    have "map_fits (map_set ''weather'' (String (or_else [] r)) (map_set ''city'' (String city) map_new))"
      using assms(2,3) Inr by (intro map_fitsI) (auto simp: sendable_with_def fits_simps)
    then show ?thesis
      using req assms(1) Inr
      by (simp add: weather_client_def ask_expect_def promised_def serve_one_def request_of_def weather_def get_string_def
          map_get_def map_new_def reply_def reply_of_def response_fits_def weather_printed_def
          resp_field_def or_else_def)
  qed
qed

text \<open>
  C26. The weather example. When its server is up, the client started with what the server printed and
  with a city prints the city and the report, if the weather service answered the request for
  that city, and otherwise the error, and it ends without a panic, over QUIC and TCP alike.
\<close>

theorem weather_example:
  assumes "quiet cr sid env nonces obs since st" and "hex_ok hex_encode hex_decode"
    and "(dial_with, handshake, exchange_by) \<in> transports" and "length id_bytes = 8"
    and "weather_run_server cr hex_encode fetch secret id_bytes priv load bind_at local_addr port_of incoming h =
      ((lines, None, Some (tasks, srv)), h')"
    and "(conn, sid) \<in> set tasks" and "hp_stores h' (sv_sessions srv) = Some st"
    and "sendable_with 0 city"
    and "case fetch (weather_url city) ''curl/8.0'' of Ok r \<Rightarrow> sendable_with (length city) (or_else [] r) | Err e \<Rightarrow> sendable_with 0 e"
  shows "\<exists>port. lines = weather_announce hex_encode \<lparr>ak_id = hex_encode id_bytes, ak_secret = secret\<rparr> port \<and>
    weather_run_client hex_decode
      (stack_dial dial_with handshake exchange_by cr random now since srv sid nonces obs st s)
      (hex_encode id_bytes) (hex_encode secret) port city =
      (weather_printed city (fetch (weather_url city) ''curl/8.0''), Finished)"
proof -
  let ?key = "generate_api_key hex_encode secret id_bytes"
  from assms(5) obtain srv0 h0 where srv0: "weather_server cr fetch priv ?key h = (srv0, h0)"
    and serve: "example_serve load bind_at local_addr port_of incoming (weather_announce hex_encode ?key) srv0 = (lines, None, Some (tasks, srv))"
    by (auto simp: weather_run_server_def Let_def split: prod.splits)
  obtain n port where srv: "srv = srv0\<lparr>sv_next_id := n\<rparr>" and lines: "lines = weather_announce hex_encode ?key port"
    by (rule example_serve_listens [OF serve])
  have keys: "sv_key_store srv = example_key_store ?key" "(sv_priv srv, sv_pub srv) = generate_key_pair cr priv"
    and handlers: "sv_handlers srv 1 = Some (SyncH (weather fetch))"
    using srv0
    by (auto simp: srv weather_server_def server_new_def handle_def generate_key_pair_def Let_def split: prod.splits)
  have "weather_run_client hex_decode (stack_dial dial_with handshake exchange_by cr random now since srv sid nonces obs st s)
      (hex_encode id_bytes) (hex_encode secret) port city = (weather_printed city (fetch (weather_url city) ''curl/8.0''), Finished)"
    unfolding weather_run_client_def
    by (rule example_client_runs [OF assms(1-3) keys(1) assms(4) keys(2)])
      (rule answer_weather [where handlers = "sv_handlers srv", OF handlers assms(8,9)])
  then show ?thesis using lines by (auto simp: generate_api_key_def)
qed

theorem weather_example_witness:
  "\<exists>lines tasks (srv :: (unit, unit) server) h' port.
     weather_run_server toy_crypto toy_hex (\<lambda>_ _. Err ''timeout'') [1] (replicate 8 2) [2] (\<lambda>_ _. Ok ()) (\<lambda>_ _. Ok ()) (\<lambda>_. Ok 4433) (\<lambda>p. p)
       [Incoming ()] \<lparr>hp_stores = Map.empty, hp_fresh = 0\<rparr> = ((lines, None, Some (tasks, srv)), h') \<and>
     lines = weather_announce toy_hex \<lparr>ak_id = toy_hex (replicate 8 2), ak_secret = [1]\<rparr> port \<and>
     weather_run_client toy_unhex (stack_dial client_dial_tcp tcp_handshake exchange toy_crypto [3] 5 0 srv 1 (\<lambda>_. toy_nonce)
         (\<lambda>_. still_ob) (store_new (config_fill default_config)) ()) (toy_hex (replicate 8 2)) (toy_hex [1]) port ''Rome'' =
       ([eprintln ''error: fetch failed: timeout''], Finished)"
proof -
  let ?h = "\<lparr>hp_stores = Map.empty, hp_fresh = 0\<rparr>" and ?st = "store_new (config_fill default_config)"
  let ?fetch = "\<lambda>_ _. Err ''timeout''"
  obtain lines tasks and srv :: "(unit, unit) server" and h' where up:
    "weather_run_server toy_crypto toy_hex ?fetch [1] (replicate 8 2) [2] (\<lambda>_ _. Ok ()) (\<lambda>_ _. Ok ()) (\<lambda>_. Ok 4433) (\<lambda>p. p)
       [Incoming ()] ?h = ((lines, None, Some (tasks, srv)), h')"
    and task: "((), 1) \<in> set tasks" and st: "hp_stores h' (sv_sessions srv) = Some ?st"
    by (auto simp: weather_run_server_def weather_server_def server_new_def handle_def example_serve_def
        listen_on_def accept_session_id_def fetch_next_id_def heap_alloc_def Let_def)
  have "sendable_with 0 ''Rome''" "sendable_with 0 ''timeout''" by (simp_all add: sendable_with_def rust_string_ascii)
  then have "\<exists>port. lines = weather_announce toy_hex \<lparr>ak_id = toy_hex (replicate 8 2), ak_secret = [1]\<rparr> port \<and>
    weather_run_client toy_unhex (stack_dial client_dial_tcp tcp_handshake exchange toy_crypto [3] 5 0 srv 1 (\<lambda>_. toy_nonce)
      (\<lambda>_. still_ob) ?st ()) (toy_hex (replicate 8 2)) (toy_hex [1]) port ''Rome'' =
      (weather_printed ''Rome'' (?fetch (weather_url ''Rome'') ''curl/8.0''), Finished)"
    by (intro weather_example [OF still_quiet toy_hex_ok _ _ up task st]) simp_all
  then show ?thesis using up by (auto simp: weather_printed_def)
qed

section \<open>Chat\<close>

text \<open>What the user says: the trimmed lines up to \<open>/quit\<close> or \<open>/exit\<close>, and of them the ones that are not empty.\<close>

definition chat_heard :: "string option list \<Rightarrow> string list" where
  "chat_heard lines = takeWhile (\<lambda>m. m \<noteq> ''/quit'' \<and> m \<noteq> ''/exit'') (map (\<lambda>l. trim (or_else [] l)) lines)"

definition chat_said :: "string option list \<Rightarrow> string list" where
  "chat_said lines = filter (\<lambda>m. m \<noteq> []) (chat_heard lines)"

text \<open>What this does to the hub: each message is published once, in order, at the time it arrives.\<close>

fun chat_published ::
    "('w, 'h, 'r) broadcast \<Rightarrow> string \<Rightarrow> (nat \<Rightarrow> nat \<times> 'h hub \<times> 'w \<Rightarrow> nat \<times> 'h hub \<times> 'w) \<Rightarrow> nat \<Rightarrow> string list \<Rightarrow>
       nat \<times> 'h hub \<times> 'w \<Rightarrow> nat \<times> 'h hub \<times> 'w" where
  "chat_published bc nick env n [] x = x"
| "chat_published bc nick env n (m # ms) x =
     (case env n x of (unix_ms, hub, w) \<Rightarrow> chat_published bc nick env (Suc n) ms
        (unix_ms, hub, snd (hub_publish bc unix_ms ''chat'' [(''nick'', String nick), (''message'', String m)] hub w)))"

lemma answer_chat:
  assumes "handlers 1 = Some (SyncH (clocked (chat_send bc)))" "sendable_with (length msg) nick" "rust_string msg"
  shows "promised handlers sid aid env (n, x) 1 (Some (map_set ''message'' (String msg) (map_set ''nick'' (String nick) map_new))) =
    Some (Ok \<lparr>resp_status = Success, resp_payload = Some [(''sent'', Bool True)], resp_seq = word_of_nat n\<rparr>,
      Suc n, chat_published bc nick env n [msg] x)"
proof -
  have req: "map_fits (map_set ''message'' (String msg) (map_set ''nick'' (String nick) map_new))"
    using assms(2,3) by (intro map_fitsI) (auto simp: sendable_with_def fits_simps)
  have "map_fits [(''sent'', Bool True)]" by (intro map_fitsI) (auto simp: fits_simps)
  then show ?thesis
    using req assms(1)
    by (auto simp: promised_def serve_one_def request_of_def clocked_def chat_send_def get_string_def map_get_def map_new_def
        reply_def reply_of_def response_fits_def split: prod.splits)
qed

lemma chat_published_Cons:
  "chat_published bc nick env n (m # ms) x = chat_published bc nick env (Suc n) ms (chat_published bc nick env n [m] x)"
  by (simp split: prod.split)

lemma run_chat_loop:
  assumes "handlers 1 = Some (SyncH (clocked (chat_send bc)))" and "\<forall>m \<in> set (chat_said lines). sendable_with (length m) nick \<and> rust_string m"
  shows "run_spec (promised handlers sid aid env) (chat_loop show_error nick lines) (n, x) =
    Some (replicate (length (chat_heard lines)) prompt, Finished, n + length (chat_said lines),
      chat_published bc nick env n (chat_said lines) x)"
  using assms(2)
proof (induction lines arbitrary: n x)
  case Nil
  show ?case by (simp add: chat_heard_def chat_said_def)
next
  case (Cons line lines)
  let ?msg = "trim (or_else [] line)"
  consider (empty) "?msg = []" | (quit) "?msg = ''/quit'' \<or> ?msg = ''/exit''"
    | (say) "?msg \<noteq> []" "?msg \<noteq> ''/quit''" "?msg \<noteq> ''/exit''" by blast
  then show ?case
  proof cases
    case empty
    then have "chat_heard (line # lines) = [] # chat_heard lines" "chat_said (line # lines) = chat_said lines"
      by (simp_all add: chat_heard_def chat_said_def)
    then show ?thesis using empty Cons by simp
  next
    case quit
    then have "chat_heard (line # lines) = []" "chat_said (line # lines) = []" "?msg \<noteq> []"
      by (auto simp: chat_heard_def chat_said_def)
    then show ?thesis using quit by (auto simp: Let_def)
  next
    case say
    then have s: "chat_heard (line # lines) = ?msg # chat_heard lines" "chat_said (line # lines) = ?msg # chat_said lines"
      by (simp_all add: chat_heard_def chat_said_def)
    then have fits: "sendable_with (length ?msg) nick" "rust_string ?msg" using Cons.prems by simp_all
    show ?thesis
      using say Cons.IH [of "Suc n"] Cons.prems
      by (simp add: answer_chat [where handlers = handlers and msg = ?msg, OF assms(1) fits] s chat_published_Cons [of _ _ _ _ _ "chat_said lines"]
          del: chat_published.simps)
  qed
qed

definition chat_greeting :: "string \<Rightarrow> u64 \<Rightarrow> written list" where
  "chat_greeting nick i =
     [println ([CHR 0x0A, CHR 0xF0, CHR 0x9F, CHR 0x92, CHR 0xAC] @ '' Joined chat as '' @ nick @ '' (session '' @ show_u64 i @ '')''),
      println (''Type a message and press Enter. Ctrl+C to quit.'' @ [CHR 0x0A])]"

lemma chat_client_run:
  assumes "handlers 1 = Some (SyncH (clocked (chat_send bc)))" and "\<forall>m \<in> set (chat_said lines). sendable_with (length m) nick \<and> rust_string m"
  shows "run_spec (promised handlers sid aid env) (chat_client show_error nick lines client) (0, x) =
    Some (chat_greeting nick (client_session_id client) @ prompt # replicate (length (chat_heard lines)) prompt, Finished,
      length (chat_said lines), chat_published bc nick env 0 (chat_said lines) x)"
  by (simp add: chat_client_def chat_greeting_def run_chat_loop [where handlers = handlers, OF assms])

lemma chat_said_fits:
  assumes "\<forall>l. Some l \<in> set lines \<longrightarrow> rust_string l \<and> sendable_with (length l) nick" and "m \<in> set (chat_said lines)"
  shows "sendable_with (length m) nick \<and> rust_string m"
proof -
  obtain l where l: "l \<in> set lines" "m = trim (or_else [] l)" "m \<noteq> []"
    using assms(2) by (auto simp: chat_said_def chat_heard_def dest!: set_takeWhileD)
  obtain t where t: "l = Some t" using l(2,3) by (cases l) (auto simp: or_else_def)
  then have "m = trim t" using l(2) by (simp add: or_else_def)
  then show ?thesis
    using assms(1) l(1) t rust_string_trim [of t] length_trim [of t] by (auto simp: sendable_with_def)
qed

text \<open>
  C25. The chat example. When its server is up, the client started with what the server printed and a
  nick greets the user and prompts once for every line it took until \<open>/quit\<close> or \<open>/exit\<close>, and ends without
  a panic, over QUIC and TCP alike; on the server, every line that is not blank is published on the
  hub's topic \<open>chat\<close>, without the white space around it, under the user's nick, once and in the order
  typed, whatever other users do in between.
\<close>

theorem chat_example:
  assumes "quiet cr sid env nonces obs since st" and "hex_ok hex_encode hex_decode"
    and "(dial_with, handshake, exchange_by) \<in> transports" and "length id_bytes = 8"
    and "chat_run_server cr bc nonces' recvs others hex_encode secret id_bytes priv load bind_at local_addr port_of incoming h =
      ((lines, None, Some (tasks, srv)), h')"
    and "(conn, sid) \<in> set tasks" and "hp_stores h' (sv_sessions srv) = Some st"
    and "\<forall>l. Some l \<in> set typed \<longrightarrow> rust_string l \<and> sendable_with (length l) nick"
  shows "\<exists>port greeting. lines = chat_announce hex_encode \<lparr>ak_id = hex_encode id_bytes, ak_secret = secret\<rparr> port \<and>
    length greeting = 2 \<and>
    chat_run_client hex_decode (stack_dial dial_with handshake exchange_by cr random now since srv sid nonces obs st x)
      show_error typed (hex_encode id_bytes) (hex_encode secret) port nick =
      (greeting @ prompt # replicate (length (chat_heard typed)) prompt, Finished) \<and>
    (\<forall>client. \<exists>out. run_spec (promised (sv_handlers srv) sid (hex_encode id_bytes) env) (chat_client show_error nick typed client) (0, x) =
      Some (out, Finished, length (chat_said typed), chat_published bc nick env 0 (chat_said typed) x))"
proof -
  let ?key = "generate_api_key hex_encode secret id_bytes"
  from assms(5) obtain srv0 h0 where srv0: "chat_server cr bc nonces' recvs others priv ?key h = (srv0, h0)"
    and serve: "example_serve load bind_at local_addr port_of incoming (chat_announce hex_encode ?key) srv0 = (lines, None, Some (tasks, srv))"
    by (auto simp: chat_run_server_def Let_def split: prod.splits)
  obtain n port where srv: "srv = srv0\<lparr>sv_next_id := n\<rparr>" and lines: "lines = chat_announce hex_encode ?key port"
    by (rule example_serve_listens [OF serve])
  have keys: "sv_key_store srv = example_key_store ?key" "(sv_priv srv, sv_pub srv) = generate_key_pair cr priv"
    and handlers: "sv_handlers srv 1 = Some (SyncH (clocked (chat_send bc)))"
    using srv0
    by (auto simp: srv chat_server_def server_new_def handle_def handle_stream_def generate_key_pair_def Let_def split: prod.splits)
  have said: "\<forall>m \<in> set (chat_said typed). sendable_with (length m) nick \<and> rust_string m"
    using chat_said_fits [OF assms(8)] by blast
  note run = chat_client_run [where handlers = "sv_handlers srv", OF handlers said]
  have "chat_run_client hex_decode (stack_dial dial_with handshake exchange_by cr random now since srv sid nonces obs st x)
      show_error typed (hex_encode id_bytes) (hex_encode secret) port nick =
      (chat_greeting nick sid @ prompt # replicate (length (chat_heard typed)) prompt, Finished)"
    unfolding chat_run_client_def
    by (rule example_client_runs [OF assms(1-3) keys(1) assms(4) keys(2)]) (simp only: run)
  moreover have "length (chat_greeting nick sid) = 2" by (simp add: chat_greeting_def)
  ultimately show ?thesis
    using lines run by (intro exI [of _ port] exI [of _ "chat_greeting nick sid"]) (simp add: generate_api_key_def)
qed

lemma trim_hi: "trim '' hi '' = ''hi''" "trim ''/quit'' = ''/quit''"
  by code_simp+

theorem chat_example_witness:
  "\<exists>lines tasks (srv :: (nat \<times> nat hub \<times> toy_world, unit) server) h' port greeting.
     chat_run_server toy_crypto toy_bc (\<lambda>_. toy_nonce) (\<lambda>_. []) (\<lambda>_ hw. hw) toy_hex [1] (replicate 8 2) [2] (\<lambda>_ _. Ok ()) (\<lambda>_ _. Ok ())
       (\<lambda>_. Ok 4433) (\<lambda>p. p) [Incoming ()] \<lparr>hp_stores = Map.empty, hp_fresh = 0\<rparr> = ((lines, None, Some (tasks, srv)), h') \<and>
     lines = chat_announce toy_hex \<lparr>ak_id = toy_hex (replicate 8 2), ak_secret = [1]\<rparr> port \<and> length greeting = 2 \<and>
     chat_run_client toy_unhex (stack_dial client_dial quic_handshake quic_exchange toy_crypto [3] 5 0 srv 1 (\<lambda>_. toy_nonce)
         (\<lambda>_. still_ob) (store_new (config_fill default_config)) (0, hub_new, toy_start)) (\<lambda>_. ''error'')
       [Some '' hi '', None, Some ''/quit'', Some ''x''] (toy_hex (replicate 8 2)) (toy_hex [1]) port ''ann'' =
       (greeting @ [prompt, prompt, prompt], Finished)"
proof -
  let ?h = "\<lparr>hp_stores = Map.empty, hp_fresh = 0\<rparr>" and ?st = "store_new (config_fill default_config)"
  let ?typed = "[Some '' hi '', None, Some ''/quit'', Some ''x'']"
  obtain lines tasks and srv :: "(nat \<times> nat hub \<times> toy_world, unit) server" and h' where up:
    "chat_run_server toy_crypto toy_bc (\<lambda>_. toy_nonce) (\<lambda>_. []) (\<lambda>_ hw. hw) toy_hex [1] (replicate 8 2) [2] (\<lambda>_ _. Ok ()) (\<lambda>_ _. Ok ())
       (\<lambda>_. Ok 4433) (\<lambda>p. p) [Incoming ()] ?h = ((lines, None, Some (tasks, srv)), h')"
    and task: "((), 1) \<in> set tasks" and st: "hp_stores h' (sv_sessions srv) = Some ?st"
    by (auto simp: chat_run_server_def chat_server_def server_new_def handle_def handle_stream_def example_serve_def
        listen_on_def accept_session_id_def fetch_next_id_def heap_alloc_def Let_def)
  have fits: "\<forall>l. Some l \<in> set ?typed \<longrightarrow> rust_string l \<and> sendable_with (length l) ''ann''"
    by (auto simp: sendable_with_def rust_string_ascii)
  have heard: "chat_heard ?typed = [''hi'', []]" by (simp add: chat_heard_def or_else_def trim_hi)
  have "(client_dial, quic_handshake, quic_exchange) \<in> transports" "length (replicate 8 2 :: bytes) = 8" by simp_all
  from chat_example [OF still_quiet toy_hex_ok this up task st fits, where random = "[3]" and now = 5
      and show_error = "\<lambda>_. ''error''" and x = "(0, hub_new, toy_start)"]
  obtain port greeting where "lines = chat_announce toy_hex \<lparr>ak_id = toy_hex (replicate 8 2), ak_secret = [1]\<rparr> port"
    "length greeting = 2"
    "chat_run_client toy_unhex (stack_dial client_dial quic_handshake quic_exchange toy_crypto [3] 5 0 srv 1 (\<lambda>_. toy_nonce)
         (\<lambda>_. still_ob) ?st (0, hub_new, toy_start)) (\<lambda>_. ''error'') ?typed (toy_hex (replicate 8 2)) (toy_hex [1]) port ''ann'' =
       (greeting @ prompt # replicate (length (chat_heard ?typed)) prompt, Finished)" by blast
  then show ?thesis using up by (intro exI [of _ lines] exI [of _ tasks] exI [of _ srv] exI [of _ h'] exI [of _ port]
      exI [of _ greeting]) (simp add: heard)
qed

end
