(* ===== verification/Hush_Chat_Room.thy ===== *)
theory Hush_Chat_Room
  imports Hush_Examples_Talk "HOL-Library.Sublist"
begin

text \<open>
  The chat from one end to the other: what one user types at a client, over either transport, through
  the handlers and the hub, up to the frames that another user's subscription writes, while further
  users talk and come and go.
\<close>

section \<open>The room\<close>

text \<open>\<open>rx\<close> is the receiver of a subscription to the topic \<open>chat\<close> of a hub in use.\<close>

definition in_room :: "('w, 'h, 'r) broadcast \<Rightarrow> ('w \<Rightarrow> bool) \<Rightarrow> 'r \<Rightarrow> 'h hub \<Rightarrow> 'w \<Rightarrow> bool" where
  "in_room bc ok rx hub w \<longleftrightarrow> hub_reach bc ok hub w \<and> rx \<in> set (subscribers bc ''chat'' hub w)"

definition frame_fits :: "event \<Rightarrow> bool" where
  "frame_fits e \<longleftrightarrow> map_fits (the (resp_payload (chat_message e 0)))"

text \<open>
  The contract of the others, who act before each of the user's requests: they leave \<open>rx\<close> subscribed, and
  queue at most \<open>k\<close> events for it, each of which fits a frame, as long as that is not beyond the capacity of the channel.
\<close>

definition others_talk ::
    "('w, 'h, 'r) broadcast \<Rightarrow> ('w \<Rightarrow> bool) \<Rightarrow> 'r \<Rightarrow> nat \<Rightarrow> (nat \<Rightarrow> nat \<times> 'h hub \<times> 'w \<Rightarrow> nat \<times> 'h hub \<times> 'w) \<Rightarrow> bool" where
  "others_talk bc ok rx k env \<longleftrightarrow> (\<forall>n ms hub w ms' hub' w'.
     in_room bc ok rx hub w \<longrightarrow> length (bc_queue bc rx w) + k \<le> 64 \<longrightarrow> env n (ms, hub, w) = (ms', hub', w') \<longrightarrow>
     in_room bc ok rx hub' w' \<and>
     (\<exists>es. bc_queue bc rx w' = bc_queue bc rx w @ es \<and> length es \<le> k \<and> (\<forall>e \<in> set es. frame_fits e)))"

lemma others_talkE:
  assumes "others_talk bc ok rx k env" "in_room bc ok rx hub w" "length (bc_queue bc rx w) + k \<le> 64"
    and "env n (ms, hub, w) = (ms', hub', w')"
  obtains es where "in_room bc ok rx hub' w'" "bc_queue bc rx w' = bc_queue bc rx w @ es" "length es \<le> k"
    "\<forall>e \<in> set es. frame_fits e"
proof -
  from assms(1) [unfolded others_talk_def, rule_format, OF assms(2-4)] show thesis using that by blast
qed

text \<open>An event as the user's handler makes it.\<close>

definition said_payload :: "string \<Rightarrow> string \<Rightarrow> tlv_map" where
  "said_payload nick m = [(''nick'', String nick), (''message'', String m)]"

lemma said_fits:
  assumes "sendable_with (length m) nick" "rust_string m"
  shows "frame_fits \<lparr>ev_topic = ''chat'', ev_payload = said_payload nick m, ev_time = t\<rparr>"
  using assms unfolding frame_fits_def chat_message_def said_payload_def
  by (simp add: map_new_def, intro map_fitsI) (auto simp: sendable_with_def fits_simps)

lemma publish_in_room:
  assumes "broadcast_ok bc ok live" "in_room bc ok rx hub w" "length (bc_queue bc rx w) < 64"
  shows "in_room bc ok rx hub (snd (hub_publish bc ms ''chat'' payload hub w)) \<and>
    bc_queue bc rx (snd (hub_publish bc ms ''chat'' payload hub w)) =
      bc_queue bc rx w @ [\<lparr>ev_topic = ''chat'', ev_payload = payload, ev_time = word_of_nat ms\<rparr>]"
proof -
  obtain n w' where p: "hub_publish bc ms ''chat'' payload hub w = (n, w')" by (metis prod.exhaust)
  have r: "hub_reach bc ok hub w" "rx \<in> set (subscribers bc ''chat'' hub w)" using assms(2) by (simp_all add: in_room_def)
  show ?thesis
    using hub_publish_ok [OF assms(1) r(1) p] reach_publish [OF r(1), of ms "''chat''" payload] r(2) assms(3) p
    by (simp add: in_room_def)
qed

text \<open>What the user says is queued, in order, among what the others say.\<close>

lemma chat_published_room:
  assumes bc: "broadcast_ok bc ok live" and others: "others_talk bc ok rx k env"
    and "in_room bc ok rx hub w" "length (bc_queue bc rx w) + (k + 1) * length said \<le> 64"
    and "\<forall>m \<in> set said. sendable_with (length m) nick \<and> rust_string m"
  shows "\<exists>ms' hub' w' es. chat_published bc nick env n said (ms, hub, w) = (ms', hub', w') \<and>
    in_room bc ok rx hub' w' \<and> bc_queue bc rx w' = bc_queue bc rx w @ es \<and> (\<forall>e \<in> set es. frame_fits e) \<and>
    length es \<le> (k + 1) * length said \<and>
    subseq (map (\<lambda>m. (''chat'', said_payload nick m)) said) (map (\<lambda>e. (ev_topic e, ev_payload e)) es)"
  using assms(3-5)
proof (induction said arbitrary: n ms hub w)
  case Nil
  then show ?case by simp
next
  case (Cons m said)
  obtain ms1 hub1 w1 where e: "env n (ms, hub, w) = (ms1, hub1, w1)" by (metis prod.exhaust)
  have room: "length (bc_queue bc rx w) + k \<le> 64" using Cons.prems(2) by simp
  obtain es1 where es1: "in_room bc ok rx hub1 w1" "bc_queue bc rx w1 = bc_queue bc rx w @ es1" "length es1 \<le> k"
    "\<forall>e \<in> set es1. frame_fits e" by (rule others_talkE [OF others Cons.prems(1) room e])
  let ?evt = "\<lparr>ev_topic = ''chat'', ev_payload = said_payload nick m, ev_time = word_of_nat ms1\<rparr>"
  let ?w2 = "snd (hub_publish bc ms1 ''chat'' (said_payload nick m) hub1 w1)"
  have less: "length (bc_queue bc rx w1) < 64" using Cons.prems(2) es1(2,3) by simp
  note pub = publish_in_room [OF bc es1(1) less, of ms1 "said_payload nick m"]
  have "length (bc_queue bc rx ?w2) + (k + 1) * length said \<le> 64" using Cons.prems(2) es1(2,3) pub by simp
  from Cons.IH [OF conjunct1 [OF pub] this, of "Suc n" ms1] Cons.prems(3)
  obtain ms' hub' w' es where IH: "chat_published bc nick env (Suc n) said (ms1, hub1, ?w2) = (ms', hub', w')"
    "in_room bc ok rx hub' w'" "bc_queue bc rx w' = bc_queue bc rx ?w2 @ es" "\<forall>e \<in> set es. frame_fits e"
    "length es \<le> (k + 1) * length said"
    "subseq (map (\<lambda>m. (''chat'', said_payload nick m)) said) (map (\<lambda>e. (ev_topic e, ev_payload e)) es)" by auto
  have "frame_fits ?evt" using Cons.prems(3) by (intro said_fits) simp_all
  then show ?case
    using IH es1 pub
    by (intro exI [of _ ms'] exI [of _ hub'] exI [of _ w'] exI [of _ "es1 @ ?evt # es"])
      (auto simp: e said_payload_def [symmetric] intro: subseq_drop_many)
qed

text \<open>When the others are silent, nothing else is queued.\<close>

lemma subseq_full: "subseq xs ys \<Longrightarrow> length ys \<le> length xs \<Longrightarrow> ys = xs"
  by (metis le_antisym list_emb_length subseq_same_length)

section \<open>The subscription\<close>

lemma map_fits_ack: "response_fits (chat_ack ''chat'')"
  unfolding response_fits_def chat_ack_def
  by (simp add: map_new_def, intro map_fitsI) (auto simp: fits_simps)

lemma subscribed_in_room:
  assumes "broadcast_ok bc ok live" "hub_reach bc ok hub0 w0" "hub_subscribe bc ''chat'' hub0 w0 = (rx, hub, w)"
  shows "in_room bc ok rx hub w" "bc_queue bc rx w = []"
proof -
  have inv: "hub_inv ok live hub0 w0" by (rule hub_reach_inv [OF assms(2,1)])
  note S = hub_subscribe_ok [OF assms(1) inv assms(3)]
  show "bc_queue bc rx w = []" using S by blast
  obtain tx where "hub_topics hub ''chat'' = Some tx" "rx \<in> set (bc_receivers bc tx w)"
    using S by (auto split: if_splits)
  then show "in_room bc ok rx hub w"
    using reach_subscribe [OF assms(2,3)] by (simp add: in_room_def subscribers_def)
qed

lemma chat_subscribe_writes:
  assumes "aead_ok cr" "length key = KEY_SIZE" "\<forall>i. length (nonces i) = NONCE_SIZE" "c_cap c = None"
    and "get_string (sr_payload req) ''topic'' \<in> {None, Some ''chat''}" and "fst (hub_subscribe bc ''chat'' hub0 w0) = rx"
    and "recvs rx = map Ok es" "\<forall>e \<in> set es. frame_fits e"
  shows "\<exists>ack bs. reply_bytes cr key 0 (chat_ack ''chat'') ack \<and> event_frames cr key 1 es bs \<and>
    c_out (fst (chat_subscribe cr bc nonces recvs others req c key (hub0, w0))) = c_out c @ ack @ concat bs"
proof -
  have good: "good_key key" "\<And>i. good_nonce (nonces i)"
    using assms(2,3) by (simp_all add: good_key_def good_nonce_def)
  obtain ack where ack: "stream_write_response cr (nonces 0) c key 0 (chat_ack ''chat'') = (Ok (), c\<lparr>c_out := c_out c @ ack\<rparr>)"
    "reply_bytes cr key 0 (chat_ack ''chat'') ack"
    using stream_write_ok [OF assms(1) good map_fits_ack assms(4)] by metis
  let ?c = "c\<lparr>c_out := c_out c @ ack\<rparr>"
  have "c_cap ?c = None" "\<And>e. e \<in> set es \<Longrightarrow> map_fits (the (resp_payload (chat_message e 0)))"
    using assms(4,8) by (simp_all add: frame_fits_def)
  from chat_deliver_ok [where nonces = nonces and i = 1 and seq = 1, OF assms(1) good this]
  obtain bs where bs: "event_frames cr key 1 es bs"
    "\<And>tail. chat_deliver cr nonces 1 key 1 (map Ok es @ tail) ?c =
       chat_deliver cr nonces (1 + length es) key (1 + word_of_nat (length es)) tail (?c\<lparr>c_out := c_out ?c @ concat bs\<rparr>)"
    by blast
  have "c_out (chat_deliver cr nonces 1 key 1 (map Ok es) ?c) = c_out c @ ack @ concat bs" using bs(2) [of "[]"] by simp
  then show ?thesis
    using ack bs(1) assms(5-7)
    by (intro exI [of _ ack] exI [of _ bs]) (auto simp: chat_subscribe_def Let_def split: prod.split)
qed

section \<open>From the keyboard to the other user's stream\<close>

text \<open>
  C24. The chat room. A user subscribes to the chat; another one joins with a client, over QUIC or TCP, and types. While
  further users talk at most \<open>k\<close> times before each of these lines, and not more than the 64 events a channel holds
  are queued in all, the client ends without a panic, and the subscription has queued for it every line that was said,
  under the nick and in the order typed, and nothing else when the further users are silent; and the subscription's handler
  writes to its stream, behind the acknowledgement, one frame for each event queued, in that order, under
  consecutive sequence numbers.
\<close>

theorem chat_room:
  assumes "quiet cr sid env nonces obs since st" and "hex_ok hex_encode hex_decode"
    and "(dial_with, handshake, exchange_by) \<in> transports" and "length id_bytes = 8"
    and "chat_run_server cr bc nonces' recvs others hex_encode secret id_bytes priv load bind_at local_addr port_of incoming h =
      ((lines, None, Some (tasks, srv)), h')"
    and "(conn, sid) \<in> set tasks" and "hp_stores h' (sv_sessions srv) = Some st"
    and "\<forall>l. Some l \<in> set typed \<longrightarrow> rust_string l \<and> sendable_with (length l) nick"
    and "broadcast_ok bc ok live" and "hub_reach bc ok hub0 w0" and "hub_subscribe bc ''chat'' hub0 w0 = (rx, hub, w)"
    and "others_talk bc ok rx k env" and "(k + 1) * length (chat_said typed) \<le> 64"
    and "length skey = KEY_SIZE" and "\<forall>i. length (snonces i) = NONCE_SIZE" and "c_cap c = None"
    and "get_string (sr_payload sreq) ''topic'' \<in> {None, Some ''chat''}"
  shows "\<exists>aid key cl out cl' st' ms' hub' w' es.
    connect dial_with handshake cr random now \<lparr>ak_id = hex_encode id_bytes, ak_secret = secret\<rparr> (sv_priv srv) (sv_pub srv)
      (sv_key_store srv) sid = (Ok cl, Ok (aid, key)) \<and>
    run (ask_over (exchange_by cr (sv_handlers srv) sid aid key) nonces obs) (chat_client show_error nick typed cl)
      (0, cl, store_insert (session_new since sid aid key) st, ms, hub, w) =
      (out, Finished, length (chat_said typed), cl', st', ms', hub', w') \<and>
    bc_queue bc rx w' = es \<and>
    subseq (map (\<lambda>m. (''chat'', said_payload nick m)) (chat_said typed)) (map (\<lambda>e. (ev_topic e, ev_payload e)) es) \<and>
    (k = 0 \<longrightarrow> map (\<lambda>e. (ev_topic e, ev_payload e)) es = map (\<lambda>m. (''chat'', said_payload nick m)) (chat_said typed)) \<and>
    (\<exists>ack bs. reply_bytes cr skey 0 (chat_ack ''chat'') ack \<and> event_frames cr skey 1 es bs \<and>
      c_out (fst (chat_subscribe cr bc snonces (\<lambda>_. map Ok es) others' sreq c skey (hub0, w0))) = c_out c @ ack @ concat bs)"
proof -
  let ?key = "\<lparr>ak_id = hex_encode id_bytes, ak_secret = secret\<rparr>"
  let ?said = "chat_said typed"
  from assms(5) obtain srv0 h0 where srv0: "chat_server cr bc nonces' recvs others priv ?key h = (srv0, h0)"
    and serve: "example_serve load bind_at local_addr port_of incoming (chat_announce hex_encode ?key) srv0 = (lines, None, Some (tasks, srv))"
    by (auto simp: chat_run_server_def generate_api_key_def Let_def split: prod.splits)
  obtain n port where srv: "srv = srv0\<lparr>sv_next_id := n\<rparr>" by (rule example_serve_listens [OF serve])
  have keys: "sv_key_store srv = example_key_store ?key" "(sv_priv srv, sv_pub srv) = generate_key_pair cr priv"
    and handlers: "sv_handlers srv 1 = Some (SyncH (clocked (chat_send bc)))"
    using srv0
    by (auto simp: srv chat_server_def server_new_def handle_def handle_stream_def generate_key_pair_def Let_def split: prod.splits)
  have said: "\<forall>m \<in> set ?said. sendable_with (length m) nick \<and> rust_string m"
    using chat_said_fits [OF assms(8)] by blast
  note room = subscribed_in_room [OF assms(9-11)]
  have "length (bc_queue bc rx w) + (k + 1) * length ?said \<le> 64" using assms(13) room(2) by simp
  from chat_published_room [OF assms(9,12) room(1) this said, of 0 ms]
  obtain ms' hub' w' es where pub: "chat_published bc nick env 0 ?said (ms, hub, w) = (ms', hub', w')" "bc_queue bc rx w' = es"
    and es: "\<forall>e \<in> set es. frame_fits e" "length es \<le> (k + 1) * length ?said"
      "subseq (map (\<lambda>m. (''chat'', said_payload nick m)) ?said) (map (\<lambda>e. (ev_topic e, ev_payload e)) es)"
    using room(2) by auto
  have silent: "k = 0 \<longrightarrow> map (\<lambda>e. (ev_topic e, ev_payload e)) es = map (\<lambda>m. (''chat'', said_payload nick m)) ?said"
    using subseq_full [OF es(3)] es(2) by auto
  have key: "rust_string (ak_id ?key)" "length (ak_id ?key) \<le> 256" using assms(2,4) by (simp_all add: hex_ok_def)
  obtain cl key out cl' st' where over: "connect dial_with handshake cr random now ?key (sv_priv srv) (sv_pub srv) (sv_key_store srv) sid =
      (Ok cl, Ok (hex_encode id_bytes, key))"
    "run (ask_over (exchange_by cr (sv_handlers srv) sid (hex_encode id_bytes) key) nonces obs) (chat_client show_error nick typed cl)
      (0, cl, store_insert (session_new since sid (hex_encode id_bytes) key) st, ms, hub, w) =
      (out, Finished, length ?said, cl', st', ms', hub', w')"
    by (rule program_connects [OF assms(1,3) key keys, of "chat_client show_error nick typed" "(ms, hub, w)"])
      (simp_all add: chat_client_run [where handlers = "sv_handlers srv", OF handlers said] pub(1))
  have "\<exists>ack bs. reply_bytes cr skey 0 (chat_ack ''chat'') ack \<and> event_frames cr skey 1 es bs \<and>
      c_out (fst (chat_subscribe cr bc snonces (\<lambda>_. map Ok es) others' sreq c skey (hub0, w0))) = c_out c @ ack @ concat bs"
    by (rule chat_subscribe_writes [OF _ assms(14-17) refl refl es(1)]) (use assms(1) in \<open>simp add: quiet_def\<close>)
  then show ?thesis using over pub(2) es(3) silent by blast
qed

text \<open>For the witness: a further user, who says the same thing before every request.\<close>

definition chatty ::
    "('w, 'h, 'r) broadcast \<Rightarrow> string \<Rightarrow> string \<Rightarrow> nat \<Rightarrow> nat \<times> 'h hub \<times> 'w \<Rightarrow> nat \<times> 'h hub \<times> 'w" where
  "chatty bc nick m n x = (case x of (ms, hub, w) \<Rightarrow>
     (ms + 1, hub, snd (hub_publish bc ms ''chat'' (said_payload nick m) hub w)))"

lemma chatty_talks:
  assumes "broadcast_ok bc ok live" "sendable_with (length m) nick" "rust_string m"
  shows "others_talk bc ok rx 1 (chatty bc nick m)"
  unfolding others_talk_def chatty_def
  using publish_in_room [OF assms(1)] said_fits [OF assms(2,3)] by (auto simp: Suc_le_eq)

definition chatty_ob :: "(nat \<times> nat hub \<times> toy_world) observation" where
  "chatty_ob = still_ob\<lparr>ob_env := (\<lambda>(st, x). (st, chatty toy_bc ''bob'' ''yo'' 0 x))\<rparr>"

lemma chatty_quiet:
  "quiet toy_crypto sid (chatty toy_bc ''bob'' ''yo'') (\<lambda>_. toy_nonce) (\<lambda>_. chatty_ob) 0 (store_new (config_fill default_config))"
  using still_quiet [of sid]
  by (auto simp: quiet_def leave_session_def chatty_ob_def chatty_def)

theorem chat_room_witness:
  "\<exists>rx hub w lines tasks (srv :: (nat \<times> nat hub \<times> toy_world, unit) server) h' aid key cl out cl' st' ms' hub' w'.
     hub_subscribe toy_bc ''chat'' hub_new toy_start = (rx, hub, w) \<and>
     chat_run_server toy_crypto toy_bc (\<lambda>_. toy_nonce) (\<lambda>_. []) (\<lambda>_ hw. hw) toy_hex [1] (replicate 8 2) [2] (\<lambda>_ _. Ok ()) (\<lambda>_ _. Ok ())
       (\<lambda>_. Ok 4433) (\<lambda>p. p) [Incoming ()] \<lparr>hp_stores = Map.empty, hp_fresh = 0\<rparr> = ((lines, None, Some (tasks, srv)), h') \<and>
     run (ask_over (quic_exchange toy_crypto (sv_handlers srv) 1 aid key) (\<lambda>_. toy_nonce) (\<lambda>_. chatty_ob))
       (chat_client (\<lambda>_. ''error'') ''ann'' [Some '' hi '', None, Some ''/quit'', Some ''x''] cl)
       (0, cl, store_insert (session_new 0 1 aid key) (store_new (config_fill default_config)), 7, hub, w) =
       (out, Finished, 1, cl', st', ms', hub', w') \<and>
     (''chat'', said_payload ''ann'' ''hi'') \<in> set (map (\<lambda>e. (ev_topic e, ev_payload e)) (bc_queue toy_bc rx w'))"
proof -
  let ?h = "\<lparr>hp_stores = Map.empty, hp_fresh = 0\<rparr>" and ?st = "store_new (config_fill default_config)"
  let ?typed = "[Some '' hi '', None, Some ''/quit'', Some ''x'']"
  let ?req = "\<lparr>sr_opcode = 2, sr_payload = [], sr_session_id = 2, sr_api_key_id = []\<rparr>"
  obtain lines tasks and srv :: "(nat \<times> nat hub \<times> toy_world, unit) server" and h' where up:
    "chat_run_server toy_crypto toy_bc (\<lambda>_. toy_nonce) (\<lambda>_. []) (\<lambda>_ hw. hw) toy_hex [1] (replicate 8 2) [2] (\<lambda>_ _. Ok ()) (\<lambda>_ _. Ok ())
       (\<lambda>_. Ok 4433) (\<lambda>p. p) [Incoming ()] ?h = ((lines, None, Some (tasks, srv)), h')"
    and task: "((), 1) \<in> set tasks" and st: "hp_stores h' (sv_sessions srv) = Some ?st"
    by (auto simp: chat_run_server_def chat_server_def server_new_def handle_def handle_stream_def example_serve_def
        listen_on_def accept_session_id_def fetch_next_id_def heap_alloc_def Let_def)
  obtain rx hub w where sub: "hub_subscribe toy_bc ''chat'' hub_new toy_start = (rx, hub, w)" by (metis prod.exhaust)
  have fits: "\<forall>l. Some l \<in> set ?typed \<longrightarrow> rust_string l \<and> sendable_with (length l) ''ann''"
    by (auto simp: sendable_with_def rust_string_ascii)
  have said: "chat_said ?typed = [''hi'']" by (simp add: chat_said_def chat_heard_def or_else_def trim_hi)
  have bob: "others_talk toy_bc toy_ok rx 1 (chatty toy_bc ''bob'' ''yo'')"
    by (rule chatty_talks [OF toy_broadcast_ok]) (simp_all add: sendable_with_def rust_string_ascii)
  have side: "(client_dial, quic_handshake, quic_exchange) \<in> transports" "length (replicate 8 2 :: bytes) = 8"
    "(1 + 1) * length (chat_said ?typed) \<le> 64" "length toy_key = KEY_SIZE" "\<forall>i :: nat. length toy_nonce = NONCE_SIZE"
    "c_cap (toy_conn []) = None" "get_string (sr_payload ?req) ''topic'' \<in> {None, Some ''chat''}"
    by (simp_all add: said toy_lengths get_string_def map_get_def)
  from chat_room [OF chatty_quiet toy_hex_ok side(1,2) up task st fits toy_broadcast_ok toy_start_ok sub bob side(3-7),
      where random = "[3]" and now = 5 and show_error = "\<lambda>_. ''error''" and ms = 7 and others' = "\<lambda>_ hw. hw"]
  obtain aid key cl out cl' st' ms' hub' w' es where
    "run (ask_over (quic_exchange toy_crypto (sv_handlers srv) 1 aid key) (\<lambda>_. toy_nonce) (\<lambda>_. chatty_ob))
       (chat_client (\<lambda>_. ''error'') ''ann'' ?typed cl) (0, cl, store_insert (session_new 0 1 aid key) ?st, 7, hub, w) =
       (out, Finished, length (chat_said ?typed), cl', st', ms', hub', w')"
    "bc_queue toy_bc rx w' = es"
    "subseq (map (\<lambda>m. (''chat'', said_payload ''ann'' m)) (chat_said ?typed)) (map (\<lambda>e. (ev_topic e, ev_payload e)) es)" by blast
  then have "run (ask_over (quic_exchange toy_crypto (sv_handlers srv) 1 aid key) (\<lambda>_. toy_nonce) (\<lambda>_. chatty_ob))
       (chat_client (\<lambda>_. ''error'') ''ann'' ?typed cl) (0, cl, store_insert (session_new 0 1 aid key) ?st, 7, hub, w) =
       (out, Finished, 1, cl', st', ms', hub', w')"
    "(''chat'', said_payload ''ann'' ''hi'') \<in> set (map (\<lambda>e. (ev_topic e, ev_payload e)) (bc_queue toy_bc rx w'))"
    by (simp_all only: said subseq_singleton_left list.map length_Cons list.size(3) One_nat_def)
  then show ?thesis using up sub by blast
qed

end
