(* ===== verification/Hush_Tlv_Props.thy ===== *)
theory Hush_Tlv_Props
  imports Hush_Tlv_Decode
begin

text \<open>
  What \<open>src/tlv.rs\<close> guarantees, with witnesses: the round trip and the exact limits of the
  decoder, normalisation of arbitrary input, the wire format, the varint and the map.
\<close>

section \<open>Round trip and limits\<close>

lemma decode_encode_exact:
  assumes "wf_value v" "ms_exact v" "vdepth v \<le> MAX_DECODE_DEPTH" "length (tlv_body v) \<le> unat MAX_PAYLOAD_SIZE"
  shows "decode (encode v @ rest) = Ok v"
  using assms by (intro decode_encode_fits) (simp_all add: fits_def)

lemma decode_encode_quantised:
  assumes "wf_value v" "vdepth v \<le> MAX_DECODE_DEPTH" "length (tlv_body v) \<le> unat MAX_PAYLOAD_SIZE"
  shows "decode (encode v @ rest) = Ok (quantise v)"
proof -
  have "decodes 0 v" using assms by (intro wf_decodes) simp_all
  then show ?thesis
    using decodesD(1) [of 0 v "[]" rest] assms by (simp add: decode_def encode_eq fits_def)
qed

text \<open>
  C6. Round trip. A value that Rust's types allow and that is within the decoder's depth and size
  limits is decoded from its encoding, whatever bytes follow it, to the value in which each
  timestamp is the one of its whole milliseconds (modulo \<open>2^64\<close>): the format carries no more. So the value
  itself comes back exactly when all its timestamps are whole milliseconds, fewer than \<open>2^64\<close>, and in any
  case the value that comes back is one that round-trips.
\<close>

theorem tlv_roundtrip:
  assumes "wf_value v"
    and "vdepth v \<le> MAX_DECODE_DEPTH" and "length (tlv_body v) \<le> unat MAX_PAYLOAD_SIZE"
  shows "decode (encode v @ rest) = Ok (quantise v) \<and>
    (decode (encode v @ rest) = Ok v \<longleftrightarrow> ms_exact v) \<and>
    decode (encode (quantise v) @ rest) = Ok (quantise v)"
proof -
  have "quantise v = v \<longleftrightarrow> ms_exact v" using quantise_exact ms_exact_quantise by metis
  moreover have "encode (quantise v) = encode v" by (simp add: encode_eq tlv_def)
  ultimately show ?thesis using decode_encode_quantised [OF assms] by simp
qed

text \<open>The witness has a value that comes back as it is, and one that loses its nanosecond.\<close>

theorem tlv_roundtrip_witness:
  "decode (encode (Map [(''name'', String ''hush''), (''at'', Timestamp 1700000000000000000),
      (''xs'', Array [Uint64 42, Bool True, Map []])]) @ [1, 2]) =
    Ok (Map [(''name'', String ''hush''), (''at'', Timestamp 1700000000000000000),
      (''xs'', Array [Uint64 42, Bool True, Map []])]) \<and>
   decode (encode (Timestamp 1700000000000000001)) = Ok (Timestamp 1700000000000000000)"
proof -
  let ?v = "Map [(''name'', String ''hush''), (''at'', Timestamp 1700000000000000000),
      (''xs'', Array [Uint64 42, Bool True, Map []])]"
  have s: "rust_string ''name''" "rust_string ''hush''" "rust_string ''at''" "rust_string ''xs''"
    by (rule rust_string_ascii; simp)+
  have v: "wf_value ?v" by (simp add: s duration_bound_def)
  have e: "ms_exact ?v" by (simp add: as_millis_def)
  have d: "vdepth ?v \<le> MAX_DECODE_DEPTH"
    using vdepth_Map_le [of 0] vdepth_Array_le [of 1] vdepth_Map_le [of 2]
    by (simp add: MAX_DECODE_DEPTH_def vdepth.simps)
  have l: "length (tlv v) \<le> length (tlv_body v) + 11" for v by (rule length_tlv_le)
  have "length (tlv_body ?v) \<le> unat MAX_PAYLOAD_SIZE"
    using l [of "String ''name''"] l [of "String ''hush''"] l [of "String ''at''"] l [of "String ''xs''"]
      l [of "Timestamp 1700000000000000000"] l [of "Array [Uint64 42, Bool True, Map []]"]
      l [of "Uint64 42"] l [of "Bool True"] l [of "Map []"]
    by simp
  then have "decode (encode ?v @ [1, 2]) = Ok ?v" using tlv_roundtrip [OF v d, of "[1, 2]"] e by blast
  moreover have "decode (encode (Timestamp 1700000000000000001) @ []) = Ok (quantise (Timestamp 1700000000000000001))"
    by (rule conjunct1 [OF tlv_roundtrip]) (simp_all add: duration_bound_def vdepth.simps)
  moreover have "quantise (Timestamp 1700000000000000001) = Timestamp 1700000000000000000"
    by (simp add: as_millis_def from_millis_def unat_word_ariths)
  ultimately show ?thesis by simp
qed

lemma decode_ok_iff:
  assumes "wf_value v" and "length (tlv_body v) < 2 ^ 64"
  shows "is_ok (decode (encode v)) \<longleftrightarrow>
    vdepth v \<le> MAX_DECODE_DEPTH \<and> length (tlv_body v) \<le> unat MAX_PAYLOAD_SIZE"
proof -
  have "decodes 0 v" using assms by (rule wf_decodes)
  then show ?thesis
    using decodesD [of 0 v "[]" "[]"]
    by (cases "fits 0 v") (auto simp: fits_def decode_def encode_eq)
qed

text \<open>
  C9. Exact limits. The decoder accepts the encoding of a well-formed value if and only if its
  nesting is at most \<open>MAX_DECODE_DEPTH\<close> and its payload at most \<open>MAX_PAYLOAD_SIZE\<close> bytes. The
  encoder has neither limit: it produces encodings that no peer will decode.
\<close>

theorem tlv_accepts_iff:
  assumes "wf_value v" and "length (tlv_body v) < 2 ^ 64"
  shows "is_ok (decode (encode v)) \<longleftrightarrow>
    vdepth v \<le> MAX_DECODE_DEPTH \<and> length (tlv_body v) \<le> unat MAX_PAYLOAD_SIZE"
  using assms by (rule decode_ok_iff)

theorem tlv_accepts_iff_witness:
  "\<not> is_ok (decode (encode (Bytes (replicate 524289 0)))) \<and> is_ok (decode (encode (Bytes (replicate 524288 0))))"
  using tlv_accepts_iff [of "Bytes (replicate 524289 0)"] tlv_accepts_iff [of "Bytes (replicate 524288 0)"]
  by (simp add: MAX_DECODE_DEPTH_def)

text \<open>
  C20. Normalisation. Whatever bytes the decoder accepts, the value is well-formed (UTF-8 strings,
  distinct map keys, timestamps in range), within the depth limit, its own encoding is no longer
  than the input, and decoding that encoding gives the value again.
\<close>

theorem decode_normalises:
  assumes "decode b = Ok v"
  shows "wf_value v \<and> vdepth v \<le> MAX_DECODE_DEPTH \<and> length (encode v) \<le> length b \<and>
    decode (encode v) = Ok v"
proof -
  obtain p where "decode_value b 0 0 = Ok (v, p)"
    using assms by (auto simp: decode_def and_then_eq_Inr)
  from decode_sound(1) [OF this] have d: "decoded 0 v" and l: "length (tlv v) \<le> length b" by auto
  then have "decodes 0 v" by (intro wf_decodes) (auto simp: decoded_def fits_def)
  then have "decode (encode v) = Ok v"
    using decodesD(1) [of 0 v "[]" "[]"] d
    by (simp add: decoded_def decode_def encode_eq quantise_exact)
  then show ?thesis using d l by (simp add: decoded_def fits_def encode_eq)
qed

text \<open>The witness: an overlong length, and a duplicate key of which the last value wins.\<close>

theorem decode_normalises_witness:
  "decode [0x0D, 0x8C, 0x00, 1, 1, 97, 3, 1, 7, 1, 1, 97, 3, 1, 9] = Ok (Map [(''a'', Uint8 9)]) \<and>
   wf_value (Map [(''a'', Uint8 9)]) \<and> decode (encode (Map [(''a'', Uint8 9)])) = Ok (Map [(''a'', Uint8 9)])"
proof -
  have d: "decode [0x0D, 0x8C, 0x00, 1, 1, 97, 3, 1, 7, 1, 1, 97, 3, 1, 9] = Ok (Map [(''a'', Uint8 9)])"
    by code_simp
  show ?thesis using d decode_normalises [OF d] by simp
qed

section \<open>The wire format\<close>

text \<open>
  The encoder refines the wire format \<open>tlv\<close> (type byte, varint length, body) and appends it to
  its buffer; the \<open>Result\<close> of \<open>encode_into\<close> is always \<open>Ok\<close>, so the \<open>expect\<close> in \<open>encode\<close> never panics.
\<close>

theorem encode_into_refines:
  "encode_into v buf = Ok (buf @ tlv v) \<and> encode v = tlv v \<and>
   tlv v = type_byte v # encode_varint (word_of_nat (length (tlv_body v))) [] @ tlv_body v"
  by (simp add: encode_refines(1) encode_eq tlv_def tlv_wrap_def del: encode_into.simps)

text \<open>
  Varints. A number decodes from its encoding, which takes 1 to 10 bytes, and any bytes that
  decode to the same number are at least as long: the encoding is minimal.
\<close>

theorem varint_roundtrip:
  shows "decode_varint (encode_varint n [] @ rest) = Ok (n, length (encode_varint n [])) \<and>
    length (encode_varint n []) \<in> {1..10} \<and>
    (\<forall>b k. decode_varint b = Ok (n, k) \<longrightarrow> length (encode_varint n []) \<le> k)"
  using length_varint_bounds [of n] decode_varint_minimal [of _ n _ n] by (auto simp: Suc_le_eq)

theorem varint_roundtrip_witness:
  "decode_varint [0xAC, 0x82, 0x00] = Ok (300, 3) \<and> length (encode_varint 300 []) \<le> 3 \<and>
   decode_varint (encode_varint 300 [] @ [7]) = Ok (300, length (encode_varint 300 []))"
proof -
  have "decode_varint [0xAC, 0x82, 0x00] = Ok (300, 3)" by code_simp
  then show ?thesis using varint_roundtrip [of 300 "[7]"] by blast
qed

lemma decode_varint_extend: "decode_varint b = Ok x \<Longrightarrow> decode_varint (b @ r) = Ok x"
proof -
  have "decode_varint_loop b i s a = Ok x \<Longrightarrow> decode_varint_loop (b @ r) i s a = Ok x" for i s a
    by (induction b i s a rule: decode_varint_loop.induct) (auto simp: Let_def split: if_splits)
  then show "decode_varint b = Ok x \<Longrightarrow> decode_varint (b @ r) = Ok x"
    by (simp add: decode_varint_def)
qed

lemma decode_header_extend:
  assumes "decode_header b pos d = Ok (ty, payload, p)"
  shows "decode_header (b @ r) pos d = Ok (ty, payload, p)"
proof -
  have pos: "pos < length b" using assms by (auto simp: decode_header_def split: if_splits)
  obtain len adv where v: "decode_varint (drop (pos + 1) b) = Ok (len, adv)"
    and end_le: "pos + 1 + adv + unat len \<le> length b"
    using assms by (auto simp: decode_header_def Let_def and_then_eq_Inr split: if_splits)
  have v': "decode_varint (drop (pos + 1) (b @ r)) = Ok (len, adv)"
    using decode_varint_extend [OF v, of r] pos by simp
  show ?thesis
    using assms pos end_le unfolding decode_header_def Let_def v v'
    by (auto simp: and_then_eq_Inr nth_append split: if_splits)
qed

text \<open>Bytes after an accepted value are not looked at.\<close>

lemma decode_value_extend:
  assumes "decode_value b pos d = Ok (v, p)"
  shows "decode_value (b @ r) pos d = Ok (v, p)"
proof -
  obtain ty payload q where h: "decode_header b pos d = Ok (ty, payload, q)"
    using assms unfolding decode_value.simps [of b] by (auto simp: and_then_eq_Inr)
  show ?thesis
    using assms unfolding decode_value.simps [of b] decode_value.simps [of "b @ r"] h
      decode_header_extend [OF h] .
qed

text \<open>
  C33. Truncation. No proper prefix of the encoding of an accepted value decodes, to any value: an
  encoding cut off anywhere is rejected.
\<close>

theorem truncated_rejected:
  assumes "wf_value v" and "length (tlv_body v) < 2 ^ 64" and "is_ok (decode (encode v))"
    and "n < length (encode v)"
  shows "\<exists>e. decode (take n (encode v)) = Err e"
proof (rule ccontr)
  assume "\<not> ?thesis"
  then obtain w where "decode (take n (encode v)) = Ok w" by (metis old.sum.exhaust)
  then obtain p where w: "decode_value (take n (encode v)) 0 0 = Ok (w, p)"
    by (auto simp: decode_def and_then_eq_Inr)
  have d: "decodes 0 v" using assms(1,2) by (rule wf_decodes)
  have "fits 0 v"
    using assms(3) decodesD(2) [OF d, of "[]" "[]"] by (fastforce simp: decode_def encode_eq)
  then have "decode_value (encode v) 0 0 = Ok (quantise v, length (encode v))"
    using decodesD(1) [OF d, of "[]" "[]"] by (simp add: encode_eq)
  moreover have "decode_value (encode v) 0 0 = Ok (w, p)"
    using decode_value_extend [OF w, of "drop n (encode v)"] by simp
  ultimately have "p = length (encode v)" by simp
  then show False using decode_sound(1) [OF w] assms(4) by simp
qed

theorem truncated_rejected_witness: "\<exists>e. decode (take 3 (encode (Uint16 258))) = Err e"
proof -
  have "decode (encode (Uint16 258)) = Ok (Uint16 258)"
    using decode_encode_exact [of "Uint16 258" "[]"] by simp
  moreover have "length (encode (Uint16 258)) = 4"
    using length_varint_bounds(1) [of 2] length_varint_le [of 2 1]
    by (simp add: encode_eq tlv_def tlv_wrap_def le_Suc_eq)
  ultimately show ?thesis by (intro truncated_rejected) simp_all
qed

section \<open>The map\<close>

text \<open>
  C34. \<open>Map\<close> is an insertion-ordered map: after any sequence of \<open>set\<close>s on a new map, \<open>get\<close> gives the
  last value set for a key, no key occurs twice, and the keys are in the order of their first
  \<open>set\<close>.
\<close>

theorem map_is_ordered_map:
  "let m = fold (\<lambda>(k, v). map_set k v) kvs map_new
   in (\<forall>k. map_get m k = map_of (rev kvs) k) \<and> distinct (map fst m) \<and>
      map fst m = rev (remdups (rev (map fst kvs)))"
proof -
  have new: "distinct (map fst map_new)" by (simp add: map_new_def)
  have "map fst (fold (\<lambda>(k, v). map_set k v) kvs map_new) = rev (remdups (rev (map fst kvs)))"
  proof (induction kvs rule: rev_induct)
    case (snoc e kvs)
    let ?m = "fold (\<lambda>(k, v). map_set k v) kvs map_new"
    have "fst ` set ?m = fst ` set kvs" using arg_cong [OF snoc, of set] by simp
    then show ?case using snoc by (cases e) (auto simp: map_set_fst)
  qed (simp add: map_new_def)
  moreover have "map_get (fold (\<lambda>(k, v). map_set k v) kvs map_new) k = map_of (rev kvs) k" for k
    using tlvm.lookup_fold_upd [OF new, of kvs k] by (simp add: map_get_def map_new_def split: option.splits)
  ultimately show ?thesis using tlvm.inv_fold_upd [OF new, of kvs] by simp
qed

end
