(* ===== verification/Hush_Tests.thy ===== *)
theory Hush_Tests
  imports Hush_Wire_Props Hush_Tlv_Props Hush_Middleware
begin

text \<open>
  The repository's own unit tests, run on the model: one definition per \<open>#[test]\<close>, true when all its
  assertions hold and nothing panics. What a test draws at random is an argument.
\<close>

section \<open>\<open>src/tlv.rs\<close>\<close>

definition roundtrip :: "tlv_value \<Rightarrow> bool" where
  "roundtrip v \<longleftrightarrow> decode (encode v) = Ok v"

definition test_string :: bool where "test_string \<longleftrightarrow> roundtrip (String ''hello hush'')"
definition test_bytes :: bool where "test_bytes \<longleftrightarrow> roundtrip (Bytes [0xde, 0xad, 0xbe, 0xef])"
definition test_u8 :: bool where "test_u8 \<longleftrightarrow> roundtrip (Uint8 255)"
definition test_u16 :: bool where "test_u16 \<longleftrightarrow> roundtrip (Uint16 65535)"
definition test_u32 :: bool where "test_u32 \<longleftrightarrow> roundtrip (Uint32 4294967295)"
definition test_u64 :: bool where "test_u64 \<longleftrightarrow> roundtrip (Uint64 0xFFFFFFFFFFFFFFFF)"
definition test_i32 :: bool where "test_i32 \<longleftrightarrow> roundtrip (Int32 (- 2147483648))"
definition test_i64 :: bool where "test_i64 \<longleftrightarrow> roundtrip (Int64 (- 9223372036854775808))"

text \<open>The bit patterns of \<open>3.14159\<close> and \<open>2.718281828459045\<close>.\<close>

definition test_f32 :: bool where "test_f32 \<longleftrightarrow> roundtrip (Float32 0x40490FD0)"
definition test_f64 :: bool where "test_f64 \<longleftrightarrow> roundtrip (Float64 0x4005BF0A8B145769)"
definition test_bool :: bool where "test_bool \<longleftrightarrow> roundtrip (Bool True)"
definition test_null :: bool where "test_null \<longleftrightarrow> roundtrip Null"
definition test_timestamp :: bool where "test_timestamp \<longleftrightarrow> roundtrip (Timestamp (from_millis 1700000000000))"
definition test_array :: bool where "test_array \<longleftrightarrow> roundtrip (Array [String ''a'', Uint64 42, Bool True])"

definition test_map :: bool where
  "test_map \<longleftrightarrow> roundtrip (Map (map_set ''version'' (Uint64 1) (map_set ''name'' (String ''hush'') map_new)))"

definition test_nested_map :: bool where
  "test_nested_map \<longleftrightarrow>
     (let inner = map_set ''x'' (Uint32 100) map_new;
          outer = map_set ''inner'' (Map inner) map_new
      in roundtrip (Map outer))"

definition test_empty_map :: bool where "test_empty_map \<longleftrightarrow> roundtrip (Map map_new)"
definition test_large_string :: bool where "test_large_string \<longleftrightarrow> roundtrip (String (replicate 10000 CHR ''a''))"

definition nested_array :: "nat \<Rightarrow> tlv_value" where
  "nested_array n = ((\<lambda>v. Array [v]) ^^ n) (Uint64 1)"

definition test_max_depth :: bool where
  "test_max_depth \<longleftrightarrow> is_ok (decode (encode (nested_array MAX_DECODE_DEPTH)))"

definition test_exceeds_max_depth :: bool where
  "test_exceeds_max_depth \<longleftrightarrow> \<not> is_ok (decode (encode (nested_array (MAX_DECODE_DEPTH + 1))))"

definition test_map_overwrite :: bool where
  "test_map_overwrite \<longleftrightarrow>
     (let m = map_set ''key'' (Uint64 2) (map_set ''key'' (Uint64 1) map_new)
      in get_uint64 m ''key'' = Some 2 \<and> map_len m = 1)"

definition test_unknown_type :: bool where "test_unknown_type \<longleftrightarrow> \<not> is_ok (decode [0xFF, 0x00])"

definition test_oversized_payload :: bool where
  "test_oversized_payload \<longleftrightarrow> \<not> is_ok (decode [0x02, 0x80, 0x80, 0x80, 0x80, 0x08])"

definition tlv_tests :: bool where
  "tlv_tests \<longleftrightarrow> test_string \<and> test_bytes \<and> test_u8 \<and> test_u16 \<and> test_u32 \<and> test_u64 \<and> test_i32 \<and> test_i64 \<and>
     test_f32 \<and> test_f64 \<and> test_bool \<and> test_null \<and> test_timestamp \<and> test_array \<and> test_map \<and> test_nested_map \<and>
     test_empty_map \<and> test_large_string \<and> test_max_depth \<and> test_exceeds_max_depth \<and> test_map_overwrite \<and>
     test_unknown_type \<and> test_oversized_payload"

section \<open>\<open>src/session.rs\<close>\<close>

definition test_generate_api_key :: "(bytes \<Rightarrow> string) \<Rightarrow> bytes \<Rightarrow> bytes \<Rightarrow> bool" where
  "test_generate_api_key hex_encode secret id_bytes \<longleftrightarrow>
     (let key = generate_api_key hex_encode secret id_bytes
      in length (ak_id key) = 16 \<and> length (ak_secret key) = 32)"

definition test_key_exchange :: "crypto \<Rightarrow> bytes \<Rightarrow> bytes \<Rightarrow> bytes \<Rightarrow> bool" where
  "test_key_exchange cr secret r1 r2 \<longleftrightarrow>
     (let (client_priv, client_pub) = generate_key_pair cr r1;
          (server_priv, server_pub) = generate_key_pair cr r2;
          client_shared = shared_secret cr client_priv server_pub;
          server_shared = shared_secret cr server_priv client_pub
      in client_shared = server_shared \<and>
         (case (derive_session_key cr client_shared secret, derive_session_key cr server_shared secret) of
            (Ok client_key, Ok server_key) \<Rightarrow> client_key = server_key \<and> length client_key = 32
          | _ \<Rightarrow> False))"

definition test_encrypt_decrypt :: "crypto \<Rightarrow> bytes \<Rightarrow> bytes \<Rightarrow> bool" where
  "test_encrypt_decrypt cr secret nonce \<longleftrightarrow>
     (let plaintext = as_bytes ''hello hush''
      in case encrypt cr nonce secret plaintext of
           Err e \<Rightarrow> False
         | Ok encrypted \<Rightarrow> decrypt cr secret encrypted = Ok plaintext)"

definition test_decrypt_wrong_key :: "crypto \<Rightarrow> bytes \<Rightarrow> bytes \<Rightarrow> bytes \<Rightarrow> bool" where
  "test_decrypt_wrong_key cr secret1 secret2 nonce \<longleftrightarrow>
     (case encrypt cr nonce secret1 (as_bytes ''secret'') of
        Err e \<Rightarrow> False
      | Ok encrypted \<Rightarrow> \<not> is_ok (decrypt cr secret2 encrypted))"

definition test_handshake_roundtrip :: "crypto \<Rightarrow> bytes \<Rightarrow> bytes \<Rightarrow> bytes \<Rightarrow> bool" where
  "test_handshake_roundtrip cr secret r1 r2 \<longleftrightarrow>
     (let (client_priv, client_pub) = generate_key_pair cr r1;
          (server_priv, server_pub) = generate_key_pair cr r2;
          client_shared = shared_secret cr client_priv server_pub;
          server_shared = shared_secret cr server_priv client_pub
      in case (derive_session_key cr client_shared secret, derive_session_key cr server_shared secret) of
           (Ok client_key, Ok server_key) \<Rightarrow> client_key = server_key
         | _ \<Rightarrow> False)"

section \<open>\<open>src/frame.rs\<close>\<close>

definition test_frame_roundtrip :: bool where
  "test_frame_roundtrip \<longleftrightarrow>
     (let empty = \<lparr>c_in = [], c_end = UnexpectedEof, c_out = [], c_cap = None\<rparr>
      in case write_frame empty 42 (as_bytes ''hello'') of
           (Err e, buf) \<Rightarrow> False
         | (Ok _, buf) \<Rightarrow>
             (case fst (read_frame (empty\<lparr>c_in := c_out buf\<rparr>)) of
                Err e \<Rightarrow> False
              | Ok frame \<Rightarrow> frame_seq frame = 42 \<and> frame_data frame = as_bytes ''hello''))"

definition test_request_response_encrypted :: "crypto \<Rightarrow> bytes \<Rightarrow> bytes \<Rightarrow> bool" where
  "test_request_response_encrypted cr secret nonce \<longleftrightarrow>
     (let m = map_set ''name'' (String ''hush'') map_new;
          req = \<lparr>req_opcode = 0x0001, req_payload = Some m\<rparr>
      in case encode_request_body cr nonce (Some secret) req of
           Err e \<Rightarrow> False
         | Ok body \<Rightarrow>
             (case encode_frame 1 body of
                Err e \<Rightarrow> False
              | Ok bytes \<Rightarrow>
                  (case decode_request cr (Some secret) (drop 4 bytes) of
                     Err e \<Rightarrow> False
                   | Ok (got, _) \<Rightarrow> req_opcode got = 0x0001 \<and>
                       (case req_payload got of None \<Rightarrow> False | Some p \<Rightarrow> get_string p ''name'' = Some ''hush''))))"

definition test_response_roundtrip :: "crypto \<Rightarrow> bytes \<Rightarrow> bytes \<Rightarrow> bool" where
  "test_response_roundtrip cr secret nonce \<longleftrightarrow>
     (let resp = \<lparr>resp_status = NotFound, resp_payload = None, resp_seq = 0\<rparr>
      in case encode_response_body cr nonce (Some secret) resp of
           Err e \<Rightarrow> False
         | Ok body \<Rightarrow>
             (case encode_frame 1 body of
                Err e \<Rightarrow> False
              | Ok bytes \<Rightarrow>
                  (case decode_response cr (Some secret) (drop 4 bytes) of
                     Err e \<Rightarrow> False
                   | Ok got \<Rightarrow> resp_status got = NotFound)))"

section \<open>\<open>src/middleware.rs\<close>\<close>

definition ok_handler :: "'s sync_handler" where
  "ok_handler req s = (Returns (Ok \<lparr>resp_status = Success, resp_payload = Some map_new, resp_seq = 0\<rparr>), s)"

definition test_request :: "string \<Rightarrow> server_request" where
  "test_request api_key = \<lparr>sr_opcode = 0x0101, sr_payload = map_new, sr_session_id = 1, sr_api_key_id = api_key\<rparr>"

definition test_middleware_passthrough :: "('s \<Rightarrow> instant) \<Rightarrow> 's \<Rightarrow> bool" where
  "test_middleware_passthrough clock s \<longleftrightarrow>
     (let wrapped = logging_middleware clock None ok_handler
      in case fst (wrapped (test_request ''test'') s) of
           Returns (Ok resp) \<Rightarrow> resp_status resp = Success
         | _ \<Rightarrow> False)"

definition test_recovery_middleware :: "'s \<Rightarrow> bool" where
  "test_recovery_middleware s \<longleftrightarrow>
     (let wrapped = recovery_middleware (\<lambda>_ s. (Panics, s))
      in case fst (wrapped (test_request ''test'') s) of Returns (Err e) \<Rightarrow> True | _ \<Rightarrow> False)"

definition test_require_api_key :: "'s \<Rightarrow> bool" where
  "test_require_api_key s \<longleftrightarrow>
     (let wrapped = require_api_key_id [''admin''] ok_handler
      in (case fst (wrapped (test_request ''admin'') s) of Returns (Ok r) \<Rightarrow> True | _ \<Rightarrow> False) \<and>
         (case fst (wrapped (test_request ''hacker'') s) of Returns (Err e) \<Rightarrow> True | _ \<Rightarrow> False))"

section \<open>They pass\<close>

lemma roundtripI:
  "wf_value v \<Longrightarrow> ms_exact v \<Longrightarrow> vdepth v \<le> 64 \<Longrightarrow> tlv_cost v \<le> 524288 \<Longrightarrow> roundtrip v"
  using decode_encode_exact [of v "[]"] length_tlv_body_le [of v] by (simp add: roundtrip_def MAX_DECODE_DEPTH_def)

lemma nested_array_simps:
  "nested_array 0 = Uint64 1" "nested_array (Suc n) = Array [nested_array n]"
  by (simp_all add: nested_array_def)

lemma nested_array_depth: "vdepth (nested_array n) = n" "wf_value (nested_array n)" "tlv_cost (nested_array n) = 11 * n + 8"
  by (induction n) (simp_all add: nested_array_simps vdepth.simps)

lemma decode_nested_array: "n \<le> 1000 \<Longrightarrow> is_ok (decode (encode (nested_array n))) \<longleftrightarrow> n \<le> MAX_DECODE_DEPTH"
  using decode_ok_iff [of "nested_array n"] length_tlv_body_le [of "nested_array n"] by (simp add: nested_array_depth)

lemma tlv_tests_scalars: "test_string" "test_bytes" "test_u8" "test_u16" "test_u32" "test_u64" "test_i32" "test_i64"
  "test_f32" "test_f64" "test_bool" "test_null" "test_empty_map"
  unfolding test_string_def test_bytes_def test_u8_def test_u16_def test_u32_def test_u64_def test_i32_def test_i64_def
    test_f32_def test_f64_def test_bool_def test_null_def test_empty_map_def
  by (rule roundtripI; simp add: rust_string_ascii map_new_def vdepth.simps)+

lemma tlv_tests_containers: "test_timestamp" "test_array" "test_map" "test_nested_map" "test_large_string"
  unfolding test_timestamp_def test_array_def test_map_def test_nested_map_def test_large_string_def Let_def
  by (rule roundtripI; simp add: rust_string_ascii map_new_def vdepth.simps from_millis_bound as_millis_from_millis; simp add: from_millis_def)+

lemma tlv_tests_pass: tlv_tests
proof -
  have "test_max_depth" "test_exceeds_max_depth"
    by (simp_all add: test_max_depth_def test_exceeds_max_depth_def decode_nested_array MAX_DECODE_DEPTH_def)
  moreover have "test_map_overwrite" by (simp add: test_map_overwrite_def map_new_def get_uint64_def map_get_def map_len_def)
  moreover have "test_unknown_type" "test_oversized_payload"
    unfolding test_unknown_type_def test_oversized_payload_def by code_simp+
  ultimately show ?thesis using tlv_tests_scalars tlv_tests_containers by (simp add: tlv_tests_def)
qed

lemma exchanged_keys:
  assumes "dh_ok cr" "hkdf_ok cr"
  shows "test_key_exchange cr secret r1 r2" "test_handshake_roundtrip cr secret r1 r2"
proof -
  have dh: "x25519 cr r2 (x25519_public cr r1) = x25519 cr r1 (x25519_public cr r2)"
    using assms(1) unfolding dh_ok_def by blast
  obtain k where "derive_session_key cr (x25519 cr r1 (x25519_public cr r2)) secret = Ok k" "good_key k"
    using derive_session_key_Ok [OF assms(2)] by blast
  then show "test_key_exchange cr secret r1 r2" "test_handshake_roundtrip cr secret r1 r2"
    by (simp_all add: test_key_exchange_def test_handshake_roundtrip_def generate_key_pair_def shared_secret_def dh good_key_def)
qed

lemma sealed_message_tests:
  assumes "aead_ok cr" "good_key secret" "good_nonce nonce"
  shows "test_encrypt_decrypt cr secret nonce" "test_request_response_encrypted cr secret nonce"
    "test_response_roundtrip cr secret nonce"
proof -
  have s: "sealing_ok cr nonce (Some secret)" using assms by (simp add: sealing_ok_def)
  obtain c where "encrypt cr nonce secret (as_bytes ''hello hush'') = Ok c" using encrypt_total [OF assms] by fastforce
  then show "test_encrypt_decrypt cr secret nonce"
    using encrypt_Ok(3) [OF assms] by (simp add: test_encrypt_decrypt_def)
  let ?m = "[(''name'', String ''hush'')]"
  let ?req = "\<lparr>req_opcode = 1, req_payload = Some ?m\<rparr>" and ?resp = "\<lparr>resp_status = NotFound, resp_payload = None, resp_seq = 0\<rparr>"
  have m: "map_fits ?m" by (intro map_fitsI) (simp_all add: rust_string_ascii vdepth.simps)
  have h: "drop 4 (frame_bytes seq b) = u32_to_be seq @ b" for seq b by (simp add: frame_bytes_def)
  obtain b where "encode_request_body cr nonce (Some secret) ?req = Ok b" "encode_frame 1 b = Ok (frame_bytes 1 b)"
    using request_frame [OF s, of ?req] m by auto
  then show "test_request_response_encrypted cr secret nonce"
    using decode_request_seal [OF s, of ?req b 1] m
    by (simp add: test_request_response_encrypted_def map_new_def h get_string_def map_get_def)
  obtain b where "encode_response_body cr nonce (Some secret) ?resp = Ok b" "encode_frame 1 b = Ok (frame_bytes 1 b)"
    using response_frame [OF s, of ?resp] by auto
  then show "test_response_roundtrip cr secret nonce"
    using decode_response_seal [OF s, of ?resp b 1] by (simp add: test_response_roundtrip_def h)
qed

lemma wrong_key_test:
  assumes "aead_ok cr" "good_key secret1" "good_key secret2" "good_nonce nonce"
  shows "test_decrypt_wrong_key cr secret1 secret2 nonce \<longleftrightarrow>
    (\<forall>p. aes_seal cr secret2 nonce p \<noteq> aes_seal cr secret1 nonce (as_bytes ''secret''))"
proof -
  obtain ct where ct: "aes_seal cr secret1 nonce (as_bytes ''secret'') = Some ct"
    using aead_total [OF assms(1,2,4)] by fastforce
  then have e: "encrypt cr nonce secret1 (as_bytes ''secret'') = Ok (nonce @ ct)"
    using aead_new [OF assms(1), of secret1] assms(2) by (simp add: encrypt_def)
  have l: "length nonce = 12" "length ct = 22"
    using aead_seal_open [OF assms(1,2,4) ct] assms(4) by (simp_all add: good_nonce_def)
  have "is_ok (decrypt cr secret2 (nonce @ ct)) \<longleftrightarrow> (\<exists>p. aes_open cr secret2 nonce ct = Some p)"
    using aead_new [OF assms(1), of secret2] assms(3) l
    by (auto simp: decrypt_def NONCE_SIZE_def TAG_SIZE_def ok_or_def is_ok_def split: option.split)
  also have "\<dots> \<longleftrightarrow> (\<exists>p. aes_seal cr secret2 nonce p = Some ct)"
    using aead_seal_open [OF assms(1,3,4)] aead_open_seal [OF assms(1,3,4)] by blast
  finally show ?thesis by (simp add: test_decrypt_wrong_key_def e ct)
qed

lemma frame_test: test_frame_roundtrip
  unfolding test_frame_roundtrip_def by code_simp

lemma middleware_tests: "test_middleware_passthrough clock s" "test_recovery_middleware s" "test_require_api_key s"
  by (simp_all add: test_middleware_passthrough_def test_recovery_middleware_def test_require_api_key_def
      logging_middleware_def recovery_middleware_def require_api_key_id_def ok_handler_def test_request_def)

text \<open>
  C27. The unit tests. 33 of the 34 tests of the repository pass on the model, whatever they draw at
  random. The remaining one, \<open>test_decrypt_wrong_key\<close>, depends on its draws: it passes exactly when no
  message seals under its second key to the ciphertext that its first key gives. So it fails when it draws
  the same key twice, and whenever it passes its two keys differ; that different keys do not collide
  is a property of AES-GCM that is not assumed here.
\<close>

theorem repository_tests_pass:
  assumes "dh_ok cr" and "hkdf_ok cr" and "aead_ok cr" and "\<forall>b. length (hex_encode b) = 2 * length b"
    and "length id_bytes = 8" and "length secret = 32" and "length secret2 = 32" and "length nonce = NONCE_SIZE"
  shows "tlv_tests \<and> test_generate_api_key hex_encode secret id_bytes \<and> test_key_exchange cr secret r1 r2 \<and>
    test_encrypt_decrypt cr secret nonce \<and> test_handshake_roundtrip cr secret r1 r2 \<and>
    test_frame_roundtrip \<and> test_request_response_encrypted cr secret nonce \<and> test_response_roundtrip cr secret nonce \<and>
    test_middleware_passthrough clock s \<and> test_recovery_middleware s \<and> test_require_api_key s \<and>
    (test_decrypt_wrong_key cr secret secret2 nonce \<longleftrightarrow>
      (\<forall>p. aes_seal cr secret2 nonce p \<noteq> aes_seal cr secret nonce (as_bytes ''secret''))) \<and>
    (test_decrypt_wrong_key cr secret secret2 nonce \<longrightarrow> secret \<noteq> secret2) \<and> \<not> test_decrypt_wrong_key cr secret secret nonce"
proof -
  have good: "good_key secret" "good_key secret2" "good_nonce nonce"
    using assms(6-8) by (simp_all add: good_key_def good_nonce_def)
  have "test_generate_api_key hex_encode secret id_bytes"
    using assms(4-6) by (simp add: test_generate_api_key_def generate_api_key_def)
  moreover have "\<not> test_decrypt_wrong_key cr secret secret nonce"
    using wrong_key_test [OF assms(3) good(1,1,3)] by blast
  moreover have "test_decrypt_wrong_key cr secret secret2 nonce \<longrightarrow> secret \<noteq> secret2" using calculation(2) by blast
  ultimately show ?thesis
    using tlv_tests_pass exchanged_keys [OF assms(1,2)] sealed_message_tests [OF assms(3) good(1,3)]
      frame_test middleware_tests wrong_key_test [OF assms(3) good] by (intro conjI)
qed

theorem repository_tests_pass_witness:
  "test_key_exchange toy_crypto (replicate 32 1) [1] [2] \<and> test_encrypt_decrypt toy_crypto (replicate 32 1) toy_nonce \<and>
   test_generate_api_key (\<lambda>b. concat (map (\<lambda>x. ''00'') b)) (replicate 32 1) (replicate 8 2) \<and> test_require_api_key ()"
proof -
  have "\<forall>b. length (concat (map (\<lambda>x. ''00'') b)) = 2 * length (b :: bytes)"
    by (rule allI, induct_tac b) simp_all
  moreover have "length (replicate 8 2 :: bytes) = 8" "length (replicate 32 1 :: bytes) = 32" "length toy_nonce = NONCE_SIZE"
    by (simp_all add: toy_nonce_def)
  ultimately show ?thesis
    using repository_tests_pass [OF toy_dh_ok toy_hkdf_ok toy_aead_ok, of "\<lambda>b. concat (map (\<lambda>x. ''00'') b)" "replicate 8 2"
        "replicate 32 1" "replicate 32 1" toy_nonce "[1]" "[2]" "\<lambda>_. 0" "()"] by blast
qed

end
