(* ===== verification/Hush_Display.thy ===== *)
theory Hush_Display
  imports Hush_Server Hush_Client Hush_Transport Hush_Logger
begin

text \<open>
  The texts of the program's errors: the \<open>#[error("...")]\<close> attributes of the error enums, nested as
  \<open>{0}\<close> nests them, and the texts \<open>decode_value\<close> makes. The texts of \<open>std::io\<close>, \<open>quinn\<close> and the cipher's own
  opaque error are arguments.
\<close>

record error_texts =
  et_io :: "io_error \<Rightarrow> string"
  et_quinn :: string
  et_aead :: string

definition quoted :: "string \<Rightarrow> string" where
  "quoted s = [CHR 0x27] @ s @ [CHR 0x27]"

text \<open>Lower-case hexadecimal digits of fixed number: \<open>{:02x}\<close> of a \<open>u8\<close>, \<open>{:04x}\<close> of a \<open>u16\<close>.\<close>

definition hex_digit :: "nat \<Rightarrow> char" where
  "hex_digit d = (if d < 10 then char_of (48 + d) else char_of (87 + d))"

definition hex_digits :: "nat \<Rightarrow> nat \<Rightarrow> string" where
  "hex_digits k n = map (\<lambda>i. hex_digit (n div 16 ^ i mod 16)) (rev [0..<k])"

section \<open>\<open>src/tlv.rs\<close>\<close>

fun type_text :: "tlv_type \<Rightarrow> string" where
  "type_text TyString = ''string''" | "type_text TyBytes = ''bytes''"
| "type_text TyUint8 = ''uint8''" | "type_text TyUint16 = ''uint16''"
| "type_text TyUint32 = ''uint32''" | "type_text TyUint64 = ''uint64''"
| "type_text TyInt32 = ''int32''" | "type_text TyInt64 = ''int64''"
| "type_text TyFloat32 = ''float32''" | "type_text TyFloat64 = ''float64''"
| "type_text TyBool = ''bool''" | "type_text TyArray = ''array''"
| "type_text TyMap = ''map''" | "type_text TyNull = ''null''"
| "type_text TyTimestamp = ''timestamp''"

fun show_varint_error :: "varint_error \<Rightarrow> string" where
  "show_varint_error VarintTooLong = ''varint too long''"
| "show_varint_error VarintUnterminated = ''unterminated varint''"

fun show_tlv_error :: "tlv_error \<Rightarrow> string" where
  "show_tlv_error (DepthExceeded d) = ''tlv: nested depth '' @ decimal d @ '' exceeds max '' @ decimal MAX_DECODE_DEPTH"
| "show_tlv_error UnexpectedEnd = ''tlv: unexpected EOF''"
| "show_tlv_error (UnknownType b) = ''tlv: unknown type 0x'' @ hex_digits 2 (unat b)"
| "show_tlv_error (VarintError e) = ''tlv: decode varint: '' @ show_varint_error e"
| "show_tlv_error (PayloadTooLarge n) =
     ''tlv: payload too large ('' @ decimal (unat n) @ '' bytes, max '' @ decimal (unat MAX_PAYLOAD_SIZE) @ '')''"
| "show_tlv_error PayloadExceedsBuffer = ''tlv: payload exceeds buffer''"
| "show_tlv_error InvalidUtf8 = ''tlv: invalid utf-8 string''"
| "show_tlv_error (NeedsBytes ty n) =
     ''tlv: '' @ type_text ty @ '' needs '' @ decimal n @ (if n = 1 then '' byte'' else '' bytes'')"
| "show_tlv_error MapKeyNotString = ''tlv: map key must be string''"
| "show_tlv_error (MapEntryMissingValue key) = ''tlv: map entry missing value for key '' @ quoted key"
| "show_tlv_error ExpectedMap = ''tlv: expected map''"

section \<open>The error enums\<close>

fun show_session_error :: "error_texts \<Rightarrow> session_error \<Rightarrow> string" where
  "show_session_error et (Hkdf s) = ''hkdf: '' @ s"
| "show_session_error et (Aes s) = ''aes: '' @ s"
| "show_session_error et (Crypto s) = s"
| "show_session_error et (CryptoIo what e) = what @ '': '' @ et_io et e"
| "show_session_error et (CryptoAead what) = what @ '': '' @ et_aead et"
| "show_session_error et (UnknownApiKey kid) = ''unknown api key id '' @ quoted kid"

fun show_frame_error :: "error_texts \<Rightarrow> frame_error \<Rightarrow> string" where
  "show_frame_error et FEof = ''frame: eof''"
| "show_frame_error et (FIo e) = ''frame: io error: '' @ et_io et e"
| "show_frame_error et (FTooLarge n m) =
     ''frame: too large ('' @ decimal (unat n) @ '' bytes, max '' @ decimal (unat m) @ '')''"
| "show_frame_error et (FTooShort n) = ''frame: too short ('' @ decimal (unat n) @ '' bytes)''"

fun show_request_error :: "error_texts \<Rightarrow> request_error \<Rightarrow> string" where
  "show_request_error et (RFrame e) = ''frame: '' @ show_frame_error et e"
| "show_request_error et (RSession e) = ''session: '' @ show_session_error et e"
| "show_request_error et RTooShort = ''frame: request too short''"
| "show_request_error et (RUnknownStatus b) = ''frame: unknown status code '' @ decimal (unat b)"
| "show_request_error et (RIo e) = ''frame: io: '' @ et_io et e"

fun show_transport_error :: "transport_error \<Rightarrow> string" where
  "show_transport_error (TConfig s) = ''transport: '' @ s"

text \<open>\<open>SvTransport\<close> and \<open>ClTransport\<close> hold what \<open>TConfig\<close> holds.\<close>

fun show_server_error :: "error_texts \<Rightarrow> server_error \<Rightarrow> string" where
  "show_server_error et (SvConfig s) = ''server: '' @ s"
| "show_server_error et (SvSession e) = ''server: session: '' @ show_session_error et e"
| "show_server_error et (SvIo e) = ''server: io: '' @ et_io et e"
| "show_server_error et SvQuinn = ''server: quinn: '' @ et_quinn et"
| "show_server_error et (SvTransport s) = ''server: transport: '' @ show_transport_error (TConfig s)"

fun show_client_error :: "error_texts \<Rightarrow> client_error \<Rightarrow> string" where
  "show_client_error et (ClTransport s) = ''client: '' @ show_transport_error (TConfig s)"
| "show_client_error et (ClSession e) = ''client: '' @ show_session_error et e"
| "show_client_error et (ClFrame e) = ''client: '' @ show_frame_error et e"
| "show_client_error et (ClRequest e) = ''client: '' @ show_request_error et e"
| "show_client_error et ClQuinn = ''client: '' @ et_quinn et"
| "show_client_error et (ClNegotiate s) = ''client: negotiate: '' @ s"
| "show_client_error et (ClNegotiateIo what e) = ''client: negotiate: '' @ what @ '': '' @ et_io et e"
| "show_client_error et (ClIo e) = ''client: io: '' @ et_io et e"

section \<open>Texts without line breaks\<close>

declare decimal.simps [simp del]

definition one_line :: "string \<Rightarrow> bool" where
  "one_line s \<longleftrightarrow> CHR 0x0A \<notin> set s"

named_theorems one_line

lemma one_line_append [one_line]: "one_line (s @ t) \<longleftrightarrow> one_line s \<and> one_line t"
  by (simp add: one_line_def)

lemma one_line_Cons [one_line]: "one_line (c # s) \<longleftrightarrow> c \<noteq> CHR 0x0A \<and> one_line s"
  by (auto simp: one_line_def)

lemma one_line_Nil [one_line]: "one_line []"
  by (simp add: one_line_def)

lemma one_line_quoted [one_line]: "one_line (quoted s) \<longleftrightarrow> one_line s"
  by (simp add: quoted_def one_line)

lemma char_of_not_newline: "10 < n \<Longrightarrow> n < 256 \<Longrightarrow> char_of (n :: nat) \<noteq> CHR 0x0A"
  by (auto simp: of_char_of mod_less dest!: arg_cong [where f = "of_char :: char \<Rightarrow> nat"])

lemma one_line_decimal [one_line]: "one_line (decimal n)"
proof (induction n rule: decimal.induct)
  case (1 n)
  have "digit d \<noteq> CHR 0x0A" if "d < 10" for d using that by (simp add: digit_def char_of_not_newline)
  then show ?case using 1 by (subst decimal.simps) (simp add: one_line)
qed

lemma one_line_hex [one_line]: "one_line (hex_digits k n)"
proof -
  have "hex_digit d \<noteq> CHR 0x0A" if "d < 16" for d using that by (simp add: hex_digit_def char_of_not_newline)
  then show ?thesis unfolding hex_digits_def one_line_def by (auto dest: sym)
qed

lemma one_line_status [one_line]: "one_line (status_name c)"
  by (cases c) (simp_all add: one_line)

end
