(* ===== verification/Hush_Server_Log.thy ===== *)
theory Hush_Server_Log
  imports Hush_Server_Props Hush_Accept Hush_Display
begin

text \<open>
  The log of the server: which lines (level and message) the accept loops, the connections and the requests
  of \<open>src/server.rs\<close> hand to the logger, in step with the operations of \<open>Hush_Server\<close> and \<open>Hush_Accept\<close>. The
  texts of a peer's address and of a handler's running time are arguments.
\<close>

type_synonym log_line = "string \<times> string"

section \<open>Messages\<close>

definition session_tag :: "u64 \<Rightarrow> string" where
  "session_tag sid = ''session['' @ decimal (unat sid) @ '']''"

definition opcode_text :: "u16 \<Rightarrow> string" where
  "opcode_text opcode = '' opcode=0x'' @ hex_digits 4 (unat opcode)"

text \<open>A handler's result; \<open>via\<close> is empty on QUIC and \<open>'' tcp''\<close> on TCP.\<close>

definition result_line :: "string \<Rightarrow> u64 \<Rightarrow> u16 \<Rightarrow> string \<Rightarrow> string + response \<Rightarrow> log_line" where
  "result_line via sid opcode secs result =
     (case result of
        Ok resp \<Rightarrow> (''INF'', session_tag sid @ via @ opcode_text opcode @ '' status='' @ status_name (resp_status resp) @
          '' elapsed='' @ secs @ ''s'')
      | Err e \<Rightarrow> (''ERR'', session_tag sid @ via @ opcode_text opcode @ '' error: '' @ e))"

section \<open>Requests\<close>

definition serve_stream_log ::
    "error_texts \<Rightarrow> string \<Rightarrow> crypto \<Rightarrow> (u16 \<rightharpoonup> 's handler_type) \<Rightarrow> u64 \<Rightarrow> string \<Rightarrow> bytes \<Rightarrow> conn \<Rightarrow> 's \<Rightarrow>
       log_line list" where
  "serve_stream_log et secs cr handlers sid aid key c s =
     (case fst (read_request_async cr c (Some key)) of
        Err e \<Rightarrow> [(''WRN'', session_tag sid @ '' read request: '' @ show_request_error et e)]
      | Ok (freq, seq) \<Rightarrow>
          (case handlers (req_opcode freq) of
             None \<Rightarrow> [(''WRN'', session_tag sid @ opcode_text (req_opcode freq) @ '' not found'')]
           | Some (StreamH h) \<Rightarrow> [(''INF'', session_tag sid @ opcode_text (req_opcode freq) @ '' stream start'')]
           | Some (SyncH h) \<Rightarrow>
               (case fst (h (request_of freq sid aid) s) of
                  Panics \<Rightarrow> []
                | Returns result \<Rightarrow> [result_line [] sid (req_opcode freq) secs result])))"

definition request_stream_log ::
    "error_texts \<Rightarrow> string \<Rightarrow> crypto \<Rightarrow> (u16 \<rightharpoonup> 's handler_type) \<Rightarrow> u64 \<Rightarrow> string \<Rightarrow> instant \<Rightarrow> instant \<Rightarrow>
       session_store \<Rightarrow> session_store \<Rightarrow> conn \<Rightarrow> 's \<Rightarrow> log_line list" where
  "request_stream_log et secs cr handlers sid aid now later st st_key c s =
     (case refused_session st now later sid of
        Some sess \<Rightarrow> [(''WRN'', session_tag sid @ '' expired'')]
      | None \<Rightarrow> serve_stream_log et secs cr handlers sid aid (stream_key st_key sid) c s)"

definition tcp_serve_log ::
    "error_texts \<Rightarrow> string \<Rightarrow> crypto \<Rightarrow> (u16 \<rightharpoonup> 's handler_type) \<Rightarrow> u64 \<Rightarrow> string \<Rightarrow> bytes \<Rightarrow> conn \<Rightarrow> 's \<Rightarrow>
       log_line list" where
  "tcp_serve_log et secs cr handlers sid aid key c s =
     (case fst (read_request_async cr c (Some key)) of
        Err e \<Rightarrow> [(''INF'', session_tag sid @ '' tcp read request: '' @ show_request_error et e)]
      | Ok (freq, seq) \<Rightarrow>
          (case handlers (req_opcode freq) of
             None \<Rightarrow> []
           | Some (StreamH h) \<Rightarrow> []
           | Some (SyncH h) \<Rightarrow>
               (case fst (h (request_of freq sid aid) s) of
                  Panics \<Rightarrow> []
                | Returns result \<Rightarrow> [result_line '' tcp'' sid (req_opcode freq) secs result])))"

section \<open>Accept loops\<close>

text \<open>\<open>listen_on\<close> (\<open>what\<close> is empty) and \<open>listen_tcp\<close> (\<open>'' TCP''\<close>, and \<open>accept\<close> is \<open>''tcp accept''\<close>), up to the end of the endpoint.\<close>

fun accept_log :: "string \<Rightarrow> 'c incoming list \<Rightarrow> log_line list" where
  "accept_log accept [] = []"
| "accept_log accept (Incoming conn # rest) = accept_log accept rest"
| "accept_log accept (AcceptFailed e # rest) = (''WRN'', accept @ '': '' @ e) # accept_log accept rest"
| "accept_log accept (EndpointClosed # rest) = []"

definition listen_log :: "string \<Rightarrow> string \<Rightarrow> ('addr \<Rightarrow> string) \<Rightarrow> string + 'addr \<Rightarrow> 'c incoming list \<Rightarrow> log_line list" where
  "listen_log what accept show_addr local_addr incoming =
     (case local_addr of
        Err e \<Rightarrow> []
      | Ok addr \<Rightarrow> (''INF'', ''listening'' @ what @ '' on '' @ show_addr addr @ '' (ALPN: '' @ DEFAULT_ALPN @ '')'') #
          accept_log accept incoming)"

section \<open>Connections\<close>

text \<open>The rounds of \<open>tcp_loop\<close>; a refused session leaves no line.\<close>

function tcp_loop_log ::
    "error_texts \<Rightarrow> (nat \<Rightarrow> string) \<Rightarrow> crypto \<Rightarrow> (u16 \<rightharpoonup> 's handler_type) \<Rightarrow> u64 \<Rightarrow> string \<Rightarrow> bytes \<Rightarrow>
       (nat \<Rightarrow> 's observation) \<Rightarrow> nat \<Rightarrow> conn \<Rightarrow> session_store \<Rightarrow> 's \<Rightarrow> log_line list" where
  "tcp_loop_log et secs cr handlers sid aid key obs n c st s =
     (case ob_env (obs n) (st, s) of (st1, s1) \<Rightarrow>
        (case refused_session st1 (ob_now (obs n)) (ob_later (obs n)) sid of
           Some sess \<Rightarrow> []
         | None \<Rightarrow> tcp_serve_log et (secs n) cr handlers sid aid key c s1)) @
     (case tcp_round cr handlers sid aid key (obs n) st c s of
        (Continue, c', st', s') \<Rightarrow> tcp_loop_log et secs cr handlers sid aid key obs (n + 1) c' st' s'
      | _ \<Rightarrow> [])"
  by pat_completeness auto

termination tcp_loop_log
  by (relation "measure (\<lambda>(_, _, _, _, _, _, _, _, _, c, _, _). length (c_in c))")
    (auto dest!: tcp_round_consumes [OF sym])

declare tcp_loop_log.simps [simp del]

definition established_line :: "string \<Rightarrow> string \<Rightarrow> u64 \<Rightarrow> string \<Rightarrow> log_line" where
  "established_line via remote sid aid =
     (''INF'', session_tag sid @ via @ (if aid = [] then '' anonymous established'' else '' established key='' @ aid) @ remote)"

definition tcp_connection_log where
  "tcp_connection_log et secs cr handlers key_store server_priv server_pub sid now obs c st s =
     (case tcp_handshake cr server_priv server_pub key_store sid c of
        (Err e, c1) \<Rightarrow> []
      | (Ok (aid, key), c1) \<Rightarrow>
          let st1 = store_insert (session_new now sid aid key) st
          in [established_line '' tcp'' [] sid aid] @
             tcp_loop_log et secs cr handlers sid aid key obs 0 c1 st1 s @
             (case fst (tcp_loop cr handlers sid aid key obs 0 c1 st1 s) of
                Unwind \<Rightarrow> []
              | _ \<Rightarrow> [(''INF'', session_tag sid @ '' tcp closed'')]))"

definition quic_connection_log ::
    "string \<Rightarrow> crypto \<Rightarrow> (string \<Rightarrow> bytes option) \<Rightarrow> bytes \<Rightarrow> bytes \<Rightarrow> u64 \<Rightarrow> conn option \<Rightarrow> log_line list" where
  "quic_connection_log remote cr key_store server_priv server_pub sid control =
     (case control of
        None \<Rightarrow> []
      | Some c \<Rightarrow>
          (case quic_handshake cr server_priv server_pub key_store sid c of
             (Err e, c1) \<Rightarrow> []
           | (Ok (aid, key), c1) \<Rightarrow>
               [established_line [] ('' remote='' @ remote) sid aid, (''INF'', session_tag sid @ '' closed'')]))"

text \<open>What reaches \<open>stderr\<close>, with the clock's reading at each line.\<close>

fun log_output :: "logger option \<Rightarrow> (u64 \<times> log_line) list \<Rightarrow> string" where
  "log_output lg [] = []"
| "log_output lg ((now_secs, level, msg) # lines) = server_log now_secs level msg lg @ log_output lg lines"

section \<open>One line for one message\<close>

lemma one_line_tags [one_line]: "one_line (session_tag sid)" "one_line (opcode_text opcode)"
  by (simp_all add: session_tag_def opcode_text_def one_line)

lemma one_line_result [one_line]:
  "one_line via \<Longrightarrow> one_line secs \<Longrightarrow> (\<And>e. result = Err e \<Longrightarrow> one_line e) \<Longrightarrow>
     one_line (snd (result_line via sid opcode secs result))"
  by (cases result) (simp_all add: result_line_def one_line)

lemma one_line_established [one_line]:
  "one_line via \<Longrightarrow> one_line remote \<Longrightarrow> one_line aid \<Longrightarrow> one_line (snd (established_line via remote sid aid))"
  by (simp add: established_line_def one_line)

text \<open>What the logger prints for a message without line breaks is one line of text.\<close>

lemma one_line_logger:
  assumes "one_line tag" "one_line msg"
  obtains l where "server_log now_secs level msg (Some \<lparr>lg_tag = tag\<rparr>) = l @ [CHR 0x0A]" "one_line l"
proof -
  have ts: "one_line (timestamp now_secs)" by (simp add: timestamp_def pad2_def Let_def one_line) (simp add: one_line_def)
  have line: "\<exists>l. logger_write now_secs lv col msg \<lparr>lg_tag = tag\<rparr> = l @ [CHR 0x0A] \<and> one_line l"
    if "one_line lv" "one_line col" for lv col
    using ts assms that by (simp add: logger_write_def Let_def DIM_def RESET_def one_line flip: append.assoc)
  have marks: "one_line ''INF''" "one_line ''WRN''" "one_line ''ERR''" "one_line BLUE" "one_line YELLOW" "one_line RED"
    by (simp_all add: BLUE_def YELLOW_def RED_def one_line)
  have "\<exists>l. server_log now_secs level msg (Some \<lparr>lg_tag = tag\<rparr>) = l @ [CHR 0x0A] \<and> one_line l"
    by (simp add: server_log_def logger_info_def logger_warn_def logger_error_def line marks)
  then show thesis using that by blast
qed

lemma log_output_lines:
  assumes "one_line tag" "\<forall>(t, level, msg) \<in> set lines. one_line msg"
  shows "\<exists>ls. log_output (Some \<lparr>lg_tag = tag\<rparr>) lines = concat (map (\<lambda>l. l @ [CHR 0x0A]) ls) \<and>
    length ls = length lines \<and> (\<forall>l \<in> set ls. one_line l)"
  using assms(2)
proof (induction lines)
  case (Cons x lines)
  obtain t level msg where x: "x = (t, level, msg)" by (cases x)
  obtain l where "server_log t level msg (Some \<lparr>lg_tag = tag\<rparr>) = l @ [CHR 0x0A]" "one_line l"
    using one_line_logger [OF assms(1), of msg t level] Cons.prems x by auto
  moreover obtain ls where "log_output (Some \<lparr>lg_tag = tag\<rparr>) lines = concat (map (\<lambda>l. l @ [CHR 0x0A]) ls)"
    "length ls = length lines" "\<forall>l \<in> set ls. one_line l"
    using Cons by auto
  ultimately show ?case by (intro exI [of _ "l # ls"]) (simp add: x)
qed simp

text \<open>What a peer sends does not show in the texts of the errors it causes.\<close>

lemma decrypt_error_line: "decrypt cr key data = Err e \<Longrightarrow> one_line (show_session_error et e)"
  by (auto simp: decrypt_def ok_or_def Let_def one_line split: if_splits option.splits)

lemma read_error_line:
  assumes "\<forall>x. one_line (et_io et x)" and "fst (read_request_async cr c (Some key)) = Err e"
  shows "one_line (show_request_error et e)"
proof -
  have io: "one_line (show_frame_error et (eof_or_io x))" for x using assms(1) by (cases x) (simp_all add: one_line)
  show ?thesis
    using assms(2)
    by (auto simp: read_request_async_def read_frame_async_def decode_request_def open_body_def Let_def and_then_eq_Inl
        map_err_eq_Inl one_line assms(1) io dest!: decrypt_error_line [where et = et]
        split: prod.splits sum.splits if_splits)
qed

definition sober_handlers :: "(u16 \<rightharpoonup> 's handler_type) \<Rightarrow> bool" where
  "sober_handlers handlers \<longleftrightarrow>
     (\<forall>opcode h req s e. handlers opcode = Some (SyncH h) \<and> fst (h req s) = Returns (Err e) \<longrightarrow> one_line e)"

definition one_line_messages :: "log_line list \<Rightarrow> bool" where
  "one_line_messages lines \<longleftrightarrow> (\<forall>x \<in> set lines. one_line (snd x))"

lemma one_line_messages_simps [simp]:
  "one_line_messages []" "one_line_messages (x # xs) \<longleftrightarrow> one_line (snd x) \<and> one_line_messages xs"
  "one_line_messages (xs @ ys) \<longleftrightarrow> one_line_messages xs \<and> one_line_messages ys"
  by (auto simp: one_line_messages_def)

lemma serve_log_lines:
  assumes "sober_handlers handlers" and "\<forall>x. one_line (et_io et x)" and "one_line secs"
  shows "one_line_messages (serve_stream_log et secs cr handlers sid aid key c s)"
    and "one_line_messages (tcp_serve_log et secs cr handlers sid aid key c s)"
proof -
  have e: "one_line e" if "handlers opcode = Some (SyncH h)" "fst (h req s) = Returns (Err e)" for opcode h req e
    using assms(1) that unfolding sober_handlers_def by blast
  show "one_line_messages (serve_stream_log et secs cr handlers sid aid key c s)"
    "one_line_messages (tcp_serve_log et secs cr handlers sid aid key c s)"
    using read_error_line [OF assms(2), of cr c key] assms(3)
    by (auto simp: serve_stream_log_def tcp_serve_log_def one_line intro!: one_line_result dest: e
        split: sum.splits option.splits handler_type.splits outcome.splits)
qed

lemma request_stream_log_lines:
  "sober_handlers handlers \<Longrightarrow> \<forall>x. one_line (et_io et x) \<Longrightarrow> one_line secs \<Longrightarrow>
     one_line_messages (request_stream_log et secs cr handlers sid aid now later st st_key c s)"
  using serve_log_lines(1) by (fastforce simp: request_stream_log_def one_line split: option.split)

lemma tcp_loop_log_lines:
  assumes "sober_handlers handlers" and "\<forall>x. one_line (et_io et x)" and "\<forall>n. one_line (secs n)"
  shows "one_line_messages (tcp_loop_log et secs cr handlers sid aid key obs n c st s)"
  using assms
proof (induction et secs cr handlers sid aid key obs n c st s rule: tcp_loop_log.induct)
  case (1 et secs cr handlers sid aid key obs n c st s)
  then show ?case
    using serve_log_lines(2) [OF "1.prems"(1,2)]
    by (subst tcp_loop_log.simps) (auto split: prod.splits option.splits flow.splits)
qed

lemma handshake_known:
  "server_handshake re we cr priv pub ks sid c = (Ok (aid, key), c') \<Longrightarrow> aid = [] \<or> ks aid \<noteq> None"
  by (auto simp: server_handshake_def answer_handshake_def Let_def and_then_eq_Inr split: prod.splits sum.splits if_splits option.splits)

lemma connection_log_lines:
  assumes "\<forall>aid. ks aid \<noteq> None \<longrightarrow> one_line aid" and "sober_handlers handlers" and "\<forall>x. one_line (et_io et x)"
    and "\<forall>n. one_line (secs n)" and "one_line remote"
  shows "one_line_messages (tcp_connection_log et secs cr handlers ks priv pub sid now obs c st s)"
    and "one_line_messages (quic_connection_log remote cr ks priv pub sid control)"
proof -
  have aid: "one_line aid" if "server_handshake re we cr priv pub ks sid c = (Ok (aid, key), c')" for re we aid key c c'
    using handshake_known [OF that] assms(1) by (auto simp: one_line)
  show "one_line_messages (tcp_connection_log et secs cr handlers ks priv pub sid now obs c st s)"
    using tcp_loop_log_lines [OF assms(2-4)]
    by (auto simp: tcp_connection_log_def tcp_handshake_def Let_def one_line intro!: one_line_established dest: aid
        split: prod.splits sum.splits flow.splits)
  show "one_line_messages (quic_connection_log remote cr ks priv pub sid control)"
    using assms(5)
    by (auto simp: quic_connection_log_def quic_handshake_def one_line intro!: one_line_established dest: aid
        split: prod.splits sum.splits option.splits)
qed

text \<open>
  C28. Peers cannot forge log lines. Let no registered key id and no error text of the handlers, of the
  operating system or of the connection contain a line break. Then whatever clients send, whoever connects,
  the log of a connection or of a request, on both transports, comes out as exactly
  one line of text for each entry: nothing a peer chooses breaks a line or adds one.
\<close>

theorem log_not_forged:
  assumes "\<forall>aid. ks aid \<noteq> None \<longrightarrow> one_line aid" and "sober_handlers handlers" and "\<forall>x. one_line (et_io et x)"
    and "\<forall>n. one_line (secs n)" and "one_line remote" and "one_line tag"
    and "map snd lines \<in> {tcp_connection_log et secs cr handlers ks priv pub sid now obs c st s,
      quic_connection_log remote cr ks priv pub sid control,
      request_stream_log et (secs 0) cr handlers sid aid now later st st_key c s}"
  shows "\<exists>ls. log_output (Some \<lparr>lg_tag = tag\<rparr>) lines = concat (map (\<lambda>l. l @ [CHR 0x0A]) ls) \<and>
    length ls = length lines \<and> (\<forall>l \<in> set ls. one_line l)"
proof -
  have "one_line_messages (map snd lines)"
    using assms(7) connection_log_lines [OF assms(1-5)] request_stream_log_lines [OF assms(2,3)] assms(4) by fastforce
  then show ?thesis by (intro log_output_lines [OF assms(6)]) (auto simp: one_line_messages_def)
qed

theorem log_not_forged_witness:
  "\<exists>ls. log_output (Some \<lparr>lg_tag = ''hush''\<rparr>) [(0, ''WRN'', ''session[5] read request: frame: frame: eof'')] =
     concat (map (\<lambda>l. l @ [CHR 0x0A]) ls) \<and> length ls = 1 \<and> (\<forall>l \<in> set ls. one_line l)"
proof -
  let ?et = "\<lparr>et_io = \<lambda>_. ''io'', et_quinn = [], et_aead = []\<rparr>" and ?st = "store_new default_config"
  have "refused_session ?st 0 0 5 = None" by (simp add: refused_session_def store_get_def store_new_def)
  moreover have "fst (read_request_async toy_crypto (toy_conn [1, 2]) (Some (stream_key ?st 5))) = Err (RFrame FEof)"
    by (simp add: read_request_async_def read_frame_async_def read_exact_def toy_conn_def)
  moreover have five: "decimal 5 = ''5''" by code_simp
  ultimately have log: "request_stream_log ?et [] toy_crypto toy_handlers 5 [] 0 0 ?st ?st (toy_conn [1, 2]) 0 =
      [(''WRN'', ''session[5] read request: frame: frame: eof'')]"
    by (simp add: request_stream_log_def serve_stream_log_def session_tag_def five)
  have "sober_handlers toy_handlers"
    by (auto simp: sober_handlers_def toy_handlers_def toy_echo_def split: if_splits)
  then show ?thesis
    using log_not_forged [of Map.empty toy_handlers ?et "\<lambda>_. []" "[]" "''hush''"
        "[(0, ''WRN'', ''session[5] read request: frame: frame: eof'')]", where cr = toy_crypto and aid = "[]" and now = 0 and
        later = 0 and st = ?st and st_key = ?st and c = "toy_conn [1, 2]" and s = 0 and sid = 5]
    by (simp add: log one_line)
qed

section \<open>What leaves a trace\<close>

definition handler_panics :: "(u16 \<rightharpoonup> 's handler_type) \<Rightarrow> u64 \<Rightarrow> string \<Rightarrow> request \<Rightarrow> 's \<Rightarrow> bool" where
  "handler_panics handlers sid aid req s \<longleftrightarrow>
     (case handlers (req_opcode req) of
        Some (SyncH h) \<Rightarrow> fst (h (request_of req sid aid) s) = Panics
      | _ \<Rightarrow> False)"

lemma loop_log_open: "(''INF'', session_tag sid @ '' tcp closed'') \<notin> set (tcp_loop_log et secs cr handlers sid aid key obs n c st s)"
proof (induction et secs cr handlers sid aid key obs n c st s rule: tcp_loop_log.induct)
  case (1 et secs cr handlers sid aid key obs n c st s)
  have "(''INF'', session_tag sid @ '' tcp closed'') \<notin> set (tcp_serve_log et secs' cr handlers sid aid key c s')" for secs' s'
    by (auto simp: tcp_serve_log_def result_line_def opcode_text_def
        split: sum.splits option.splits handler_type.splits outcome.splits)
  with 1 show ?case by (subst tcp_loop_log.simps) (auto split: prod.splits option.splits flow.splits)
qed

text \<open>
  C29. What the log accounts for. A connection that fails before or in its handshake leaves no line, not even when it
  was refused for an unknown key id; one that ends by itself is logged as established and as closed, and
  one that unwinds never as closed. Every request on QUIC leaves exactly one
  line, unless its handler panics; on TCP only a request that cannot be read and one whose handler returned
  do, so refusals are not logged there.
\<close>

theorem log_accounts:
  shows "(case fst (handle_tcp_connection cr handlers ks priv pub sid now obs c st s) of
      Some (Err e) \<Rightarrow> tcp_connection_log et secs cr handlers ks priv pub sid now obs c st s = []
    | Some (Ok _) \<Rightarrow> \<exists>aid mid. tcp_connection_log et secs cr handlers ks priv pub sid now obs c st s =
        established_line '' tcp'' [] sid aid # mid @ [(''INF'', session_tag sid @ '' tcp closed'')]
    | None \<Rightarrow> \<exists>aid mid. tcp_connection_log et secs cr handlers ks priv pub sid now obs c st s =
        established_line '' tcp'' [] sid aid # mid \<and> (''INF'', session_tag sid @ '' tcp closed'') \<notin> set mid) \<and>
    (case fst (handle_connection cr ks priv pub sid now others control streams st) of
      Err e \<Rightarrow> quic_connection_log remote cr ks priv pub sid control = []
    | Ok _ \<Rightarrow> \<exists>aid. quic_connection_log remote cr ks priv pub sid control =
        [established_line [] ('' remote='' @ remote) sid aid, (''INF'', session_tag sid @ '' closed'')]) \<and>
    length (request_stream_log et (secs 0) cr handlers sid aid now later st st_key c s) =
      (case refused_session st now later sid of
         Some sess \<Rightarrow> 1
       | None \<Rightarrow> (case fst (read_request_async cr c (Some (stream_key st_key sid))) of
           Err e \<Rightarrow> 1
         | Ok (req, seq) \<Rightarrow> if handler_panics handlers sid aid req s then 0 else 1)) \<and>
    length (tcp_serve_log et (secs 0) cr handlers sid aid key c s) =
      (case fst (read_request_async cr c (Some key)) of
         Err e \<Rightarrow> 1
       | Ok (req, seq) \<Rightarrow> (case handlers (req_opcode req) of
           Some (SyncH h) \<Rightarrow> if handler_panics handlers sid aid req s then 0 else 1
         | _ \<Rightarrow> 0))"
proof (intro conjI)
  show "length (request_stream_log et (secs 0) cr handlers sid aid now later st st_key c s) =
      (case refused_session st now later sid of
         Some sess \<Rightarrow> 1
       | None \<Rightarrow> (case fst (read_request_async cr c (Some (stream_key st_key sid))) of
           Err e \<Rightarrow> 1
         | Ok (req, seq) \<Rightarrow> if handler_panics handlers sid aid req s then 0 else 1))"
    by (auto simp: request_stream_log_def serve_stream_log_def handler_panics_def
        split: option.splits sum.splits handler_type.splits outcome.splits)
  show "length (tcp_serve_log et (secs 0) cr handlers sid aid key c s) =
      (case fst (read_request_async cr c (Some key)) of
         Err e \<Rightarrow> 1
       | Ok (req, seq) \<Rightarrow> (case handlers (req_opcode req) of
           Some (SyncH h) \<Rightarrow> if handler_panics handlers sid aid req s then 0 else 1
         | _ \<Rightarrow> 0))"
    by (auto simp: tcp_serve_log_def handler_panics_def split: option.splits sum.splits handler_type.splits outcome.splits)
qed (auto simp: loop_log_open handle_tcp_connection_eq tcp_connection_log_def handle_connection_eq quic_connection_log_def Let_def
    split: option.splits sum.splits prod.splits flow.splits)

end
