(* ===== verification/Spec2Isabelle.thy ===== *)
theory Spec2Isabelle
  imports Hush_Lifecycle Hush_Authority Hush_Connection_Props Hush_Chat_Room Hush_Tests Hush_Server_Log
begin

text \<open>
  Verification development of \<open>hush-rs\<close>, a request/response and streaming protocol over QUIC or
  TLS with its own session encryption.

  \<^bold>\<open>The program.\<close> A client connects, sends a hello with a key id and a public key, and gets the
  server's public key and a session id; both derive a session key. From then on every request and
  response is a frame (length, sequence number, body) whose body is sealed under that key and
  carries an opcode or a status and an optional map in a tag/length/value format. On QUIC each
  request has a stream of its own, on TCP requests follow each other on the one stream. The server
  keeps its sessions in a store with timeouts and a collector, dispatches requests to handlers that
  middleware may wrap, and can bind media tokens to sessions; handlers may publish events on a
  hub and stream them to subscribers.

  \<^bold>\<open>Theories and sources.\<close>
  \<^item> \<open>Hush_Prelude\<close>, \<open>Hush_Bytes\<close>, \<open>Hush_Utf8\<close>, \<open>Hush_Io\<close>: results, durations, strings as the bytes they are, the
    store interfaces (locales \<open>store_view\<close> to \<open>keyed_gc_store\<close>), big-endian integers, UTF-8 as
    \<open>String::from_utf8\<close> and \<open>from_utf8_lossy\<close> decide it, byte streams that are read and written.
  \<^item> \<open>Hush_Tlv\<close> (\<open>src/tlv.rs\<close>), with \<open>Hush_Varint\<close>, \<open>Hush_Tlv_Encode\<close>, \<open>Hush_Tlv_Decode\<close> and \<open>Hush_Tlv_Props\<close>:
    the codec, its wire format as a specification, and what the decoder accepts.
  \<^item> \<open>Hush_Session\<close> (\<open>src/session.rs\<close>) and \<open>Hush_Session_Facts\<close>: cipher, key derivation, sessions and
    their store, expiry, the synchronous handshake.
  \<^item> \<open>Hush_Frame\<close> (\<open>src/frame.rs\<close>), \<open>Hush_Frame_Facts\<close> and \<open>Hush_Wire_Props\<close>: frames, requests,
    responses; the locales \<open>payload_codec\<close>, \<open>body_cipher\<close> and \<open>message_layer\<close> are the interfaces between
    the codec, the cipher and the messages.
  \<^item> \<open>Hush_Media\<close> (\<open>src/media.rs\<close>), \<open>Hush_Hub\<close> (\<open>src/hub.rs\<close>), \<open>Hush_Middleware\<close> (\<open>src/middleware.rs\<close>, contracts
    \<open>mediating\<close>, what passes on or answers, and \<open>calm\<close>, what besides does not panic; a limiter may), \<open>Hush_Logger\<close> (\<open>src/logger.rs\<close>), \<open>Hush_Transport\<close> (\<open>src/transport.rs\<close>).
  \<^item> \<open>Hush_Server\<close> and \<open>Hush_Accept\<close> (\<open>src/server.rs\<close>): the server value and its builders, handshakes, the
    service of a request on both transports, the TCP loop; the accept loops and the QUIC connection.
  \<^item> \<open>Hush_Client\<close> (\<open>src/client.rs\<close>).
  \<^item> \<open>Hush_Display\<close>: the texts of all errors; \<open>Hush_Server_Log\<close>: the log lines of \<open>src/server.rs\<close>.
  \<^item> \<open>Hush_Crud\<close>, \<open>Hush_Chat\<close>: the handlers of \<open>examples/crud.rs\<close>, \<open>chat.rs\<close> and \<open>weather.rs\<close>. \<open>Hush_Examples\<close>: the
    rest of those programs, that is \<open>main\<close>, the set-up of the servers and the clients, with \<open>str::trim\<close> in
    \<open>Hush_Trim\<close>; \<open>Hush_Examples_Run\<close> and \<open>Hush_Examples_Talk\<close>: what the three do, client against server;
    \<open>Hush_Chat_Room\<close>: a chat message from a client's input to the stream of another user's subscription.
  \<^item> \<open>Hush_Program\<close>: client programs as trees that write and ask, run over the protocol (on either
    transport; contract \<open>answers_as_specified\<close>) and, as the specification, by calling the handlers.
  \<^item> \<open>Hush_Tests\<close>: the unit tests of the repository, one definition each.
  \<^item> \<open>Hush_Link\<close>, \<open>Hush_Conversation\<close>, \<open>Hush_Server_Props\<close>, \<open>Hush_Connection_Props\<close>, \<open>Hush_Agreement\<close>: client and server together, one
    connection, and the program's several versions of the same thing.
  \<^item> \<open>Hush_System\<close> and \<open>Hush_Lifecycle\<close>: the running server as a transition system whose steps are the
    operations above, its invariants, and its refinement (locale \<open>simulation\<close>) of an abstract
    life cycle of session identifiers. \<open>Hush_Authority\<close>: every change of the application's state
    traced back through that system to a sealed request and a handshake.

  \<^bold>\<open>Conventions.\<close> A \<open>Result\<close> is a sum (\<open>Err\<close>, \<open>Ok\<close>), an error enum a datatype with one constructor for each
  place a formatted text is made, a struct a record, \<open>u8\<close> to \<open>u64\<close> are words, a \<open>HashMap\<close> is a partial
  map, a string is the list of its UTF-8 bytes as characters. Clock readings, random bytes and
  what other tasks do to shared state are arguments; a handler returns or panics and acts on a state
  of the application's choice. \<open>Arc<SessionStore>\<close> is an address in a heap where sharing matters
  (\<open>with_media\<close>). A spawned task is the value it was given. Integer overflow is that of a
  release build.

  \<^bold>\<open>Hypotheses.\<close> \<open>aead_ok\<close>, \<open>hkdf_ok\<close> and \<open>dh_ok\<close> are the documented behaviour of AES-GCM, HKDF and X25519,
  \<open>broadcast_ok\<close> that of tokio's broadcast channels, \<open>hex_ok\<close> that of the \<open>hex\<close> crate, \<open>enumerates\<close> that of iterating
  over a \<open>HashMap\<close> (each entry once, in some order); \<open>toy_crypto\<close>, \<open>toy_bc\<close>, \<open>toy_hex\<close> and \<open>toy_entries\<close> satisfy
  them. \<open>stack_ok\<close> and \<open>quiet\<close> collect what a run of a client program assumes of its surroundings: sound
  nonces, and a session that is not closed by others or outlived.

  \<^bold>\<open>What is shown.\<close> The codec round-trips (a timestamp to its millisecond), rejects truncation and normalises what it accepts, with
  its exact limits; varints are minimal; the ordered map is one. Messages survive frame and cipher,
  and only sealed messages are accepted (but under any sequence number). On both transports a
  handshake leaves both sides with one key and one id; a call reaches its handler once and its answer
  comes back; more than that, any client program over the wire writes what it would write next to the handlers
  (\<open>program_over_wire\<close>), which gives the exact output of the example programs; a TCP connection answers in order, writes nothing but whole sealed frames, and its
  loop ends after at most one round for every 38 bytes; QUIC and TCP agree, and so do the two
  implementations of the handshake. For the running server: identifiers are unique and never come
  back, a session's key and key id never change, stored sessions belong to connections unless a
  handler panics; requests are admitted only while the session is young enough; nothing changes the
  application but a handler run for a frame that was taken off a connection and is sealed under a key derived
  from the secret registered for the client's key id, or, for anonymous clients, from a public constant; timeouts are
  positive. Middleware guards and recovers, whatever custom middleware is around it within its contract, media tokens
  do not outlive their lifetime, chat messages reach every subscriber that keeps up, also from the keyboard of a client on, in the order typed,
  while others talk (their contract is \<open>others_talk\<close>; what is queued in all must fit the 64 places of a channel), notes are
  kept; the unit tests pass, but for one that depends on its draws; peers cannot forge log lines. Several theorems state behaviour that is probably not meant: an idle timeout that counts from
  creation, an expiry check that precedes an unlimited wait for the request, connections that outlive their collected session, sessions leaked by a panic, payloads
  dropped when malformed, timestamps cut, a length field that wraps, media tokens tied to a replaced store.

  \<^bold>\<open>Termination.\<close> No definition uses fuel. The decoder recurses on input that shrinks, varints on a
  shrinking word, \<open>tcp_loop\<close> on the length of its input, since a round that continues has read a
  frame. A reader or a receiver that waits is a stream or a list that has ended.

  \<^bold>\<open>Not modelled.\<close> \<open>rustls\<close>, \<open>quinn\<close>, \<open>tokio\<close>, sockets, the configuration \<open>insecure_client_tls\<close>
  builds, \<open>StreamReader\<close> (it forwards \<open>poll_read\<close>), the Tokio runtime the examples start, flushing of the
  terminal, and \<open>Debug\<close> output. The log of the server is given by functions beside its operations (\<open>Hush_Server_Log\<close>),
  not woven into them; \<open>stderr\<close> itself, where lines of several tasks meet, is not modelled.

  \<^bold>\<open>Interleaving.\<close> In \<open>Hush_System\<close> every step runs a function of the code's model on the shared state and, where it
  has one, on the stream of its connection (\<open>sy_conns\<close>): the handshakes with \<open>open_session\<close>; \<open>tcp_check\<close>, \<open>tcp_serve\<close> and
  \<open>tcp_finish\<close>, of which \<open>tcp_round\<close> and \<open>handle_tcp_connection\<close> are composed; \<open>stream_task_for\<close> and \<open>quic_finish\<close> of
  \<open>handle_connection\<close>. A TCP round is two steps, the check and the service of the request once it
  has come; a QUIC request is up to three, the check, taking the key and the service. Uninterrupted they
  are \<open>handle_tcp_connection\<close> (\<open>tcp_connection_steps\<close>) and \<open>handle_request_stream\<close> (\<open>quic_task_steps\<close>). A connection
  does not carry its transport, so the system allows more than the server: streams on a TCP connection. A check reads the clock twice in the
  code and once in a step, and a handler runs in one step.
\<close>

end
